(* ===== verification/Prelude.thy ===== *)
theory Prelude
  imports Main "HOL-Library.Word" "HOL-Library.Sublist"
begin

text \<open>
  What every component of the petrel model shares: the C++ integer types as words, the
  exceptions and crashes of the source as values of one error type, the standard containers'
  operations the source uses (\<open>back\<close>, \<open>pop_back\<close>, \<open>erase\<close>, C strings), and the generic
  lemmas and the collections of rules the component theories rely on.
\<close>

named_theorems model_defs \<open>definitions of straight-line operations, unfolded together\<close>
named_theorems inv_intros \<open>preservation lemmas of the components' invariants\<close>
named_theorems frame_simps \<open>fields an operation leaves alone\<close>

section \<open>Machine types and failures\<close>

type_synonym uint8 = "8 word"
type_synonym uint16 = "16 word"
type_synonym uint32 = "32 word"
type_synonym uint64 = "64 word"

text \<open>
  Every way in which a function of the source can leave without a value: the exceptions it
  throws (by the class of the exception; \<open>Future_error\<close> is the \<open>boost::fibers::future_error\<close> of a
  promise that is set twice), an error raised through Lua's
  \<open>luaL_error\<close>, and the two accesses C++ leaves undefined, at which the model stops: the
  dereference of a null pointer and an unchecked index out of range (\<open>Bad_access\<close>).
\<close>

datatype cpp_error =
    Runtime_error string
  | Out_of_range
  | Invalid_argument string
  | Bad_function_call
  | Bad_any_cast
  | Bad_access
  | System_error nat
  | Lua_error string
  | Null_dereference
  | Future_error
  | Logic_error string

type_synonym 'a result = "cpp_error + 'a"

fun is_ok :: "'a result \<Rightarrow> bool" where
  "is_ok (Inl e) = False"
| "is_ok (Inr x) = True"

lemma is_ok_iff: "is_ok r \<longleftrightarrow> (\<exists>x. r = Inr x)"
  by (cases r) auto

text \<open>What follows a call is left out when the call throws.\<close>

definition bind_result :: "'a result \<Rightarrow> ('a \<Rightarrow> 'b result) \<Rightarrow> 'b result" where
  "bind_result x f = (case x of Inl e \<Rightarrow> Inl e | Inr y \<Rightarrow> f y)"

lemma bind_result_simps [simp]: "bind_result (Inl e) f = Inl e" "bind_result (Inr y) f = f y"
  by (simp_all add: bind_result_def)

lemma bind_result_Inr_iff: "bind_result x f = Inr z \<longleftrightarrow> (\<exists>y. x = Inr y \<and> f y = Inr z)"
  by (cases x) simp_all

text \<open>The exceptions derived from \<open>std::runtime_error\<close>.\<close>

fun is_runtime_error :: "cpp_error \<Rightarrow> bool" where
  "is_runtime_error (Runtime_error msg) = True"
| "is_runtime_error (System_error c) = True"
| "is_runtime_error Future_error = True"
| "is_runtime_error _ = False"

text \<open>
  A loop of calls that may throw: the calls run in order and the first failure leaves the loop.
\<close>

fun fold_result :: "('s \<Rightarrow> 'x \<Rightarrow> 's result) \<Rightarrow> 's \<Rightarrow> 'x list \<Rightarrow> 's result" where
  "fold_result f s [] = Inr s"
| "fold_result f s (x # xs) = (case f s x of Inl e \<Rightarrow> Inl e | Inr s' \<Rightarrow> fold_result f s' xs)"

lemma fold_result_append:
  "fold_result f s (xs @ ys) =
     (case fold_result f s xs of Inl e \<Rightarrow> Inl e | Inr s' \<Rightarrow> fold_result f s' ys)"
  by (induction xs arbitrary: s) (auto split: sum.splits)

text \<open>An invariant of every successful call is an invariant of the loop.\<close>

lemma fold_result_invariant:
  assumes "fold_result f s xs = Inr s'" and "P s"
    and "\<And>s x s'. x \<in> set xs \<Longrightarrow> P s \<Longrightarrow> f s x = Inr s' \<Longrightarrow> P s'"
  shows "P s'"
  using assms
proof (induction xs arbitrary: s)
  case Nil
  then show ?case by simp
next
  case (Cons x xs)
  then obtain t where "f s x = Inr t" "fold_result f t xs = Inr s'"
    by (auto split: sum.splits)
  with Cons show ?case by (metis list.set_intros)
qed

text \<open>The same for calls that may run out of fuel.\<close>

fun fold_option :: "('s \<Rightarrow> 'x \<Rightarrow> 's option) \<Rightarrow> 's \<Rightarrow> 'x list \<Rightarrow> 's option" where
  "fold_option f s [] = Some s"
| "fold_option f s (x # xs) = (case f s x of None \<Rightarrow> None | Some s' \<Rightarrow> fold_option f s' xs)"

lemma fold_option_append:
  "fold_option f s (xs @ ys) =
     (case fold_option f s xs of None \<Rightarrow> None | Some s' \<Rightarrow> fold_option f s' ys)"
  by (induction xs arbitrary: s) (auto split: option.splits)

lemma fold_option_mem:
  assumes "fold_option f s xs = Some s'" "x \<in> set xs"
  shows "\<exists>s1 s2 ys. f s1 x = Some s2 \<and> fold_option f s2 ys = Some s'"
proof -
  from assms(2) obtain us vs where "xs = us @ x # vs" by (meson split_list)
  with assms(1) show ?thesis by (auto simp: fold_option_append split: option.splits)
qed

lemma fold_option_invariant:
  assumes "fold_option f s xs = Some s'" and "P s"
    and "\<And>s x s'. x \<in> set xs \<Longrightarrow> P s \<Longrightarrow> f s x = Some s' \<Longrightarrow> P s'"
  shows "P s'"
  using assms
proof (induction xs arbitrary: s)
  case Nil
  then show ?case by simp
next
  case (Cons x xs)
  then obtain t where t: "f s x = Some t" "fold_option f t xs = Some s'"
    by (auto split: option.splits)
  from Cons.prems(2,3) t(1) have "P t" by (meson list.set_intros(1))
  with Cons.IH [OF t(2)] Cons.prems(3) show ?case by (meson list.set_intros(2))
qed

text \<open>A \<open>std::function\<close>: \<open>None\<close> is the empty function, which throws when it is called.\<close>

type_synonym 'f std_function = "'f option"

text \<open>\<open>std::uint8_t c = s[i]\<close>: the value of a character as an unsigned byte.\<close>

definition to_uint8 :: "char \<Rightarrow> uint8" where
  "to_uint8 c = word_of_nat (of_char c)"

lemma unat_to_uint8 [simp]: "unat (to_uint8 c) = of_char c"
  using nat_of_char_less_256 [of c]
  by (simp add: to_uint8_def unat_of_nat take_bit_nat_eq_self)

lemma to_uint8_inject [simp]: "to_uint8 c = to_uint8 d \<longleftrightarrow> c = d"
proof
  assume "to_uint8 c = to_uint8 d"
  then have "unat (to_uint8 c) = unat (to_uint8 d)" by simp
  then show "c = d" by simp
qed simp

text \<open>An \<open>int\<close> holds the integers of its range.\<close>

lemma sint32_id: "- (2 ^ 31) \<le> x \<Longrightarrow> x < 2 ^ 31 \<Longrightarrow> sint (word_of_int x :: 32 word) = x"
  by (simp add: signed_of_int signed_take_bit_int_eq_self)

section \<open>Containers\<close>

text \<open>\<open>std::vector\<close> used as a stack: \<open>back\<close> with \<open>pop_back\<close>, and \<open>push_back\<close>.\<close>

lemma butlast_snoc_last: "xs \<noteq> [] \<Longrightarrow> butlast xs @ [last xs] = xs"
  by simp

lemma distinct_butlast_last:
  "distinct xs \<Longrightarrow> xs \<noteq> [] \<Longrightarrow> last xs \<notin> set (butlast xs)"
  by (metis append_butlast_last_id distinct_append list.set_intros(1) disjoint_iff)

lemma set_butlast_last: "xs \<noteq> [] \<Longrightarrow> insert (last xs) (set (butlast xs)) = set xs"
  by (metis append_butlast_last_id list.simps(15) set_append Un_insert_right empty_set sup_bot_right)

text \<open>\<open>s.c_str()\<close> read back as a C string: the characters before the first NUL.\<close>

definition c_str :: "string \<Rightarrow> string" where
  "c_str s = takeWhile (\<lambda>c. c \<noteq> CHR 0x00) s"

lemma c_str_id: "CHR 0x00 \<notin> set s \<Longrightarrow> c_str s = s"
  by (auto simp: c_str_def takeWhile_eq_all_conv)

lemma c_str_no_nul: "CHR 0x00 \<notin> set (c_str s)"
  by (auto simp: c_str_def dest: set_takeWhileD)

text \<open>Searching for an element from the left, as \<open>std::find\<close> does: the index, or the length.\<close>

fun index_of :: "'a \<Rightarrow> 'a list \<Rightarrow> nat" where
  "index_of x [] = 0"
| "index_of x (y # ys) = (if y = x then 0 else Suc (index_of x ys))"

lemma index_of_le [simp]: "index_of x xs \<le> length xs"
  by (induction xs) auto

lemma index_of_less_iff: "index_of x xs < length xs \<longleftrightarrow> x \<in> set xs"
  by (induction xs) auto

lemma nth_index_of: "x \<in> set xs \<Longrightarrow> xs ! index_of x xs = x"
  by (induction xs) auto

lemma take_index_of: "x \<notin> set (take (index_of x xs) xs)"
  by (induction xs) auto

lemma index_of_append_notin: "x \<notin> set xs \<Longrightarrow> index_of x (xs @ x # ys) = length xs"
  by (induction xs) auto

end
