(* ===== verification/Library.thy ===== *)
theory Library
  imports Prelude
begin

text \<open>
  The interface of Lua libraries (\<open>src/lib/library.h\<close>, \<open>library_builtin.h\<close>): what the macros that
  declare a class as a library generate, on a model of the part of Lua's C API they use. Tables
  are addresses; the registry is the table in which both \<open>lua_requiref\<close> and \<open>luaL_newmetatable\<close>
  keep their entries.
\<close>

section \<open>Lua's C API\<close>

text \<open>The C functions of a library: its constructor, a static function, a method.\<close>

datatype cfunction = New string | Function string string | Method string string

datatype lua_value = Nil_value | Str string | Light nat | Userdata | Cfun cfunction | Tbl nat

datatype lua_key = Name string | Index nat

record lua_table =
  slots :: "lua_key \<Rightarrow> lua_value"
  meta :: "nat option"

text \<open>
  A state: the stack of the running function (its bottom first), the tables, the registry, the
  globals and the metatables that all light userdata and all strings share. \<open>ctx_objects\<close> is
  \<open>petrel_context\<close>'s list \<open>p_objects\<close>; \<open>objects\<close> are the C++ objects with their class, \<open>None\<close>
  when deleted.
\<close>

record lua_api =
  stack :: "lua_value list"
  tables :: "lua_table list"
  reg :: "string \<Rightarrow> lua_value"
  globals :: "string \<Rightarrow> lua_value"
  light_meta :: "nat option"
  string_meta :: "nat option"
  ctx_objects :: "nat list"
  objects :: "string option list"

definition push :: "lua_value \<Rightarrow> lua_api \<Rightarrow> lua_api" where
  "push v s = s\<lparr>stack := stack s @ [v]\<rparr>"

definition lua_pop :: "nat \<Rightarrow> lua_api \<Rightarrow> lua_api" where
  "lua_pop n s = s\<lparr>stack := take (length (stack s) - n) (stack s)\<rparr>"

definition gettop :: "lua_api \<Rightarrow> nat" where
  "gettop s = length (stack s)"

text \<open>Indices count from 1 at the bottom; \<open>top\<close> is the index -1.\<close>

definition value_at :: "nat \<Rightarrow> lua_api \<Rightarrow> lua_value" where
  "value_at i s = (if 0 < i \<and> i \<le> length (stack s) then stack s ! (i - 1) else Nil_value)"

definition top_value :: "lua_api \<Rightarrow> lua_value" where
  "top_value s = value_at (gettop s) s"

definition lua_remove :: "nat \<Rightarrow> lua_api \<Rightarrow> lua_api" where
  "lua_remove i s = s\<lparr>stack := take (i - 1) (stack s) @ drop i (stack s)\<rparr>"

definition newtable :: "lua_api \<Rightarrow> lua_api" where
  "newtable s = push (Tbl (length (tables s)))
     (s\<lparr>tables := tables s @ [\<lparr>slots = (\<lambda>k. Nil_value), meta = None\<rparr>]\<rparr>)"

text \<open>An assignment to a slot of the table at an index, of the value on top, which is popped.\<close>

definition set_slot :: "nat \<Rightarrow> lua_key \<Rightarrow> lua_api \<Rightarrow> lua_api result" where
  "set_slot i k s =
     (case value_at i s of
        Tbl t \<Rightarrow> Inr (lua_pop 1 (s\<lparr>tables := (tables s)[t := (tables s ! t)\<lparr>slots := (slots (tables s ! t))(k := top_value s)\<rparr>]\<rparr>))
      | _ \<Rightarrow> Inl (Lua_error ''attempt to index a value''))"

definition setmetatable :: "nat \<Rightarrow> lua_api \<Rightarrow> lua_api result" where
  "setmetatable i s =
     bind_result (case top_value s of Tbl m \<Rightarrow> Inr (Some m) | Nil_value \<Rightarrow> Inr None | _ \<Rightarrow> Inl Bad_access)
       (\<lambda>m. Inr (lua_pop 1
         (case value_at i s of
            Tbl t \<Rightarrow> s\<lparr>tables := (tables s)[t := (tables s ! t)\<lparr>meta := m\<rparr>]\<rparr>
          | Light p \<Rightarrow> s\<lparr>light_meta := m\<rparr>
          | Str str \<Rightarrow> s\<lparr>string_meta := m\<rparr>
          | _ \<Rightarrow> s)))"

definition getmetatable :: "string \<Rightarrow> lua_api \<Rightarrow> lua_api" where
  "getmetatable name s = push (reg s name) s"

text \<open>\<open>luaL_newmetatable\<close>: an entry that is there already is pushed as it is.\<close>

definition newmetatable :: "string \<Rightarrow> lua_api \<Rightarrow> lua_api" where
  "newmetatable name s =
     (if reg s name \<noteq> Nil_value then push (reg s name) s
      else (let s = newtable s in s\<lparr>reg := (reg s)(name := top_value s)\<rparr>))"

section \<open>The library's declaration\<close>

text \<open>\<open>luaL_Reg\<close>, whose name may be null, and what \<open>DECLARE_LIB_BEGIN\<close> declares.\<close>

type_synonym lua_reg = "string option \<times> cfunction"

record library =
  lib_name :: string
  lib_state_init :: "(lua_api \<Rightarrow> lua_api) option"
  library_functions :: "lua_reg list"
  library_methods :: "lua_reg list"

definition declare_lib :: "string \<Rightarrow> library" where
  "declare_lib name = \<lparr>lib_name = name, lib_state_init = None, library_functions = [], library_methods = []\<rparr>"

definition lib_add_function :: "string option \<Rightarrow> cfunction option \<Rightarrow> library \<Rightarrow> library" where
  "lib_add_function name f l =
     (case f of None \<Rightarrow> l | Some g \<Rightarrow> l\<lparr>library_functions := library_functions l @ [(name, g)]\<rparr>)"

definition lib_add_method :: "string option \<Rightarrow> cfunction option \<Rightarrow> library \<Rightarrow> library" where
  "lib_add_method name f l =
     (case f of None \<Rightarrow> l | Some g \<Rightarrow> l\<lparr>library_methods := library_methods l @ [(name, g)]\<rparr>)"

text \<open>The macros; a builtin library also exports its constructor as \<open>new\<close>.\<close>

definition add_lib_function :: "string \<Rightarrow> library \<Rightarrow> library" where
  "add_lib_function f l = lib_add_function (Some f) (Some (Function (lib_name l) f)) l"

definition add_lib_method :: "string \<Rightarrow> library \<Rightarrow> library" where
  "add_lib_method f l = lib_add_method (Some f) (Some (Method (lib_name l) f)) l"

definition lib_register :: "library \<Rightarrow> library" where
  "lib_register l = lib_add_function (Some ''new'') (Some (New (lib_name l))) l"

section \<open>Opening and initialising\<close>

fun add_functions :: "nat \<Rightarrow> lua_reg list \<Rightarrow> lua_api \<Rightarrow> lua_api result" where
  "add_functions tab [] s = Inr s"
| "add_functions tab ((name, f) # fs) s =
     (case name of
        None \<Rightarrow> Inl Null_dereference
      | Some n \<Rightarrow> bind_result (set_slot tab (Name n) (push (Cfun f) s)) (add_functions tab fs))"

definition lib_open :: "library \<Rightarrow> lua_api \<Rightarrow> lua_api result" where
  "lib_open l s =
     (if length (library_functions l) > 0 then
        (let s = newtable s; newtab = gettop s in add_functions newtab (library_functions l) s)
      else Inr s)"

definition lib_init :: "library \<Rightarrow> lua_api \<Rightarrow> lua_api result" where
  "lib_init l s =
     (let funcs = gettop s;
          s = newmetatable (lib_name l) s;
          metatab = gettop s in
      bind_result (set_slot metatab (Name ''__index'') (push (value_at funcs s) s)) (\<lambda>s.
      bind_result (set_slot metatab (Name ''__metatable'') (push (value_at funcs s) s)) (\<lambda>s.
      (let s = newtable s; mt = gettop s in
      bind_result (set_slot mt (Name ''__call'') (push (Cfun (New (lib_name l))) s)) (\<lambda>s.
      bind_result (setmetatable funcs s) (\<lambda>s.
      (let s = lua_pop 1 s in
       Inr (case lib_state_init l of None \<Rightarrow> s | Some f \<Rightarrow> f s))))))))"

text \<open>
  \<open>lua_requiref\<close> (\<open>src/core/lua_utils.cpp\<close>), where \<open>openf\<close> runs with the module's name as its
  only argument and leaves the module on top; and the loop of \<open>lua_state_manager::load_libs\<close>.
\<close>

definition lua_requiref :: "string \<Rightarrow> (lua_api \<Rightarrow> lua_api result) \<Rightarrow> bool \<Rightarrow> lua_api \<Rightarrow> lua_api result" where
  "lua_requiref modname openf glb s =
     bind_result
       (if reg s modname = Nil_value then
          bind_result (openf (s\<lparr>stack := [Str modname]\<rparr>)) (\<lambda>s'.
            Inr (s'\<lparr>stack := stack s @ [top_value s'], reg := (reg s')(modname := top_value s')\<rparr>))
        else Inr (push (reg s modname) s))
       (\<lambda>s. Inr (if glb then s\<lparr>globals := (globals s)(modname := top_value s)\<rparr> else s))"

definition load_libs_into :: "library list \<Rightarrow> lua_api \<Rightarrow> lua_api result" where
  "load_libs_into libs s =
     fold_result (\<lambda>s l. bind_result (lua_requiref (lib_name l) (lib_open l) True s) (lib_init l)) s libs"

section \<open>Objects\<close>

text \<open>The constructor: the class's object, and the table with its pointer and its methods.\<close>

fun add_methods :: "nat \<Rightarrow> lua_reg list \<Rightarrow> lua_api \<Rightarrow> lua_api result" where
  "add_methods tab [] s = Inr s"
| "add_methods tab ((name, f) # fs) s =
     (case name of
        None \<Rightarrow> add_methods tab fs s
      | Some n \<Rightarrow> bind_result (set_slot tab (Name n) (push (Cfun f) s)) (add_methods tab fs))"

definition lib_new :: "library \<Rightarrow> lua_api \<Rightarrow> lua_api result" where
  "lib_new l s =
     (if globals s ''petrel_context'' \<noteq> Userdata then Inl Null_dereference
      else
        (let obj = length (objects s);
             s = s\<lparr>ctx_objects := ctx_objects s @ [obj], objects := objects s @ [Some (lib_name l)]\<rparr>;
             s = push (Light obj) s;
             userdata = gettop s in
         bind_result (setmetatable userdata (getmetatable (lib_name l) s)) (\<lambda>s.
         (let s = newtable s; newtab = gettop s in
         bind_result (set_slot newtab (Index 1) (push (value_at userdata s) s)) (\<lambda>s.
         bind_result (setmetatable newtab (getmetatable (lib_name l) s)) (\<lambda>s.
         bind_result (add_methods newtab (library_methods l) s) (\<lambda>s.
         Inr (lua_remove 1 (lua_remove 1 s)))))))))"

text \<open>
  \<open>ADD_LIB_METHOD\<close>: the object and the arguments that the class's function is called with. The
  cast trusts the pointer: an object that is deleted or of another class is not one to use.
\<close>

definition lib_method :: "string \<Rightarrow> string \<Rightarrow> lua_api \<Rightarrow> (nat \<times> lua_api) result" where
  "lib_method cls f s =
     (case value_at 1 s of
        Tbl t \<Rightarrow>
          (case slots (tables s ! t) (Index 1) of
             Light obj \<Rightarrow>
               if obj < length (objects s) \<and> objects s ! obj = Some cls then Inr (obj, lua_remove 1 s)
               else Inl Bad_access
           | _ \<Rightarrow> Inl (Lua_error ''unable to find _this''))
      | _ \<Rightarrow> Inl (Lua_error (''Invalid method call, did you mean obj:'' @ f @ '' instead of obj.'' @ f @ ''?'')))"

text \<open>\<open>free_state\<close> deletes the objects of a state.\<close>

definition delete_objects :: "lua_api \<Rightarrow> lua_api" where
  "delete_objects s =
     s\<lparr>ctx_objects := [], objects := fold (\<lambda>a os. os[a := None]) (ctx_objects s) (objects s)\<rparr>"

text \<open>
  A call \<open>lib()\<close> from Lua: the metatable's \<open>__call\<close> is called with the module and the arguments.
\<close>

definition call_module :: "library list \<Rightarrow> string \<Rightarrow> lua_value list \<Rightarrow> lua_api \<Rightarrow> (lua_value \<times> lua_api) result" where
  "call_module libs name args s =
     (case globals s name of
        Tbl t \<Rightarrow>
          (case meta (tables s ! t) of
             None \<Rightarrow> Inl (Lua_error ''attempt to call a table value'')
           | Some m \<Rightarrow>
               (case slots (tables s ! m) (Name ''__call'') of
                  Cfun (New cls) \<Rightarrow>
                    (case List.find (\<lambda>l. lib_name l = cls) libs of
                       None \<Rightarrow> Inl Bad_access
                     | Some l \<Rightarrow>
                         bind_result (lib_new l (s\<lparr>stack := Tbl t # args\<rparr>)) (\<lambda>s'.
                           Inr (top_value s', s'\<lparr>stack := stack s\<rparr>)))
                | _ \<Rightarrow> Inl (Lua_error ''attempt to call a table value'')))
      | _ \<Rightarrow> Inl (Lua_error ''attempt to call a value''))"

section \<open>What the constructor and the initialisation build\<close>

definition empty_table :: lua_table where
  "empty_table = \<lparr>slots = (\<lambda>k. Nil_value), meta = None\<rparr>"

fun put_all :: "lua_reg list \<Rightarrow> lua_table \<Rightarrow> lua_table" where
  "put_all [] tb = tb"
| "put_all ((None, f) # fs) tb = put_all fs tb"
| "put_all ((Some n, f) # fs) tb = put_all fs (tb\<lparr>slots := (slots tb)(Name n := Cfun f)\<rparr>)"

lemma put_all_meta [simp]: "meta (put_all fs tb) = meta tb"
  by (induction fs tb rule: put_all.induct) simp_all

lemma put_all_other: "k \<notin> (\<lambda>(n, f). Name (the n)) ` set fs \<Longrightarrow> slots (put_all fs tb) k = slots tb k"
  by (induction fs tb rule: put_all.induct) auto

text \<open>A name that always comes with the same function leads to it.\<close>

lemma put_all_same:
  assumes "(Some n, f) \<in> set fs \<or> slots tb (Name n) = Cfun f" "\<forall>g. (Some n, g) \<in> set fs \<longrightarrow> g = f"
  shows "slots (put_all fs tb) (Name n) = Cfun f"
  using assms
proof (induction fs tb rule: put_all.induct)
  case (3 m g fs tb)
  have g: "g = f" if "m = n" using "3.prems"(2) that by simp
  have "(Some n, f) \<in> set fs \<or> slots (tb\<lparr>slots := (slots tb)(Name m := Cfun g)\<rparr>) (Name n) = Cfun f"
    using "3.prems"(1) g by (cases "m = n") simp_all
  from "3.IH" [OF this] "3.prems"(2) show ?case by simp
qed simp_all

lemmas stack_defs = push_def lua_pop_def gettop_def value_at_def top_value_def lua_remove_def

lemma value_at_push [simp]:
  "value_at i (push v s) = (if i = gettop s + 1 then v else value_at i s)"
  by (auto simp: stack_defs nth_append)

lemma stack_simps [simp]:
  "gettop (push v s) = gettop s + 1" "top_value (push v s) = v" "lua_pop 1 (push v s) = s"
  "stack (push v s) = stack s @ [v]" "tables (push v s) = tables s" "reg (push v s) = reg s"
  "globals (push v s) = globals s" "light_meta (push v s) = light_meta s"
  "objects (push v s) = objects s" "ctx_objects (push v s) = ctx_objects s"
  by (simp_all add: stack_defs)

text \<open>What does not touch the stack.\<close>

lemma stack_frame [simp]:
  "value_at i (s\<lparr>tables := ts\<rparr>) = value_at i s" "gettop (s\<lparr>tables := ts\<rparr>) = gettop s"
  "value_at i (s\<lparr>light_meta := lm\<rparr>) = value_at i s" "gettop (s\<lparr>light_meta := lm\<rparr>) = gettop s"
  "value_at i (s\<lparr>objects := os\<rparr>) = value_at i s" "gettop (s\<lparr>objects := os\<rparr>) = gettop s"
  "value_at i (s\<lparr>ctx_objects := cs\<rparr>) = value_at i s" "gettop (s\<lparr>ctx_objects := cs\<rparr>) = gettop s"
  "value_at i (s\<lparr>reg := r\<rparr>) = value_at i s" "gettop (s\<lparr>reg := r\<rparr>) = gettop s"
  by (simp_all add: stack_defs)

lemma push_commute [simp]:
  "(push v s)\<lparr>tables := ts\<rparr> = push v (s\<lparr>tables := ts\<rparr>)"
  "(push v s)\<lparr>light_meta := lm\<rparr> = push v (s\<lparr>light_meta := lm\<rparr>)"
  "(push v s)\<lparr>reg := r\<rparr> = push v (s\<lparr>reg := r\<rparr>)"
  by (simp_all add: push_def)

lemma value_at_gettop: "value_at i s = Tbl t \<Longrightarrow> i \<noteq> gettop s + 1"
  by (auto simp: value_at_def gettop_def)

lemma set_slot_push:
  assumes "value_at i s = Tbl t" "t < length (tables s)"
  shows "set_slot i k (push v s) =
    Inr (s\<lparr>tables := (tables s)[t := (tables s ! t)\<lparr>slots := (slots (tables s ! t))(k := v)\<rparr>]\<rparr>)"
  using assms value_at_gettop [OF assms(1)] by (simp add: set_slot_def del: One_nat_def)

lemma setmetatable_push:
  assumes "i \<le> gettop s"
  shows "setmetatable i (push (Tbl m) s) = Inr
    (case value_at i s of
       Tbl t \<Rightarrow> s\<lparr>tables := (tables s)[t := (tables s ! t)\<lparr>meta := Some m\<rparr>]\<rparr>
     | Light p \<Rightarrow> s\<lparr>light_meta := Some m\<rparr>
     | Str str \<Rightarrow> s\<lparr>string_meta := Some m\<rparr>
     | _ \<Rightarrow> s)"
proof -
  have "lua_pop 1 ((push (Tbl m) s)\<lparr>string_meta := sm\<rparr>) = s\<lparr>string_meta := sm\<rparr>" for sm
    by (simp add: stack_defs)
  with assms show ?thesis
    by (cases "value_at i s") (simp_all add: setmetatable_def del: One_nat_def)
qed

lemma add_methods_put:
  assumes "value_at tab s = Tbl t" "t < length (tables s)"
  shows "add_methods tab fs s = Inr (s\<lparr>tables := (tables s)[t := put_all fs (tables s ! t)]\<rparr>)"
  using assms
proof (induction fs arbitrary: s)
  case Nil
  then show ?case by simp
next
  case (Cons a fs)
  obtain n f where a: "a = (n, f)" by (cases a)
  show ?case
  proof (cases n)
    case None
    with Cons a show ?thesis by simp
  next
    case (Some m)
    let ?s = "s\<lparr>tables := (tables s)[t := (tables s ! t)\<lparr>slots := (slots (tables s ! t))(Name m := Cfun f)\<rparr>]\<rparr>"
    have "value_at tab ?s = Tbl t" "t < length (tables ?s)" using Cons.prems by simp_all
    from Cons.IH [OF this] Cons.prems Some show ?thesis by (simp add: a set_slot_push)
  qed
qed

lemma add_functions_put:
  assumes "value_at tab s = Tbl t" "t < length (tables s)" "None \<notin> fst ` set fs"
  shows "add_functions tab fs s = Inr (s\<lparr>tables := (tables s)[t := put_all fs (tables s ! t)]\<rparr>)"
proof -
  have "add_functions tab fs = add_methods tab fs"
    using assms(3)
  proof (induction fs)
    case (Cons a fs)
    obtain n f where "a = (n, f)" by (cases a)
    with Cons show ?case by (cases n) (auto intro!: ext)
  qed (simp add: fun_eq_iff)
  with add_methods_put [OF assms(1,2)] show ?thesis by simp
qed

text \<open>The constructor, from any stack, when the library's metatable is there.\<close>

definition new_object :: "library \<Rightarrow> nat \<Rightarrow> lua_api \<Rightarrow> lua_api" where
  "new_object l m s =
     s\<lparr>tables := tables s @ [put_all (library_methods l)
         (empty_table\<lparr>slots := (slots empty_table)(Index 1 := Light (length (objects s))), meta := Some m\<rparr>)],
       light_meta := Some m, ctx_objects := ctx_objects s @ [length (objects s)],
       objects := objects s @ [Some (lib_name l)]\<rparr>"

lemma lua_remove_two: "lua_remove 1 (lua_remove 1 s) = s\<lparr>stack := drop 2 (stack s)\<rparr>"
  by (simp add: lua_remove_def numeral_2_eq_2)

lemma lib_new_eq:
  assumes "globals s ''petrel_context'' = Userdata" "reg s (lib_name l) = Tbl m"
  shows "lib_new l s = Inr ((new_object l m s)\<lparr>stack :=
    drop 2 (stack s @ [Light (length (objects s)), Tbl (length (tables s))])\<rparr>)"
  using assms
  by (simp add: lib_new_def Let_def newtable_def getmetatable_def setmetatable_push set_slot_push
      add_methods_put lua_remove_two del: One_nat_def)
    (simp add: new_object_def empty_table_def push_def)

text \<open>Called without an argument, the constructor removes the object from the stack too.\<close>

lemma lib_new_without_argument:
  assumes "globals s ''petrel_context'' = Userdata" "reg s (lib_name l) = Tbl m" "stack s = []"
  shows "\<exists>s'. lib_new l s = Inr s' \<and> stack s' = []"
  using assms by (simp add: lib_new_eq)

section \<open>Loading\<close>

text \<open>What loading a library adds to a state in which its name is not taken.\<close>

definition module_table :: "library \<Rightarrow> nat \<Rightarrow> lua_table" where
  "module_table l t = (let tb = put_all (library_functions l) empty_table in
     tb\<lparr>slots := (slots tb)(Name ''__index'' := Tbl t, Name ''__metatable'' := Tbl t), meta := Some (t + 1)\<rparr>)"

definition call_table :: "library \<Rightarrow> lua_table" where
  "call_table l = empty_table\<lparr>slots := (slots empty_table)(Name ''__call'' := Cfun (New (lib_name l)))\<rparr>"

definition loaded_module :: "library \<Rightarrow> lua_api \<Rightarrow> lua_api" where
  "loaded_module l s =
     (let t = length (tables s) in
      s\<lparr>stack := stack s @ [Tbl t], tables := tables s @ [module_table l t, call_table l],
        reg := (reg s)(lib_name l := Tbl t), globals := (globals s)(lib_name l := Tbl t)\<rparr>)"

definition complete :: "library \<Rightarrow> bool" where
  "complete l \<longleftrightarrow> library_functions l \<noteq> [] \<and> None \<notin> fst ` set (library_functions l) \<and> lib_state_init l = None"

lemma lib_init_eq:
  assumes "lib_state_init l = None" "reg s (lib_name l) = Tbl t" "t < length (tables s)"
  shows "lib_init l (push (Tbl t) s) = Inr (push (Tbl t) (s\<lparr>tables :=
    (tables s)[t := (tables s ! t)\<lparr>slots := (slots (tables s ! t))(Name ''__index'' := Tbl t, Name ''__metatable'' := Tbl t),
      meta := Some (length (tables s))\<rparr>] @ [call_table l]\<rparr>))"
  using assms
  by (simp add: lib_init_def newmetatable_def Let_def newtable_def setmetatable_push set_slot_push
      nth_append list_update_append call_table_def empty_table_def del: One_nat_def)

lemma load_lib_eq:
  assumes "complete l" "reg s (lib_name l) = Nil_value"
  shows "bind_result (lua_requiref (lib_name l) (lib_open l) True s) (lib_init l) = Inr (loaded_module l s)"
proof -
  let ?t = "length (tables s)" and ?tb = "put_all (library_functions l) empty_table"
  let ?s = "s\<lparr>tables := tables s @ [?tb], reg := (reg s)(lib_name l := Tbl ?t),
    globals := (globals s)(lib_name l := Tbl ?t)\<rparr>"
  have "lua_requiref (lib_name l) (lib_open l) True s = Inr (push (Tbl ?t) ?s)"
    using assms
    by (simp add: complete_def lua_requiref_def lib_open_def Let_def newtable_def add_functions_put
        empty_table_def del: One_nat_def) (simp add: stack_defs)
  moreover have "lib_init l (push (Tbl ?t) ?s) = Inr (loaded_module l s)"
    using assms lib_init_eq [of l ?s ?t]
    by (simp add: complete_def loaded_module_def module_table_def Let_def push_def)
  ultimately show ?thesis by simp
qed

text \<open>A library is loaded: its module is in the registry and a global, with a metatable that calls.\<close>

definition loaded :: "library \<Rightarrow> lua_api \<Rightarrow> bool" where
  "loaded l s \<longleftrightarrow> (\<exists>t. reg s (lib_name l) = Tbl t \<and> globals s (lib_name l) = Tbl t \<and>
     Suc t < length (tables s) \<and> tables s ! t = module_table l t \<and> tables s ! Suc t = call_table l)"

lemma loaded_loaded_module:
  "loaded l (loaded_module l s)"
  "lib_name l' \<noteq> lib_name l \<Longrightarrow> loaded l' s \<Longrightarrow> loaded l' (loaded_module l s)"
proof -
  show "loaded l (loaded_module l s)" unfolding loaded_def
    by (intro exI [of _ "length (tables s)"]) (simp add: loaded_module_def Let_def nth_append)
  assume n: "lib_name l' \<noteq> lib_name l" and "loaded l' s"
  then obtain t where "reg s (lib_name l') = Tbl t" "globals s (lib_name l') = Tbl t"
     "Suc t < length (tables s)" "tables s ! t = module_table l' t" "tables s ! Suc t = call_table l'"
    by (auto simp: loaded_def)
  with n show "loaded l' (loaded_module l s)" unfolding loaded_def
    by (intro exI [of _ t]) (simp add: loaded_module_def Let_def nth_append)
qed

lemma load_libs_loaded:
  assumes "distinct (map lib_name libs)" "\<forall>l \<in> set libs. complete l \<and> reg s (lib_name l) = Nil_value"
  shows "\<exists>s'. load_libs_into libs s = Inr s' \<and> (\<forall>l \<in> set libs. loaded l s') \<and>
    (\<forall>l. loaded l s \<and> lib_name l \<notin> lib_name ` set libs \<longrightarrow> loaded l s')"
  using assms
proof (induction libs arbitrary: s)
  case Nil
  then show ?case by (simp add: load_libs_into_def)
next
  case (Cons l libs)
  let ?s1 = "loaded_module l s"
  have "\<forall>l' \<in> set libs. complete l' \<and> reg ?s1 (lib_name l') = Nil_value"
  proof
    fix l' assume l': "l' \<in> set libs"
    then have "lib_name l' \<noteq> lib_name l" using Cons.prems(1) by (metis distinct.simps(2) image_eqI list.set_map list.simps(9))
    with l' Cons.prems(2) show "complete l' \<and> reg ?s1 (lib_name l') = Nil_value"
      by (simp add: loaded_module_def Let_def)
  qed
  with Cons.IH [of ?s1] Cons.prems obtain s' where s': "load_libs_into libs ?s1 = Inr s'"
    "\<forall>l \<in> set libs. loaded l s'"
    "\<forall>l'. loaded l' ?s1 \<and> lib_name l' \<notin> lib_name ` set libs \<longrightarrow> loaded l' s'" by auto
  have "load_libs_into (l # libs) s = Inr s'"
    using s'(1) load_lib_eq [of l s] Cons.prems(2) by (simp add: load_libs_into_def)
  moreover have "loaded l s'" using s'(3) loaded_loaded_module(1) Cons.prems(1) by simp
  moreover have "loaded l' s'" if "loaded l' s" "lib_name l' \<notin> lib_name ` set (l # libs)" for l'
    using that s'(3) loaded_loaded_module(2) [of l' l s] by simp
  ultimately show ?case using s'(2) by simp
qed

section \<open>Objects and their methods\<close>

text \<open>The value is the table of a living object of the library, and its methods are the library's.\<close>

definition is_object :: "lua_api \<Rightarrow> library \<times> lua_value \<times> nat \<Rightarrow> bool" where
  "is_object s x \<longleftrightarrow> (case x of (l, v, obj) \<Rightarrow>
     obj < length (objects s) \<and> objects s ! obj = Some (lib_name l) \<and> obj \<in> set (ctx_objects s) \<and>
     (\<exists>t. v = Tbl t \<and> t < length (tables s) \<and> slots (tables s ! t) (Index 1) = Light obj \<and>
        (\<forall>f. (Some f, Method (lib_name l) f) \<in> set (library_methods l) \<longrightarrow>
           slots (tables s ! t) (Name f) = Cfun (Method (lib_name l) f))))"

text \<open>Methods are exported under their own names.\<close>

definition own_methods :: "library \<Rightarrow> bool" where
  "own_methods l \<longleftrightarrow> (\<forall>n g. (Some n, g) \<in> set (library_methods l) \<longrightarrow> g = Method (lib_name l) n) \<and>
     None \<notin> fst ` set (library_methods l)"

lemma loaded_new_object:
  assumes "loaded l s"
  shows "loaded l (new_object l' m s)"
proof -
  from assms obtain t where "reg s (lib_name l) = Tbl t" "globals s (lib_name l) = Tbl t"
     "Suc t < length (tables s)" "tables s ! t = module_table l t" "tables s ! Suc t = call_table l"
    by (auto simp: loaded_def)
  then show ?thesis unfolding loaded_def
    by (intro exI [of _ t]) (simp add: new_object_def nth_append)
qed

lemma is_object_new_object:
  assumes "is_object s (l', v, obj)"
  shows "is_object (new_object l m s) (l', v, obj)"
proof -
  from assms obtain t where "v = Tbl t" "t < length (tables s)" unfolding is_object_def by auto
  moreover from this have "tables (new_object l m s) ! t = tables s ! t" by (simp add: new_object_def nth_append)
  ultimately show ?thesis using assms unfolding is_object_def
    by (simp add: nth_append) (simp add: new_object_def nth_append)
qed

lemma new_object_is_object:
  assumes "own_methods l"
  shows "is_object (new_object l m s) (l, Tbl (length (tables s)), length (objects s))"
proof -
  let ?tb = "empty_table\<lparr>slots := (slots empty_table)(Index 1 := Light (length (objects s))), meta := Some m\<rparr>"
  have "slots (put_all (library_methods l) ?tb) (Index 1) = Light (length (objects s))"
    by (subst put_all_other) auto
  moreover have "slots (put_all (library_methods l) ?tb) (Name f) = Cfun (Method (lib_name l) f)"
    if "(Some f, Method (lib_name l) f) \<in> set (library_methods l)" for f
  proof (rule put_all_same)
    show "\<forall>g. (Some f, g) \<in> set (library_methods l) \<longrightarrow> g = Method (lib_name l) f"
      using assms unfolding own_methods_def by blast
  qed (use that in blast)
  moreover have "tables (new_object l m s) ! length (tables s) = put_all (library_methods l) ?tb"
    "objects (new_object l m s) ! length (objects s) = Some (lib_name l)"
    "length (tables s) < length (tables (new_object l m s))"
    "length (objects s) < length (objects (new_object l m s))"
    "length (objects s) \<in> set (ctx_objects (new_object l m s))"
    by (simp_all add: new_object_def)
  ultimately show ?thesis unfolding is_object_def prod.case
    by (intro conjI exI [of _ "length (tables s)"] allI impI) (simp_all only:)
qed

lemma find_lib: "distinct (map lib_name libs) \<Longrightarrow> l \<in> set libs \<Longrightarrow>
  List.find (\<lambda>l'. lib_name l' = lib_name l) libs = Some l"
  by (induction libs) auto

lemma call_module_new:
  assumes "loaded l s" "distinct (map lib_name libs)" "l \<in> set libs" "globals s ''petrel_context'' = Userdata"
  shows "\<exists>m. call_module libs (lib_name l) [] s = Inr (Tbl (length (tables s)), new_object l m s)"
proof -
  from assms(1) obtain t where t: "reg s (lib_name l) = Tbl t" "globals s (lib_name l) = Tbl t"
    "tables s ! t = module_table l t" "tables s ! Suc t = call_table l" by (auto simp: loaded_def)
  then have "meta (tables s ! t) = Some (Suc t)" "slots (tables s ! Suc t) (Name ''__call'') = Cfun (New (lib_name l))"
    by (simp_all add: module_table_def call_table_def Let_def)
  with t(1,2) find_lib [OF assms(2,3)] lib_new_eq [of "s\<lparr>stack := [Tbl t]\<rparr>" l t] assms(4) show ?thesis
    by (intro exI [of _ t]) (simp add: call_module_def top_value_def value_at_def gettop_def new_object_def)
qed

text \<open>A sequence of constructor calls.\<close>

fun create_all :: "library list \<Rightarrow> string list \<Rightarrow> lua_api \<Rightarrow> (lua_value list \<times> lua_api) result" where
  "create_all libs [] s = Inr ([], s)"
| "create_all libs (n # ns) s =
     bind_result (call_module libs n [] s) (\<lambda>(v, s).
       bind_result (create_all libs ns s) (\<lambda>(vs, s). Inr (v # vs, s)))"

lemma create_all_objects:
  assumes "distinct (map lib_name libs)" "set ls \<subseteq> set libs" "globals s ''petrel_context'' = Userdata"
    "\<forall>l \<in> set libs. loaded l s \<and> own_methods l"
    "\<forall>x \<in> set xs. is_object s x" "distinct (map (\<lambda>x. snd (snd x)) xs)"
  shows "\<exists>vs s' os. create_all libs (map lib_name ls) s = Inr (vs, s') \<and> length vs = length ls \<and>
    length os = length ls \<and> (\<forall>x \<in> set (xs @ zip ls (zip vs os)). is_object s' x) \<and>
    distinct (map (\<lambda>x. snd (snd x)) xs @ os)"
  using assms
proof (induction ls arbitrary: s xs)
  case Nil
  then show ?case by simp
next
  case (Cons l ls)
  let ?v = "Tbl (length (tables s))" and ?obj = "length (objects s)"
  from call_module_new [of l s libs] Cons.prems obtain m where
    call: "call_module libs (lib_name l) [] s = Inr (?v, new_object l m s)" by auto
  let ?s1 = "new_object l m s" and ?xs = "xs @ [(l, ?v, ?obj)]"
  have old: "snd (snd x) < ?obj" if "x \<in> set xs" for x
    using Cons.prems(5) that by (cases x) (auto simp: is_object_def)
  have l: "l \<in> set libs" using Cons.prems(2) by simp
  have "is_object ?s1 x" if "x \<in> set xs" for x
    using Cons.prems(5) that is_object_new_object [of s "fst x" "fst (snd x)" "snd (snd x)" l m] by simp
  moreover have "is_object ?s1 (l, ?v, ?obj)" using Cons.prems(4) l new_object_is_object by blast
  ultimately have objs: "\<forall>x \<in> set ?xs. is_object ?s1 x" by simp
  have "?obj \<notin> (\<lambda>x. snd (snd x)) ` set xs"
  proof
    assume "?obj \<in> (\<lambda>x. snd (snd x)) ` set xs"
    then obtain x where "x \<in> set xs" "?obj = snd (snd x)" by (rule imageE)
    with old [of x] show False by simp
  qed
  then have dist: "distinct (map (\<lambda>x. snd (snd x)) ?xs)" using Cons.prems(6) by simp
  have ctx: "globals ?s1 ''petrel_context'' = Userdata" using Cons.prems(3) by (simp add: new_object_def)
  have libs: "\<forall>l \<in> set libs. loaded l ?s1 \<and> own_methods l" using Cons.prems(4) loaded_new_object by blast
  have "set ls \<subseteq> set libs" using Cons.prems(2) by simp
  from Cons.IH [OF Cons.prems(1) this ctx libs objs dist]
  obtain vs s' os where rest: "create_all libs (map lib_name ls) ?s1 = Inr (vs, s')"
    "length vs = length ls" "length os = length ls" "\<forall>x \<in> set (?xs @ zip ls (zip vs os)). is_object s' x"
    "distinct (map (\<lambda>x. snd (snd x)) ?xs @ os)" by (elim exE conjE)
  have "create_all libs (map lib_name (l # ls)) s = Inr (?v # vs, s')"
    using rest(1) call by simp
  moreover have "set (xs @ zip (l # ls) (zip (?v # vs) (?obj # os))) = set (?xs @ zip ls (zip vs os))" by simp
  moreover have "map (\<lambda>x. snd (snd x)) ?xs @ os = map (\<lambda>x. snd (snd x)) xs @ ?obj # os" by simp
  moreover have "length (?v # vs) = length (l # ls)" "length (?obj # os) = length (l # ls)"
    using rest(2,3) by simp_all
  ultimately show ?case using rest(4,5) by metis
qed

lemma object_dispatches:
  assumes "is_object s (l, v, obj)"
  shows "lib_method (lib_name l) f (s\<lparr>stack := v # args\<rparr>) = Inr (obj, s\<lparr>stack := args\<rparr>)"
  using assms by (auto simp: is_object_def lib_method_def value_at_def lua_remove_def)

lemma fold_deleted: "length (fold (\<lambda>a os. os[a := None]) as os) = length os"
  by (induction as arbitrary: os) simp_all

lemma fold_deleted_nth:
  "a < length os \<Longrightarrow> fold (\<lambda>a os. os[a := None]) as os ! a = (if a \<in> set as then None else os ! a)"
  by (induction as arbitrary: os) (simp_all add: nth_list_update)

lemma deleted_object_fails:
  assumes "is_object s (l, v, obj)"
  shows "lib_method (lib_name l) f ((delete_objects s)\<lparr>stack := v # args\<rparr>) = Inl Bad_access"
  using assms by (auto simp: is_object_def lib_method_def value_at_def delete_objects_def fold_deleted_nth)

text \<open>A builtin library as its source declares it: static functions, methods, and \<open>new\<close>.\<close>

definition builtin_lib :: "string \<Rightarrow> string list \<Rightarrow> string list \<Rightarrow> library" where
  "builtin_lib name fs ms = lib_register (fold add_lib_method ms (fold add_lib_function fs (declare_lib name)))"

lemma fold_add_function:
  "fold add_lib_function fs l =
     l\<lparr>library_functions := library_functions l @ map (\<lambda>f. (Some f, Function (lib_name l) f)) fs\<rparr>"
  by (induction fs arbitrary: l) (simp_all add: add_lib_function_def lib_add_function_def)

lemma fold_add_method:
  "fold add_lib_method ms l =
     l\<lparr>library_methods := library_methods l @ map (\<lambda>f. (Some f, Method (lib_name l) f)) ms\<rparr>"
  by (induction ms arbitrary: l) (simp_all add: add_lib_method_def lib_add_method_def)

lemma builtin_lib_facts:
  "lib_name (builtin_lib name fs ms) = name" "complete (builtin_lib name fs ms)"
  "own_methods (builtin_lib name fs ms)"
  "library_methods (builtin_lib name fs ms) = map (\<lambda>f. (Some f, Method name f)) ms"
  by (auto simp: builtin_lib_def fold_add_function fold_add_method lib_register_def lib_add_function_def
      declare_lib_def complete_def own_methods_def)

text \<open>\<open>obj:f(args)\<close>: the function under the name in the object's table.\<close>

definition member :: "lua_api \<Rightarrow> lua_value \<Rightarrow> string \<Rightarrow> lua_value" where
  "member s v f = (case v of Tbl t \<Rightarrow> slots (tables s ! t) (Name f) | _ \<Rightarrow> Nil_value)"

text \<open>
  C19. Library objects in a Lua state: whatever builtin libraries are loaded into a state that has
  none of their names, and in whatever order their constructors are then called, every call of
  \<open>lib()\<close> returns an object of its own, each method of its library is found in it, and calling
  it runs the class's method on this object with the arguments, until the state is freed: then
  the same call uses an object that has been deleted.
\<close>
theorem objects_dispatch:
  assumes "distinct (map lib_name libs)" "\<forall>l \<in> set libs. \<exists>name fs ms. l = builtin_lib name fs ms"
    and "\<forall>l \<in> set libs. reg s (lib_name l) = Nil_value" "set ls \<subseteq> set libs"
    and "''petrel_context'' \<notin> lib_name ` set libs"
  shows "\<exists>s1 vs s2 os. load_libs_into libs s = Inr s1 \<and>
    create_all libs (map lib_name ls) (s1\<lparr>globals := (globals s1)(''petrel_context'' := Userdata)\<rparr>) = Inr (vs, s2) \<and>
    length vs = length ls \<and> length os = length ls \<and> distinct os \<and>
    (\<forall>i < length ls. \<forall>f args. (Some f, Method (lib_name (ls ! i)) f) \<in> set (library_methods (ls ! i)) \<longrightarrow>
       member s2 (vs ! i) f = Cfun (Method (lib_name (ls ! i)) f) \<and>
       lib_method (lib_name (ls ! i)) f (s2\<lparr>stack := vs ! i # args\<rparr>) = Inr (os ! i, s2\<lparr>stack := args\<rparr>) \<and>
       lib_method (lib_name (ls ! i)) f ((delete_objects s2)\<lparr>stack := vs ! i # args\<rparr>) = Inl Bad_access)"
proof -
  have b: "complete l \<and> own_methods l" if "l \<in> set libs" for l
    using assms(2) that builtin_lib_facts(2,3) by metis
  then obtain s1 where s1: "load_libs_into libs s = Inr s1" "\<forall>l \<in> set libs. loaded l s1"
    using load_libs_loaded [OF assms(1), of s] assms(3) by blast
  let ?s1 = "s1\<lparr>globals := (globals s1)(''petrel_context'' := Userdata)\<rparr>"
  have "loaded l ?s1" if l: "l \<in> set libs" for l
  proof -
    have "lib_name l \<noteq> ''petrel_context''" using assms(5) l by (metis image_eqI)
    with s1(2) l show ?thesis by (simp add: loaded_def)
  qed
  with b have "\<forall>l \<in> set libs. loaded l ?s1 \<and> own_methods l" by blast
  from create_all_objects [OF assms(1,4) _ this, of "[]"] obtain vs s2 os where c:
    "create_all libs (map lib_name ls) ?s1 = Inr (vs, s2)" "length vs = length ls" "length os = length ls"
    "\<forall>x \<in> set (zip ls (zip vs os)). is_object s2 x" "distinct os" by auto
  have obj: "is_object s2 (ls ! i, vs ! i, os ! i)" if "i < length ls" for i
    using c(2-4) that by (metis length_zip min.idem nth_mem nth_zip)
  then have "member s2 (vs ! i) f = Cfun (Method (lib_name (ls ! i)) f)"
    if "i < length ls" "(Some f, Method (lib_name (ls ! i)) f) \<in> set (library_methods (ls ! i))" for i f
    using that by (fastforce simp: is_object_def member_def)
  with s1(1) c(1-3,5) object_dispatches [OF obj] deleted_object_fails [OF obj] show ?thesis by blast
qed

definition sample_api :: lua_api where
  "sample_api = \<lparr>stack = [], tables = [], reg = (\<lambda>n. Nil_value), globals = (\<lambda>n. Nil_value), light_meta = None,
     string_meta = None, ctx_objects = [], objects = []\<rparr>"

theorem objects_dispatch_witness:
  "\<exists>s1 v s2 obj. load_libs_into [builtin_lib ''hash'' [''md5''] [], builtin_lib ''metric'' [] [''total'']] sample_api = Inr s1 \<and>
    create_all [builtin_lib ''hash'' [''md5''] [], builtin_lib ''metric'' [] [''total'']] [''metric'']
      (s1\<lparr>globals := (globals s1)(''petrel_context'' := Userdata)\<rparr>) = Inr ([v], s2) \<and>
    lib_method ''metric'' ''total'' (s2\<lparr>stack := [v, Str ''x'']\<rparr>) = Inr (obj, s2\<lparr>stack := [Str ''x'']\<rparr>) \<and>
    lib_method ''metric'' ''total'' ((delete_objects s2)\<lparr>stack := [v]\<rparr>) = Inl Bad_access"
proof -
  let ?h = "builtin_lib ''hash'' [''md5''] []" and ?m = "builtin_lib ''metric'' [] [''total'']"
  have libs: "distinct (map lib_name [?h, ?m])" "\<forall>l \<in> set [?h, ?m]. \<exists>name fs ms. l = builtin_lib name fs ms"
    "\<forall>l \<in> set [?h, ?m]. reg sample_api (lib_name l) = Nil_value" "set [?m] \<subseteq> set [?h, ?m]"
    "''petrel_context'' \<notin> lib_name ` set [?h, ?m]"
    using builtin_lib_facts(1) by (auto simp: sample_api_def)
  obtain s1 vs s2 os where r: "load_libs_into [?h, ?m] sample_api = Inr s1"
    "create_all [?h, ?m] (map lib_name [?m]) (s1\<lparr>globals := (globals s1)(''petrel_context'' := Userdata)\<rparr>) = Inr (vs, s2)"
    "length vs = length [?m]"
    "\<forall>i < length [?m]. \<forall>f args. (Some f, Method (lib_name ([?m] ! i)) f) \<in> set (library_methods ([?m] ! i)) \<longrightarrow>
       member s2 (vs ! i) f = Cfun (Method (lib_name ([?m] ! i)) f) \<and>
       lib_method (lib_name ([?m] ! i)) f (s2\<lparr>stack := vs ! i # args\<rparr>) = Inr (os ! i, s2\<lparr>stack := args\<rparr>) \<and>
       lib_method (lib_name ([?m] ! i)) f ((delete_objects s2)\<lparr>stack := vs ! i # args\<rparr>) = Inl Bad_access"
    using objects_dispatch [OF libs] by (elim exE conjE)
  then obtain v where v: "vs = [v]" by (auto simp: length_Suc_conv)
  from r(4) [rule_format, of 0 "''total''"] have
    "lib_method ''metric'' ''total'' (s2\<lparr>stack := v # args\<rparr>) = Inr (os ! 0, s2\<lparr>stack := args\<rparr>) \<and>
     lib_method ''metric'' ''total'' ((delete_objects s2)\<lparr>stack := v # args\<rparr>) = Inl Bad_access" for args
    by (simp add: builtin_lib_facts v)
  with r(1,2) v builtin_lib_facts(1) [of "''metric''"] show ?thesis by auto
qed

text \<open>
  While the scripts of a state are loaded there is no context yet: a constructor called then
  follows a null pointer. A shared library that exports no function, and so no \<open>new\<close>, has no
  module: its initialisation raises an error outside of a protected call. And since light
  userdata share one metatable, the last constructor called decides what it is.
\<close>

lemma constructor_without_context:
  "globals s ''petrel_context'' = Nil_value \<Longrightarrow> lib_new l s = Inl Null_dereference"
  by (simp add: lib_new_def)

lemma library_without_functions_fails:
  assumes "library_functions l = []" "reg s (lib_name l) = Nil_value"
  shows "load_libs_into [l] s = Inl (Lua_error ''attempt to index a value'')"
proof -
  let ?v = "Str (lib_name l)"
  let ?s = "s\<lparr>reg := (reg s)(lib_name l := ?v), globals := (globals s)(lib_name l := ?v)\<rparr>"
  have "lua_requiref (lib_name l) (lib_open l) True s = Inr (push ?v ?s)"
    using assms by (simp add: lua_requiref_def lib_open_def) (simp add: stack_defs)
  moreover have "lib_init l (push ?v ?s) = Inl (Lua_error ''attempt to index a value'')"
    by (simp add: lib_init_def newmetatable_def Let_def set_slot_def del: One_nat_def)
  ultimately show ?thesis by (simp add: load_libs_into_def)
qed

lemma light_metatable_overwritten:
  assumes "globals s ''petrel_context'' = Userdata" "reg s (lib_name l) = Tbl m" "lib_new l s = Inr s'"
  shows "light_meta s' = Some m"
  using assms lib_new_eq [OF assms(1,2)] by (auto simp: new_object_def)

end
