(* ===== verification/Builtins.thy ===== *)
theory Builtins
  imports Library
begin

text \<open>
  The libraries of \<open>src/lib/builtin\<close> as they declare themselves, and that a Lua state offers all
  of them, in whatever order the static initialisers of their files have registered them.
\<close>

section \<open>The declarations\<close>

definition base64_lib :: library where
  "base64_lib = builtin_lib ''base64'' [''encode'', ''decode''] []"

definition hash_lib :: library where
  "hash_lib = builtin_lib ''hash'' [''md5'', ''sha1'', ''fnv''] []"

definition http_client_lib :: library where
  "http_client_lib = builtin_lib ''http_client'' []
     [''connect'', ''disconnect'', ''get'', ''post'', ''read_timeout'', ''connect_timeout'', ''disable_keepalive'']"

definition http2_client_lib :: library where
  "http2_client_lib = builtin_lib ''http2_client'' [] [''connect'', ''disconnect'', ''get'', ''read_timeout'']"

definition metric_lib :: library where
  "metric_lib = builtin_lib ''metric'' []
     [''register_counter'', ''register_meter'', ''register_timer'', ''get_counter'', ''get_meter'', ''get_timer'',
      ''update'', ''start_duration'', ''update_duration'', ''finish_duration'', ''increment'', ''decrement'',
      ''total'', ''reset'']"

definition petrel_lib :: library where
  "petrel_lib = builtin_lib ''petrel''
     [''add_route'', ''add_directory_route'', ''lib_search_path'', ''add_lib_search_path'', ''load_lib'',
      ''sleep_nanos'', ''sleep_micros'', ''sleep_millis''] []"

definition builtins :: "library list" where
  "builtins = [base64_lib, hash_lib, http_client_lib, http2_client_lib, metric_lib, petrel_lib]"

lemmas builtin_defs =
  base64_lib_def hash_lib_def http_client_lib_def http2_client_lib_def metric_lib_def petrel_lib_def

section \<open>A state offers them all\<close>

lemma builtins_builtin: "l \<in> set builtins \<Longrightarrow> \<exists>name fs ms. l = builtin_lib name fs ms"
  unfolding builtins_def builtin_defs by auto

lemma builtins_names:
  "map lib_name builtins = [''base64'', ''hash'', ''http_client'', ''http2_client'', ''metric'', ''petrel'']"
  by (simp add: builtins_def builtin_defs builtin_lib_facts(1))

lemma distinct_builtins: "distinct (map lib_name builtins)"
  by (simp add: builtins_names)

text \<open>The exported functions of a library are those of its declaration and \<open>new\<close>.\<close>

lemma builtin_functions:
  "library_functions (builtin_lib name fs ms) = map (\<lambda>f. (Some f, Function name f)) fs @ [(Some ''new'', New name)]"
  by (simp add: builtin_lib_def fold_add_function fold_add_method lib_register_def lib_add_function_def declare_lib_def)

lemma loaded_function:
  assumes "loaded l s" "(Some f, g) \<in> set (library_functions l)"
    "\<forall>h. (Some f, h) \<in> set (library_functions l) \<longrightarrow> h = g" "f \<notin> {''__index'', ''__metatable''}"
  shows "member s (globals s (lib_name l)) f = Cfun g"
proof -
  from assms(1) obtain t where t: "globals s (lib_name l) = Tbl t" "tables s ! t = module_table l t"
    by (auto simp: loaded_def)
  have "slots (put_all (library_functions l) empty_table) (Name f) = Cfun g"
    by (rule put_all_same) (use assms(2,3) in blast)+
  with t assms(4) show ?thesis by (simp add: member_def module_table_def Let_def)
qed

text \<open>
  In a state that has only Lua's own modules, loading the builtin libraries succeeds in any
  order; then every function a library declares is found under its name in the library's global,
  and every library is ready to create objects.
\<close>

lemma builtins_available:
  assumes "distinct libs" "set libs = set builtins"
    and "\<forall>n. reg s n \<noteq> Nil_value \<longrightarrow> n \<in> {''base'', ''debug'', ''math'', ''string'', ''table'', ''package''}"
  shows "\<exists>s'. load_libs_into libs s = Inr s' \<and> (\<forall>l \<in> set builtins. loaded l s' \<and>
    (\<forall>f. (Some f, Function (lib_name l) f) \<in> set (library_functions l) \<longrightarrow>
       member s' (globals s' (lib_name l)) f = Cfun (Function (lib_name l) f)))"
proof -
  have "inj_on lib_name (set builtins)" using distinct_builtins by (simp add: distinct_map)
  then have d: "distinct (map lib_name libs)" using assms(1,2) by (simp add: distinct_map)
  have free: "reg s (lib_name l) = Nil_value" if "l \<in> set builtins" for l
  proof -
    have "lib_name l \<in> set (map lib_name builtins)" using that by simp
    then have "lib_name l \<notin> {''base'', ''debug'', ''math'', ''string'', ''table'', ''package''}"
      unfolding builtins_names by auto
    with assms(3) show ?thesis by blast
  qed
  have "complete l" if "l \<in> set builtins" for l
    using builtins_builtin [OF that] builtin_lib_facts(2) by auto
  with free obtain s' where s': "load_libs_into libs s = Inr s'" "\<forall>l \<in> set builtins. loaded l s'"
    using load_libs_loaded [OF d, of s] assms(2) by auto
  have "member s' (globals s' (lib_name l)) f = Cfun (Function (lib_name l) f)"
    if l: "l \<in> set builtins" "(Some f, Function (lib_name l) f) \<in> set (library_functions l)" for l f
  proof (rule loaded_function)
    have decl: "(\<forall>h. (Some f, h) \<in> set (library_functions l) \<longrightarrow> h = Function (lib_name l) f) \<and>
        f \<notin> {''__index'', ''__metatable''}"
      using l unfolding builtins_def builtin_defs by (auto simp: builtin_functions builtin_lib_facts(1))
    then show "\<forall>h. (Some f, h) \<in> set (library_functions l) \<longrightarrow> h = Function (lib_name l) f"
      "f \<notin> {''__index'', ''__metatable''}" by blast+
  qed (use s'(2) l in blast)+
  with s' show ?thesis by blast
qed

end
