(* ===== verification/Pool.thy ===== *)
theory Pool
  imports Prelude "HOL-Library.Multiset"
begin

text \<open>
  The contract of a pool of reusable objects: what a holder relies on when it takes an object
  out and puts it back. The fiber cache and the Lua state caches are its providers.
\<close>

datatype 'a pool_use = Take | Put_back 'a

locale pool =
  fixes free :: "'s \<Rightarrow> 'a multiset"
    and take_one :: "'s \<Rightarrow> ('a \<times> 's) option"
    and put :: "'a \<Rightarrow> 's \<Rightarrow> 's"
  assumes take_free: "take_one s = Some (x, s') \<Longrightarrow> free s = add_mset x (free s')"
    and put_free: "free (put x s) = add_mset x (free s)"
begin

text \<open>A holder takes objects, and puts back only objects it has.\<close>

fun use :: "'s \<times> 'a multiset \<Rightarrow> 'a pool_use \<Rightarrow> 's \<times> 'a multiset" where
  "use (s, held) Take = (case take_one s of None \<Rightarrow> (s, held) | Some (x, s') \<Rightarrow> (s', add_mset x held))"
| "use (s, held) (Put_back x) = (if x \<in># held then (put x s, held - {#x#}) else (s, held))"

lemma use_conserves: "use (s, held) u = (s', held') \<Longrightarrow> free s' + held' = free s + held"
  by (cases u) (auto simp: put_free dest: take_free split: option.splits if_splits)

lemma uses_conserve: "foldl use (s, held) us = (s', held') \<Longrightarrow> free s' + held' = free s + held"
proof (induction us arbitrary: s held)
  case Nil
  then show ?case by simp
next
  case (Cons u us)
  obtain s1 held1 where u: "use (s, held) u = (s1, held1)" by force
  with Cons show ?case using use_conserves [OF u] by simp
qed

text \<open>No object is handed out while it is held.\<close>

lemma take_not_held:
  assumes "foldl use (s, {#}) us = (s', held)" "take_one s' = Some (x, s'')" "\<And>y. count (free s) y \<le> 1"
  shows "x \<notin># held"
proof
  assume "x \<in># held"
  moreover have "x \<in># free s'" using take_free [OF assms(2)] by simp
  moreover have "free s' + held = free s" using uses_conserve [OF assms(1)] by simp
  ultimately have "2 \<le> count (free s) x"
    by (metis add_mono_thms_linordered_semiring(1) count_union count_greater_eq_one_iff one_add_one)
  with assms(3) [of x] show False by simp
qed

end

text \<open>A vector used as a stack is a pool: \<open>back\<close> with \<open>pop_back\<close>, and \<open>push_back\<close>.\<close>

definition vector_take :: "'a list \<Rightarrow> ('a \<times> 'a list) option" where
  "vector_take xs = (if xs = [] then None else Some (last xs, butlast xs))"

definition vector_put :: "'a \<Rightarrow> 'a list \<Rightarrow> 'a list" where
  "vector_put x xs = xs @ [x]"

lemma mset_butlast_last: "xs \<noteq> [] \<Longrightarrow> add_mset (last xs) (mset (butlast xs)) = mset xs"
  by (metis append_butlast_last_id mset.simps(1) mset.simps(2) mset_append union_mset_add_mset_right
      add.right_neutral)

interpretation vector_pool: pool mset vector_take vector_put
  by unfold_locales (auto simp: vector_take_def vector_put_def mset_butlast_last split: if_splits)

end
