(* ===== verification/Fibers.thy ===== *)
theory Fibers
  imports Pool Complex_Main
begin

text \<open>
  Fibers (\<open>src/core/fiber_sched_algorithm.h\<close>, \<open>.cpp\<close>, \<open>fiber_cache.h\<close>, \<open>.cpp\<close>): the scheduler of
  a worker's thread with its adaptive waiting, and the cache of fibers that run the requests.
  Everything happens on one thread, where fibers switch only when they wait.
\<close>

section \<open>The scheduler\<close>

definition WAIT_INTERVAL_SHORT :: int where "WAIT_INTERVAL_SHORT = 100"
definition WAIT_INTERVAL_LONG :: int where "WAIT_INTERVAL_LONG = 1000000"
definition WAIT_INTERVAL_EXTRALONG :: int where "WAIT_INTERVAL_EXTRALONG = 30000000"

text \<open>Times are nanoseconds; rates are exact reals; \<open>posted_yields\<close> counts the posted handlers.\<close>

record 'c sched =
  m_ready_queue :: "'c list"
  m_counter :: uint64
  m_rate_l :: real
  m_rate_xl :: real
  m_expires :: int
  suspend_at :: int
  keepalive_at :: int
  posted_yields :: nat

definition awakened :: "'c \<Rightarrow> 'c sched \<Rightarrow> 'c sched" where
  "awakened ctx s = s\<lparr>m_ready_queue := m_ready_queue s @ [ctx]\<rparr>"

definition pick_next :: "'c sched \<Rightarrow> 'c option \<times> 'c sched" where
  "pick_next s =
     (case m_ready_queue s of
        [] \<Rightarrow> (None, s)
      | ctx # q \<Rightarrow> (Some ctx, s\<lparr>m_ready_queue := q\<rparr>))"

definition has_ready_fibers :: "'c sched \<Rightarrow> bool" where
  "has_ready_fibers s \<longleftrightarrow> m_ready_queue s \<noteq> []"

definition suspend_until :: "int \<Rightarrow> 'c sched \<Rightarrow> 'c sched" where
  "suspend_until t s = (if suspend_at s \<noteq> t then s\<lparr>suspend_at := t\<rparr> else s)"

definition sched_notify :: "int \<Rightarrow> 'c sched \<Rightarrow> 'c sched" where
  "sched_notify now s = s\<lparr>suspend_at := now\<rparr>"

text \<open>The stages of a pass of the keepalive timer: the rates, then the interval.\<close>

definition update_rates :: "'c sched \<Rightarrow> 'c sched" where
  "update_rates s =
     (let s = s\<lparr>m_rate_l := m_rate_l s * 0.99999 - 0.0001 + real (unat (m_counter s))\<rparr>;
          s = s\<lparr>m_rate_xl := m_rate_xl s * 0.99999 - 0.00009 + real (unat (m_counter s))\<rparr>;
          s = s\<lparr>m_counter := 0\<rparr>;
          s = (if m_rate_l s < 0 then s\<lparr>m_rate_l := 0\<rparr> else s) in
      if m_rate_xl s < 0 then s\<lparr>m_rate_xl := 0\<rparr> else s)"

definition update_expires :: "'c sched \<Rightarrow> 'c sched" where
  "update_expires s =
     (if m_rate_xl s = 0 then
        (if m_expires s \<noteq> WAIT_INTERVAL_EXTRALONG then s\<lparr>m_expires := WAIT_INTERVAL_EXTRALONG\<rparr> else s)
      else if m_rate_l s = 0 then
        (if m_expires s \<noteq> WAIT_INTERVAL_LONG then s\<lparr>m_expires := WAIT_INTERVAL_LONG\<rparr> else s)
      else
        (if m_expires s \<noteq> WAIT_INTERVAL_SHORT then s\<lparr>m_expires := WAIT_INTERVAL_SHORT\<rparr> else s))"

definition on_empty_io_service :: "int \<Rightarrow> 'c sched \<Rightarrow> 'c sched" where
  "on_empty_io_service now s =
     (let s = update_expires (update_rates (s\<lparr>posted_yields := posted_yields s + 1\<rparr>)) in
      s\<lparr>keepalive_at := now + m_expires s\<rparr>)"

definition sched_update :: "'c sched \<Rightarrow> 'c sched" where
  "sched_update s =
     (let s = s\<lparr>m_counter := m_counter s + 1\<rparr> in
      if m_expires s \<noteq> WAIT_INTERVAL_SHORT then s\<lparr>m_expires := WAIT_INTERVAL_SHORT\<rparr> else s)"

lemma sched_update_fields:
  "m_rate_l (sched_update s) = m_rate_l s" "m_rate_xl (sched_update s) = m_rate_xl s"
  "m_counter (sched_update s) = m_counter s + 1" "m_expires (sched_update s) = WAIT_INTERVAL_SHORT"
  by (simp_all add: sched_update_def Let_def)

definition new_sched :: "int \<Rightarrow> 'c sched" where
  "new_sched now = on_empty_io_service now
     \<lparr>m_ready_queue = [], m_counter = 0, m_rate_l = 1, m_rate_xl = 1, m_expires = WAIT_INTERVAL_SHORT,
      suspend_at = 0, keepalive_at = 0, posted_yields = 0\<rparr>"

section \<open>How long the scheduler waits\<close>

text \<open>One pass, summed up.\<close>

definition decayed :: "real \<Rightarrow> real \<Rightarrow> nat \<Rightarrow> real" where
  "decayed cost r n = max 0 (r * 0.99999 - cost + real n)"

lemma update_rates_fields:
  "m_rate_l (update_rates s) = decayed (1 / 10000) (m_rate_l s) (unat (m_counter s))"
  "m_rate_xl (update_rates s) = decayed (9 / 100000) (m_rate_xl s) (unat (m_counter s))"
  "m_counter (update_rates s) = 0"
  by (simp_all add: update_rates_def Let_def decayed_def max_def not_less)

lemma update_expires_fields:
  "m_rate_l (update_expires s) = m_rate_l s" "m_rate_xl (update_expires s) = m_rate_xl s"
  "m_counter (update_expires s) = m_counter s"
  "m_expires (update_expires s) = (if m_rate_xl s = 0 then WAIT_INTERVAL_EXTRALONG
     else if m_rate_l s = 0 then WAIT_INTERVAL_LONG else WAIT_INTERVAL_SHORT)"
  by (simp_all add: update_expires_def)

lemma on_empty_rates:
  "m_rate_l (on_empty_io_service now s) = decayed (1 / 10000) (m_rate_l s) (unat (m_counter s))"
  "m_rate_xl (on_empty_io_service now s) = decayed (9 / 100000) (m_rate_xl s) (unat (m_counter s))"
  "m_counter (on_empty_io_service now s) = 0"
  by (simp_all add: on_empty_io_service_def Let_def update_expires_fields update_rates_fields)

lemma on_empty_expires:
  "m_expires (on_empty_io_service now s) =
     (if m_rate_xl (on_empty_io_service now s) = 0 then WAIT_INTERVAL_EXTRALONG
      else if m_rate_l (on_empty_io_service now s) = 0 then WAIT_INTERVAL_LONG else WAIT_INTERVAL_SHORT)"
  by (simp add: on_empty_io_service_def Let_def update_expires_fields update_rates_fields)

text \<open>Passes of an idle thread, at any times.\<close>

definition idle_passes :: "int list \<Rightarrow> 'c sched \<Rightarrow> 'c sched" where
  "idle_passes nows s = fold on_empty_io_service nows s"

text \<open>The rate after \<open>n\<close> idle passes, and that it reaches zero.\<close>

lemma decay_iterated:
  assumes "0 < cost" "0 \<le> r"
  shows "((\<lambda>r. decayed cost r 0) ^^ n) r = max 0 ((r + cost * 100000) * 0.99999 ^ n - cost * 100000)"
proof (induction n)
  case 0
  then show ?case using assms by simp
next
  case (Suc n)
  let ?x = "(r + cost * 100000) * 0.99999 ^ n - cost * 100000"
  have "decayed cost (max 0 ?x) 0 = max 0 (?x * 0.99999 - cost)"
    using assms by (auto simp: decayed_def max_def)
  also have "?x * 0.99999 - cost = (r + cost * 100000) * 0.99999 ^ Suc n - cost * 100000"
    by (simp add: algebra_simps)
  finally show ?case using Suc.IH by simp
qed

lemma decay_reaches_zero:
  assumes "0 < cost" "0 \<le> r"
  shows "\<exists>N. \<forall>n \<ge> N. ((\<lambda>r. decayed cost r 0) ^^ n) r = 0"
proof -
  let ?c = "cost * 100000"
  have "0 < ?c / (r + ?c)" using assms by simp
  then obtain N where N: "(0.99999 :: real) ^ N < ?c / (r + ?c)"
    using real_arch_pow_inv [of "?c / (r + ?c)" "0.99999"] by auto
  have "((\<lambda>r. decayed cost r 0) ^^ n) r = 0" if "N \<le> n" for n
  proof -
    have "(0.99999 :: real) ^ n \<le> 0.99999 ^ N" using that by (intro power_decreasing) auto
    from this N have "(0.99999 :: real) ^ n < ?c / (r + ?c)" by (rule le_less_trans)
    moreover have "0 < r + ?c" using assms by simp
    ultimately have "(r + ?c) * 0.99999 ^ n < ?c" by (simp only: mult.commute pos_less_divide_eq)
    then show ?thesis by (simp add: decay_iterated [OF assms])
  qed
  then show ?thesis by blast
qed

lemma idle_passes_rates:
  "m_counter s = 0 \<Longrightarrow> m_rate_l (idle_passes nows s) = ((\<lambda>r. decayed (1 / 10000) r 0) ^^ length nows) (m_rate_l s)
     \<and> m_rate_xl (idle_passes nows s) = ((\<lambda>r. decayed (9 / 100000) r 0) ^^ length nows) (m_rate_xl s)"
proof (induction nows arbitrary: s)
  case Nil
  then show ?case by (simp add: idle_passes_def)
next
  case (Cons now nows)
  have "m_counter (on_empty_io_service now s) = 0" by (rule on_empty_rates)
  from Cons.IH [OF this] Cons.prems show ?case
    by (simp add: idle_passes_def on_empty_rates funpow_Suc_right del: funpow.simps)
qed

datatype sched_event = Pass int | Request

fun sched_step :: "sched_event \<Rightarrow> 'c sched \<Rightarrow> 'c sched" where
  "sched_step (Pass now) s = on_empty_io_service now s"
| "sched_step Request s = sched_update s"

definition sched_run :: "sched_event list \<Rightarrow> 'c sched" where
  "sched_run evs = fold sched_step evs (new_sched 0)"

lemma decayed_nonneg: "0 \<le> decayed cost r n"
  by (simp add: decayed_def)

lemma rates_nonneg:
  "0 \<le> m_rate_l (sched_run evs :: 'c sched) \<and> 0 \<le> m_rate_xl (sched_run evs :: 'c sched)"
proof -
  have "0 \<le> m_rate_l (fold sched_step evs s) \<and> 0 \<le> m_rate_xl (fold sched_step evs s)"
    if "0 \<le> m_rate_l s" "0 \<le> m_rate_xl s" for s :: "'c sched"
    using that
  proof (induction evs arbitrary: s)
    case (Cons e evs)
    have "0 \<le> m_rate_l (sched_step e s) \<and> 0 \<le> m_rate_xl (sched_step e s)"
      using Cons.prems by (cases e) (simp_all add: on_empty_rates decayed_nonneg sched_update_def Let_def)
    with Cons.IH show ?case by simp
  qed simp
  then show ?thesis
    unfolding sched_run_def new_sched_def by (simp add: on_empty_rates decayed_nonneg)
qed

lemma idle_passes_long:
  assumes "0 \<le> r"
  shows "\<exists>N. \<forall>nows s. m_counter s = 0 \<longrightarrow> m_rate_xl s = r \<longrightarrow> N \<le> length nows \<longrightarrow>
           m_expires (idle_passes nows s) = WAIT_INTERVAL_EXTRALONG"
proof -
  obtain N where N: "\<forall>n \<ge> N. ((\<lambda>r. decayed (9 / 100000) r 0) ^^ n) r = 0"
    using decay_reaches_zero [of "9 / 100000" r] assms by auto
  have "m_expires (idle_passes nows s) = WAIT_INTERVAL_EXTRALONG"
    if "m_counter s = 0" "m_rate_xl s = r" "Suc N \<le> length nows" for nows and s :: "'c sched"
  proof -
    from that(3) have "nows \<noteq> []" by auto
    then obtain ms now where nows: "nows = ms @ [now]" by (metis rev_exhaust)
    have "m_rate_xl (idle_passes nows s) = 0"
      using idle_passes_rates [OF that(1), of nows] N that(2,3) by simp
    then show ?thesis by (simp add: nows idle_passes_def on_empty_expires)
  qed
  then show ?thesis by blast
qed

text \<open>
  The scheduler adapts its waiting to the load: whatever happened before, a request makes it
  wait only 100 nanoseconds at once and after the next pass, unless the counter of requests wraps, and a
  thread that stays idle ends up waiting 30 milliseconds.
\<close>
theorem scheduler_adapts:
  "m_expires (sched_update (sched_run evs :: 'c sched)) = WAIT_INTERVAL_SHORT \<and>
   (m_counter (sched_run evs :: 'c sched) = - 1 \<or>
    m_expires (on_empty_io_service now (sched_update (sched_run evs :: 'c sched))) = WAIT_INTERVAL_SHORT) \<and>
   (\<exists>N. \<forall>nows. length nows < N \<or>
      m_expires (idle_passes nows (sched_run evs :: 'c sched)) = WAIT_INTERVAL_EXTRALONG)"
proof (intro conjI)
  let ?s = "sched_run evs :: 'c sched"
  show "m_expires (sched_update ?s) = WAIT_INTERVAL_SHORT"
    by (simp add: sched_update_def Let_def)
  show "m_counter ?s = - 1 \<or> m_expires (on_empty_io_service now (sched_update ?s)) = WAIT_INTERVAL_SHORT"
  proof (rule disjCI)
    assume "m_expires (on_empty_io_service now (sched_update ?s)) \<noteq> WAIT_INTERVAL_SHORT"
    then have zero: "m_rate_l (on_empty_io_service now (sched_update ?s)) = 0 \<or>
        m_rate_xl (on_empty_io_service now (sched_update ?s)) = 0"
      by (auto simp: on_empty_expires split: if_splits)
    have "0 < decayed (1 / 10000) r n" "0 < decayed (9 / 100000) r n"
      if "0 < n" "0 \<le> r" for r n
      using that by (auto simp: decayed_def less_max_iff_disj)
    note pos = this
    have "\<not> 0 < unat (m_counter (sched_update ?s))"
    proof
      assume "0 < unat (m_counter (sched_update ?s))"
      from pos(1) [OF this] pos(2) [OF this] rates_nonneg [where evs = evs and 'c = 'c] zero show False
        unfolding on_empty_rates sched_update_fields(1,2) by (metis order_less_irrefl)
    qed
    then have "m_counter ?s + 1 = 0" by (simp add: sched_update_fields unat_eq_zero)
    then show "m_counter ?s = - 1" by (simp add: eq_neg_iff_add_eq_0)
  qed
  obtain N where N: "\<forall>nows s. m_counter s = 0 \<longrightarrow> m_rate_xl s = m_rate_xl (on_empty_io_service 0 ?s) \<longrightarrow>
      N \<le> length nows \<longrightarrow> m_expires (idle_passes nows (s :: 'c sched)) = WAIT_INTERVAL_EXTRALONG"
    using idle_passes_long [of "m_rate_xl (on_empty_io_service 0 ?s)"]
    by (auto simp: on_empty_rates decayed_nonneg)
  have "m_expires (idle_passes nows ?s) = WAIT_INTERVAL_EXTRALONG" if len: "\<not> length nows < Suc N" for nows
  proof -
    obtain now ms where nows: "nows = now # ms" using len by (cases nows) auto
    have "m_expires (idle_passes ms (on_empty_io_service now ?s)) = WAIT_INTERVAL_EXTRALONG"
      using N len nows by (simp add: on_empty_rates)
    then show ?thesis by (simp add: nows idle_passes_def)
  qed
  then show "\<exists>N. \<forall>nows. length nows < N \<or> m_expires (idle_passes nows ?s) = WAIT_INTERVAL_EXTRALONG"
    by blast
qed

section \<open>The fiber cache\<close>

text \<open>
  A \<open>fiber_context\<close>: the function it has to run (\<open>None\<close> is the null function), and where its
  fiber is: not started yet or notified (\<open>Runnable\<close>), waiting on its condition variable, inside the
  function, or returned.
\<close>

datatype fiber_at = Runnable | Waiting | Inside | Returned

record 'f fiber_context =
  func :: "'f option"
  fib :: fiber_at

text \<open>
  The thread-local cache, with the contexts created so far (a pointer is an index), the functions
  running in detached fibers and, as a ghost, the functions that have completed.
\<close>

record 'f fiber_cache =
  m_cache :: "nat list option"
  m_fib_cnt :: nat
  m_stop :: bool
  contexts :: "'f fiber_context list"
  detached :: "'f list"
  completed :: "'f list"

definition new_fiber_cache :: "'f fiber_cache" where
  "new_fiber_cache = \<lparr>m_cache = None, m_fib_cnt = 0, m_stop = False, contexts = [], detached = [],
     completed = []\<rparr>"

definition register_cache :: "'f fiber_cache \<Rightarrow> 'f fiber_cache" where
  "register_cache c = c\<lparr>m_cache := Some []\<rparr>"

definition get_fiber :: "'f fiber_cache \<Rightarrow> nat option \<times> 'f fiber_cache" where
  "get_fiber c =
     (if m_stop c then (None, c)
      else (case m_cache c of
        None \<Rightarrow> (None, c)
      | Some fs \<Rightarrow>
          (case vector_take fs of
             Some (i, fs') \<Rightarrow> (Some i, c\<lparr>m_cache := Some fs'\<rparr>)
           | None \<Rightarrow>
               (Some (length (contexts c)),
                c\<lparr>contexts := contexts c @ [\<lparr>func = None, fib = Runnable\<rparr>],
                  m_fib_cnt := m_fib_cnt c + 1\<rparr>))))"

text \<open>\<open>fctx->func = f; fctx->notify()\<close>: a waiting fiber becomes runnable.\<close>

definition run :: "'f \<Rightarrow> 'f fiber_cache \<Rightarrow> 'f fiber_cache" where
  "run f c =
     (case get_fiber c of
        (Some i, c) \<Rightarrow> c\<lparr>contexts := (contexts c)[i := \<lparr>func = Some f, fib = Runnable\<rparr>]\<rparr>
      | (None, c) \<Rightarrow> c\<lparr>detached := detached c @ [f]\<rparr>)"

text \<open>
  What the fiber's loop does when the scheduler resumes it: \<open>fiber_resume\<close> from the top of the loop or
  from \<open>cv.wait\<close>, \<open>fiber_finish\<close> when the function returns, back to the top of the loop and into the
  wait. Between these points the thread does not switch fibers.
\<close>

definition fiber_resume :: "nat \<Rightarrow> 'f fiber_cache \<Rightarrow> 'f fiber_cache" where
  "fiber_resume i c =
     (case func (contexts c ! i) of
        Some f \<Rightarrow> c\<lparr>contexts := (contexts c)[i := (contexts c ! i)\<lparr>fib := Inside\<rparr>]\<rparr>
      | None \<Rightarrow> c\<lparr>contexts := (contexts c)[i := (contexts c ! i)\<lparr>fib := Returned\<rparr>]\<rparr>)"

definition fiber_finish :: "nat \<Rightarrow> 'f fiber_cache \<Rightarrow> 'f fiber_cache" where
  "fiber_finish i c =
     (let f = the (func (contexts c ! i));
          c = c\<lparr>contexts := (contexts c)[i := \<lparr>func = None, fib = Waiting\<rparr>], completed := completed c @ [f]\<rparr> in
      case m_cache c of
        Some fs \<Rightarrow> c\<lparr>m_cache := Some (vector_put i fs)\<rparr>
      | None \<Rightarrow> c)"

definition detached_finish :: "nat \<Rightarrow> 'f fiber_cache \<Rightarrow> 'f fiber_cache" where
  "detached_finish k c =
     c\<lparr>detached := take k (detached c) @ drop (Suc k) (detached c),
       completed := completed c @ [detached c ! k]\<rparr>"

text \<open>
  The stages of \<open>unregister_io_service\<close>: stopping; the test of its loop, whether no context is
  active; and the clean-up, which notifies and joins the cached fibers.
\<close>

definition cache_stop :: "'f fiber_cache \<Rightarrow> 'f fiber_cache" where
  "cache_stop c = c\<lparr>m_stop := True\<rparr>"

definition no_active_fctx :: "'f fiber_cache \<Rightarrow> bool result" where
  "no_active_fctx c = (case m_cache c of None \<Rightarrow> Inl Null_dereference | Some fs \<Rightarrow> Inr (m_fib_cnt c = length fs))"

definition cache_cleanup :: "'f fiber_cache \<Rightarrow> 'f fiber_cache result" where
  "cache_cleanup c =
     (case m_cache c of
        None \<Rightarrow> Inl Null_dereference
      | Some fs \<Rightarrow> Inr ((fold fiber_resume fs c)\<lparr>m_cache := None\<rparr>))"

section \<open>Fibers and functions\<close>

text \<open>The functions handed to the cache that have not completed.\<close>

definition pending :: "'f fiber_cache \<Rightarrow> 'f multiset" where
  "pending c = mset (List.map_filter func (contexts c)) + mset (detached c)"

text \<open>
  The invariant while the cache is registered: the cached contexts are distinct and wait with no
  function, every other context has a function, and all are counted.
\<close>

definition fiber_inv :: "'f fiber_cache \<Rightarrow> bool" where
  "fiber_inv c \<longleftrightarrow>
     (\<exists>fs. m_cache c = Some fs \<and> distinct fs \<and> set fs \<subseteq> {..<length (contexts c)} \<and>
        m_fib_cnt c = length (contexts c) \<and>
        (\<forall>i < length (contexts c).
           (i \<in> set fs \<longrightarrow> contexts c ! i = \<lparr>func = None, fib = Waiting\<rparr>) \<and>
           (i \<notin> set fs \<longrightarrow> func (contexts c ! i) \<noteq> None \<and> fib (contexts c ! i) \<in> {Runnable, Inside})))"

inductive fiber_step :: "'f fiber_cache \<Rightarrow> 'f list \<Rightarrow> 'f fiber_cache \<Rightarrow> bool" where
  run: "fiber_step c [f] (run f c)"
| resume: "i < length (contexts c) \<Longrightarrow> fib (contexts c ! i) = Runnable \<Longrightarrow> fiber_step c [] (fiber_resume i c)"
| finish: "i < length (contexts c) \<Longrightarrow> fib (contexts c ! i) = Inside \<Longrightarrow> fiber_step c [] (fiber_finish i c)"
| detached: "k < length (detached c) \<Longrightarrow> fiber_step c [] (detached_finish k c)"
| stop: "fiber_step c [] (cache_stop c)"

inductive_cases fiber_stepE: "fiber_step c fs c'"

text \<open>States reached from a registered cache, with all functions run so far.\<close>

inductive fiber_reachable :: "'f list \<Rightarrow> 'f fiber_cache \<Rightarrow> bool" where
  init: "fiber_reachable [] (register_cache new_fiber_cache)"
| step: "fiber_reachable fs c \<Longrightarrow> fiber_step c gs c' \<Longrightarrow> fiber_reachable (fs @ gs) c'"

lemma fiber_inv_init: "fiber_inv (register_cache new_fiber_cache)"
  by (simp add: fiber_inv_def register_cache_def new_fiber_cache_def)

lemma fiber_inv_run [inv_intros]:
  assumes "fiber_inv c"
  shows "fiber_inv (run f c)"
proof -
  from assms obtain fs where fs: "m_cache c = Some fs" "distinct fs" "set fs \<subseteq> {..<length (contexts c)}"
    by (auto simp: fiber_inv_def)
  consider "m_stop c" | "\<not> m_stop c" "fs = []" | "\<not> m_stop c" "fs \<noteq> []" by blast
  then show ?thesis
  proof cases
    case 1
    with assms show ?thesis by (simp add: run_def get_fiber_def fiber_inv_def)
  next
    case 2
    with assms fs show ?thesis
      by (auto simp: run_def get_fiber_def vector_take_def fiber_inv_def nth_list_update nth_append)
  next
    case 3
    let ?i = "last fs"
    have "?i < length (contexts c)" using 3(2) fs(3) last_in_set by blast
    moreover have "?i \<in> set fs" "?i \<notin> set (butlast fs)" "set (butlast fs) = set fs - {?i}"
      using 3 fs(2) distinct_butlast_last [of fs] set_butlast_last [of fs] by auto
    moreover have "distinct (butlast fs)" using fs(2) by (simp add: distinct_butlast)
    ultimately show ?thesis
      using assms 3 fs
      by (auto simp: run_def get_fiber_def vector_take_def fiber_inv_def nth_list_update)
  qed
qed

lemma fiber_inv_active:
  "fiber_inv c \<Longrightarrow> i < length (contexts c) \<Longrightarrow> fib (contexts c ! i) \<noteq> Waiting \<Longrightarrow>
   \<exists>fs f. m_cache c = Some fs \<and> i \<notin> set fs \<and> func (contexts c ! i) = Some f"
  by (force simp: fiber_inv_def)

lemma fiber_inv_resume [inv_intros]:
  assumes "fiber_inv c" "i < length (contexts c)" "fib (contexts c ! i) = Runnable"
  shows "fiber_inv (fiber_resume i c)"
proof -
  from fiber_inv_active [OF assms(1,2)] assms(3) obtain fs f where
    "m_cache c = Some fs" "i \<notin> set fs" "func (contexts c ! i) = Some f" by auto
  with assms show ?thesis by (auto simp: fiber_inv_def fiber_resume_def nth_list_update)
qed

lemma fiber_inv_finish [inv_intros]:
  assumes "fiber_inv c" "i < length (contexts c)" "fib (contexts c ! i) = Inside"
  shows "fiber_inv (fiber_finish i c)"
proof -
  from fiber_inv_active [OF assms(1,2)] assms(3) obtain fs f where
    "m_cache c = Some fs" "i \<notin> set fs" "func (contexts c ! i) = Some f" by auto
  with assms show ?thesis
    by (auto simp: fiber_inv_def fiber_finish_def vector_put_def Let_def nth_list_update)
qed

lemma fiber_inv_step: "fiber_step c fs c' \<Longrightarrow> fiber_inv c \<Longrightarrow> fiber_inv c'"
proof (induction rule: fiber_step.induct)
  case (detached k c)
  then show ?case by (simp add: fiber_inv_def detached_finish_def)
next
  case (stop c)
  then show ?case by (simp add: fiber_inv_def cache_stop_def)
qed (auto intro: inv_intros)

lemma fiber_inv_reachable: "fiber_reachable fs c \<Longrightarrow> fiber_inv c"
  by (induction rule: fiber_reachable.induct) (auto intro: fiber_inv_init fiber_inv_step)

section \<open>No function is lost\<close>

definition opt_mset :: "'f option \<Rightarrow> 'f multiset" where
  "opt_mset x = (case x of None \<Rightarrow> {#} | Some f \<Rightarrow> {#f#})"

lemma opt_mset_simps [simp]: "opt_mset None = {#}" "opt_mset (Some f) = {#f#}"
  by (simp_all add: opt_mset_def)

lemma map_filter_update:
  assumes "i < length xs"
  shows "mset (List.map_filter g (xs[i := y])) + opt_mset (g (xs ! i)) =
         mset (List.map_filter g xs) + opt_mset (g y)"
proof -
  have "mset (List.map_filter g (us @ z # vs)) =
      mset (List.map_filter g us) + opt_mset (g z) + mset (List.map_filter g vs)" for us z vs
    by (cases "g z") (simp_all add: List.map_filter_def)
  from this [of "take i xs" y "drop (Suc i) xs"] this [of "take i xs" "xs ! i" "drop (Suc i) xs"]
  show ?thesis
    using assms by (simp add: upd_conv_take_nth_drop id_take_nth_drop [OF assms, symmetric] ac_simps)
qed

lemma pending_run:
  assumes "fiber_inv c"
  shows "pending (run f c) = add_mset f (pending c)"
proof -
  from assms obtain fs where fs: "m_cache c = Some fs" "set fs \<subseteq> {..<length (contexts c)}"
    by (auto simp: fiber_inv_def)
  consider "m_stop c" | "\<not> m_stop c" "fs = []" | "\<not> m_stop c" "fs \<noteq> []" by blast
  then show ?thesis
  proof cases
    case 1
    then show ?thesis by (simp add: run_def get_fiber_def pending_def)
  next
    case 2
    with fs show ?thesis
      by (simp add: run_def get_fiber_def vector_take_def pending_def List.map_filter_def)
  next
    case 3
    then have i: "last fs \<in> set fs" "last fs < length (contexts c)" using fs(2) last_in_set by blast+
    then have "func (contexts c ! last fs) = None" using assms fs(1) by (auto simp: fiber_inv_def)
    with map_filter_update [OF i(2), of func "\<lparr>func = Some f, fib = Runnable\<rparr>"] 3 fs(1)
    show ?thesis by (simp add: run_def get_fiber_def vector_take_def pending_def)
  qed
qed

lemma pending_resume:
  assumes "i < length (contexts c)"
  shows "pending (fiber_resume i c) = pending c"
  using map_filter_update [OF assms, of func "(contexts c ! i)\<lparr>fib := Inside\<rparr>"]
    map_filter_update [OF assms, of func "(contexts c ! i)\<lparr>fib := Returned\<rparr>"]
  by (simp add: fiber_resume_def pending_def split: option.split)

lemma pending_finish:
  assumes "i < length (contexts c)" "func (contexts c ! i) = Some f"
  shows "pending c = add_mset f (pending (fiber_finish i c))" "completed (fiber_finish i c) = completed c @ [f]"
  using map_filter_update [OF assms(1), of func "\<lparr>func = None, fib = Waiting\<rparr>"] assms(2)
  by (simp_all add: fiber_finish_def pending_def Let_def split: option.split)

lemma pending_detached:
  assumes "k < length (detached c)"
  shows "pending c = add_mset (detached c ! k) (pending (detached_finish k c))"
  using assms id_take_nth_drop [OF assms]
  by (simp add: pending_def detached_finish_def) (metis mset.simps(2) mset_append union_mset_add_mset_right)

lemma fiber_step_conserves:
  "fiber_step c fs c' \<Longrightarrow> fiber_inv c \<Longrightarrow>
   mset (completed c') + pending c' = mset (completed c) + pending c + mset fs"
proof (induction rule: fiber_step.induct)
  case (run c f)
  have "completed (run f c) = completed c"
    by (simp add: run_def get_fiber_def split: option.splits if_splits)
  then show ?case by (simp add: pending_run [OF run.prems])
next
  case (resume i c)
  have "completed (fiber_resume i c) = completed c" by (simp add: fiber_resume_def split: option.split)
  with resume show ?case by (simp add: pending_resume)
next
  case (finish i c)
  from fiber_inv_active [OF finish.prems finish.hyps(1)] finish.hyps(2) obtain f where
    "func (contexts c ! i) = Some f" by auto
  from pending_finish [OF finish.hyps(1) this] show ?case by simp
next
  case (detached k c)
  from pending_detached [OF this(1)] show ?case by (simp add: detached_finish_def)
next
  case (stop c)
  then show ?case by (simp add: cache_stop_def pending_def)
qed



text \<open>Resuming waiting fibers without a function ends them.\<close>

lemma fold_resume_waiting:
  assumes "distinct fs" "\<forall>i \<in> set fs. i < length (contexts c) \<and> func (contexts c ! i) = None"
  shows "length (contexts (fold fiber_resume fs c)) = length (contexts c) \<and>
     m_cache (fold fiber_resume fs c) = m_cache c \<and> detached (fold fiber_resume fs c) = detached c \<and>
     (\<forall>i < length (contexts c). contexts (fold fiber_resume fs c) ! i =
        (if i \<in> set fs then (contexts c ! i)\<lparr>fib := Returned\<rparr> else contexts c ! i))"
  using assms
proof (induction fs arbitrary: c)
  case Nil
  then show ?case by simp
next
  case (Cons k fs)
  let ?c = "fiber_resume k c"
  have c: "?c = c\<lparr>contexts := (contexts c)[k := (contexts c ! k)\<lparr>fib := Returned\<rparr>]\<rparr>"
    using Cons.prems(2) by (simp add: fiber_resume_def)
  have "\<forall>i \<in> set fs. i < length (contexts ?c) \<and> func (contexts ?c ! i) = None"
    using Cons.prems by (auto simp: c nth_list_update)
  with Cons.IH [of ?c] Cons.prems show ?case by (auto simp: c nth_list_update)
qed

text \<open>
  Unregistering ends cleanly: its loop is left only when no function is held by a cached or
  active fiber, and the clean-up then lets every fiber return, so that each \<open>join\<close> comes back.
\<close>
theorem unregister_joins_all:
  assumes "fiber_reachable fs c" "no_active_fctx c = Inr True"
  shows "pending c = mset (detached c) \<and>
    (\<exists>c'. cache_cleanup c = Inr c' \<and> m_cache c' = None \<and>
       list_all (\<lambda>x. fib x = Returned) (contexts c') \<and> pending c' = pending c)"
proof -
  from fiber_inv_reachable [OF assms(1)] obtain cs where cs: "m_cache c = Some cs" "distinct cs"
    "set cs \<subseteq> {..<length (contexts c)}" "m_fib_cnt c = length (contexts c)"
    "\<forall>i < length (contexts c). i \<in> set cs \<longrightarrow> contexts c ! i = \<lparr>func = None, fib = Waiting\<rparr>"
    by (auto simp: fiber_inv_def)
  have "card (set cs) = card {..<length (contexts c)}"
    using assms(2) cs(1,2,4) by (simp add: no_active_fctx_def distinct_card)
  then have all: "set cs = {..<length (contexts c)}" using cs(3) by (simp add: card_subset_eq)
  have none: "List.map_filter func xs = []" if "\<forall>i < length xs. func (xs ! i) = None"
    for xs :: "'a fiber_context list"
    using that by (auto simp: List.map_filter_def filter_empty_conv in_set_conv_nth)
  let ?c = "fold fiber_resume cs c"
  have idle: "\<forall>i < length (contexts c). func (contexts c ! i) = None" using cs(5) all by simp
  then have r: "length (contexts ?c) = length (contexts c)" "detached ?c = detached c"
    "\<forall>i < length (contexts c). contexts ?c ! i = (contexts c ! i)\<lparr>fib := Returned\<rparr>"
    using fold_resume_waiting [OF cs(2), of c] all by auto
  have "list_all (\<lambda>x. fib x = Returned) (contexts ?c)" using r(1,3) by (simp add: list_all_length)
  moreover have "List.map_filter func (contexts ?c) = []" "List.map_filter func (contexts c) = []"
    using r(1,3) idle by (auto intro!: none)
  ultimately show ?thesis by (simp add: cache_cleanup_def cs(1) pending_def r(2))
qed

theorem unregister_joins_all_witness:
  "\<exists>c c'. fiber_reachable [''a''] c \<and> no_active_fctx c = Inr True \<and> cache_cleanup c = Inr c' \<and>
     list_all (\<lambda>x. fib x = Returned) (contexts c')"
proof -
  let ?c0 = "register_cache new_fiber_cache :: string fiber_cache"
  let ?c1 = "run ''a'' ?c0" let ?c2 = "fiber_resume 0 ?c1" let ?c3 = "fiber_finish 0 ?c2"
  note defs = register_cache_def new_fiber_cache_def run_def get_fiber_def vector_take_def
    vector_put_def fiber_resume_def fiber_finish_def
  have "fiber_reachable ([] @ [''a'']) ?c1"
    by (rule fiber_reachable.step [OF fiber_reachable.init fiber_step.run])
  then have "fiber_reachable (([] @ [''a'']) @ []) ?c2"
    by (rule fiber_reachable.step) (rule fiber_step.resume; simp add: defs)
  then have "fiber_reachable ((([] @ [''a'']) @ []) @ []) ?c3"
    by (rule fiber_reachable.step) (rule fiber_step.finish; simp add: defs)
  then have reach: "fiber_reachable [''a''] ?c3" by simp
  have "no_active_fctx ?c3 = Inr True" by (simp add: defs no_active_fctx_def)
  from unregister_joins_all [OF reach this] reach this show ?thesis by blast
qed

end
