(* ===== verification/Request.thy ===== *)
theory Request
  imports Fibers
begin

text \<open>
  The request object every handler is given (\<open>src/core/request.h\<close>, \<open>request.cpp\<close>), with the
  \<open>session::request\<close> of an HTTP/1 connection it wraps (\<open>src/core/session.h\<close>) or the request and
  response of an HTTP/2 stream. The object has a mode and answers every question by a switch on
  it: here the mode is the constructor of \<open>request_data\<close>, so the \<open>throw\<close> after each switch has
  no case. Header containers are multimaps; what the code relies on is the locale \<open>multimap\<close>.
\<close>

section \<open>Multimaps of headers\<close>

text \<open>\<open>operator<\<close> of \<open>std::string\<close>: lexicographic, by unsigned characters.\<close>

fun key_less :: "string \<Rightarrow> string \<Rightarrow> bool" where
  "key_less s [] = False"
| "key_less [] (d # ds) = True"
| "key_less (c # cs) (d # ds) =
     (if (of_char c :: nat) < of_char d then True else c = d \<and> key_less cs ds)"

text \<open>A \<open>std::multimap\<close> in the order of its iterators; \<open>emplace\<close> inserts after the equal keys.\<close>

type_synonym 'v header_map = "(string \<times> 'v) list"

fun emplace :: "string \<Rightarrow> 'v \<Rightarrow> 'v header_map \<Rightarrow> 'v header_map" where
  "emplace k v [] = [(k, v)]"
| "emplace k v (e # es) = (if key_less k (fst e) then (k, v) # e # es else e # emplace k v es)"

definition find_key :: "string \<Rightarrow> 'v header_map \<Rightarrow> 'v option" where
  "find_key k h = map_of h k"

text \<open>
  The laws the request relies on: \<open>find\<close> returns the value of an entry of that key if there is
  one, and \<open>emplace\<close> adds one entry.
\<close>

locale multimap =
  fixes find :: "string \<Rightarrow> 'h \<Rightarrow> 'v option"
    and put :: "string \<Rightarrow> 'v \<Rightarrow> 'h \<Rightarrow> 'h"
    and entries :: "'h \<Rightarrow> (string \<times> 'v) multiset"
  assumes find_Some: "find k h = Some v \<Longrightarrow> (k, v) \<in># entries h"
    and find_None: "find k h = None \<Longrightarrow> k \<notin> fst ` set_mset (entries h)"
    and entries_put: "entries (put k v h) = add_mset (k, v) (entries h)"
begin

lemma find_None_iff: "find k h = None \<longleftrightarrow> k \<notin> fst ` set_mset (entries h)"
proof
  assume k: "k \<notin> fst ` set_mset (entries h)"
  show "find k h = None"
  proof (rule ccontr)
    assume "find k h \<noteq> None"
    then obtain v where "find k h = Some v" by blast
    from find_Some [OF this] k show False by force
  qed
qed (rule find_None)

lemma find_put_fresh:
  assumes "find k h = None"
  shows "find k (put k v h) = Some v"
proof -
  have "find k (put k v h) \<noteq> None" by (simp add: find_None_iff entries_put)
  then obtain w where w: "find k (put k v h) = Some w" by blast
  from find_Some [OF w] have "(k, w) \<in># add_mset (k, v) (entries h)" by (simp only: entries_put)
  with assms have "w = v" by (force simp: find_None_iff)
  with w show ?thesis by simp
qed

lemma find_put_other: "k' \<noteq> k \<Longrightarrow> find k' (put k v h) = None \<longleftrightarrow> find k' h = None"
  by (simp add: find_None_iff entries_put)

lemma find_put_present: "find k (put k v h) \<noteq> None"
  by (simp add: find_None_iff entries_put)

text \<open>Adding a default leaves the container alone when the key is there.\<close>

lemma default_entries:
  fixes k v
  defines "d \<equiv> \<lambda>h. if find k h = None then put k v h else h"
  shows "entries h \<subseteq># entries (d h)" and "find k (d h) \<noteq> None"
    and "find k h = None \<Longrightarrow> find k (d h) = Some v"
    and "find k h \<noteq> None \<Longrightarrow> d h = h"
  by (auto simp: d_def entries_put find_put_fresh find_put_present)

end

lemma mset_emplace: "mset (emplace k v h) = add_mset (k, v) (mset h)"
  by (induction h) auto

interpretation hdrs: multimap find_key emplace mset
proof
  fix k :: string and h :: "'v header_map" and v
  show "find_key k h = Some v \<Longrightarrow> (k, v) \<in># mset h"
    by (simp add: find_key_def map_of_SomeD)
  show "find_key k h = None \<Longrightarrow> k \<notin> fst ` set_mset (mset h)"
    by (simp add: find_key_def map_of_eq_None_iff)
  show "mset (emplace k v h) = add_mset (k, v) (mset h)" by (rule mset_emplace)
qed

text \<open>The order of the keys is kept.\<close>

fun keys_sorted :: "'v header_map \<Rightarrow> bool" where
  "keys_sorted [] = True"
| "keys_sorted [e] = True"
| "keys_sorted (e # f # es) \<longleftrightarrow> \<not> key_less (fst f) (fst e) \<and> keys_sorted (f # es)"

lemma key_less_asym: "key_less s t \<Longrightarrow> \<not> key_less t s"
  by (induction s t rule: key_less.induct) (auto split: if_splits)

lemma keys_sorted_emplace: "keys_sorted h \<Longrightarrow> keys_sorted (emplace k v h)"
proof (induction h rule: keys_sorted.induct)
  case (2 e)
  then show ?case by (auto dest: key_less_asym)
next
  case (3 e f es)
  then show ?case by (auto dest: key_less_asym)
qed simp

section \<open>Requests\<close>

record endpoint =
  ep_address :: string
  ep_is_v4 :: bool

record http_message =
  msg_headers :: "string header_map"
  msg_body :: string

text \<open>\<open>session::response_t\<close>; \<open>uint_fast16_t\<close> is 64 bits wide with the GNU C library on 64-bit machines.\<close>

record response_t =
  res_status :: uint64
  res_message :: http_message

definition new_response :: response_t where
  "new_response = \<lparr>res_status = 200, res_message = \<lparr>msg_headers = [], msg_body = ''''\<rparr>\<rparr>"

text \<open>\<open>session::request\<close>; \<open>ready\<close> says that its promise has its value.\<close>

record session_request =
  sr_method :: string
  sr_path :: string
  sr_proto :: string
  sr_message :: http_message
  sr_remote_endpoint :: endpoint
  sr_response :: response_t
  ready :: bool

definition new_session_request :: "endpoint \<Rightarrow> session_request" where
  "new_session_request ep =
     \<lparr>sr_method = '''', sr_path = '''', sr_proto = ''http'',
      sr_message = \<lparr>msg_headers = [], msg_body = ''''\<rparr>, sr_remote_endpoint = ep,
      sr_response = new_response, ready = False\<rparr>"

text \<open>\<open>session::request::send_response()\<close>: setting the promise a second time throws.\<close>

definition session_send_response :: "session_request \<Rightarrow> session_request result" where
  "session_send_response r = (if ready r then Inl Future_error else Inr (r\<lparr>ready := True\<rparr>))"

text \<open>\<open>send_error_response\<close> and \<open>send_response(status, msg)\<close> of the session's request.\<close>

definition session_send_error :: "uint64 \<Rightarrow> session_request \<Rightarrow> session_request result" where
  "session_send_error status r =
     session_send_response (r\<lparr>sr_response := (sr_response r)\<lparr>res_status := status\<rparr>\<rparr>)"

definition session_send_message :: "uint64 \<Rightarrow> http_message \<Rightarrow> session_request \<Rightarrow> session_request result" where
  "session_send_message status msg r =
     session_send_response (r\<lparr>sr_response := \<lparr>res_status = status, res_message = msg\<rparr>\<rparr>)"

text \<open>The HTTP/2 library's request, and the calls made on its response object.\<close>

record header_value =
  hv_value :: string
  hv_sensitive :: bool

record http2_request =
  h2_method :: string
  h2_scheme :: string
  h2_host :: string
  h2_raw_path :: string
  h2_raw_query :: string
  h2_header :: "header_value header_map"
  h2_remote_endpoint :: endpoint

datatype http2_call = Write_head uint32 "header_value header_map" | End string

record http2_data =
  hd_request :: http2_request
  hd_response :: "http2_call list"
  hd_headers :: "header_value header_map"
  hd_content :: "string option"
  hd_path :: string

datatype mode = HTTP | HTTP2
datatype http_method = GET | POST | OTHER

datatype request_data = Http_data session_request | Http2_data http2_data

record request =
  m_method :: http_method
  req_data :: request_data

definition m_mode :: "request \<Rightarrow> mode" where
  "m_mode r = (case req_data r of Http_data d \<Rightarrow> HTTP | Http2_data d \<Rightarrow> HTTP2)"

definition method_string :: "request \<Rightarrow> string" where
  "method_string r =
     (case req_data r of Http_data d \<Rightarrow> sr_method d | Http2_data d \<Rightarrow> h2_method (hd_request d))"

text \<open>\<open>init\<close>; the member's default is \<open>OTHER\<close>.\<close>

definition request_init :: "request \<Rightarrow> request" where
  "request_init r =
     (if method_string r = ''GET'' then r\<lparr>m_method := GET\<rparr>
      else if method_string r = ''POST'' then r\<lparr>m_method := POST\<rparr>
      else r)"

text \<open>The constructors, the destructor and the HTTP/2 close handler count in the thread's scheduler.\<close>

definition make_http_request :: "session_request \<Rightarrow> 'c sched \<Rightarrow> request \<times> 'c sched" where
  "make_http_request req s = (request_init \<lparr>m_method = OTHER, req_data = Http_data req\<rparr>, sched_update s)"

definition http2_path :: "http2_request \<Rightarrow> string" where
  "http2_path req = h2_raw_path req @ (if h2_raw_query req \<noteq> '''' then ''?'' @ h2_raw_query req else '''')"

definition make_http2_request :: "http2_request \<Rightarrow> string option \<Rightarrow> 'c sched \<Rightarrow> request \<times> 'c sched" where
  "make_http2_request req content s =
     (request_init
        \<lparr>m_method = OTHER,
         req_data = Http2_data \<lparr>hd_request = req, hd_response = [], hd_headers = [],
                              hd_content = content, hd_path = http2_path req\<rparr>\<rparr>,
      sched_update s)"

definition request_on_close :: "'c sched \<Rightarrow> 'c sched" where
  "request_on_close s = sched_update s"

definition request_destroy :: "request \<Rightarrow> 'c sched \<Rightarrow> 'c sched" where
  "request_destroy r s = (if m_mode r = HTTP then sched_update s else s)"

section \<open>Reading a request\<close>

definition headers_size :: "request \<Rightarrow> nat" where
  "headers_size r =
     (case req_data r of
        Http_data d \<Rightarrow> length (msg_headers (sr_message d))
      | Http2_data d \<Rightarrow> length (h2_header (hd_request d)))"

text \<open>\<open>header\<close>: the value, or \<open>EMPTY\<close>.\<close>

definition header :: "string \<Rightarrow> request \<Rightarrow> string" where
  "header name r =
     (case req_data r of
        Http_data d \<Rightarrow>
          (case find_key name (msg_headers (sr_message d)) of Some v \<Rightarrow> v | None \<Rightarrow> '''')
      | Http2_data d \<Rightarrow>
          (case find_key name (h2_header (hd_request d)) of Some v \<Rightarrow> hv_value v | None \<Rightarrow> ''''))"

definition header_exists :: "string \<Rightarrow> request \<Rightarrow> bool" where
  "header_exists name r =
     (case req_data r of
        Http_data d \<Rightarrow> find_key name (msg_headers (sr_message d)) \<noteq> None
      | Http2_data d \<Rightarrow> find_key name (h2_header (hd_request d)) \<noteq> None)"

definition proto :: "request \<Rightarrow> string" where
  "proto r =
     (case req_data r of Http_data d \<Rightarrow> sr_proto d | Http2_data d \<Rightarrow> h2_scheme (hd_request d))"

definition host :: "request \<Rightarrow> string" where
  "host r = (case req_data r of Http_data d \<Rightarrow> header ''host'' r | Http2_data d \<Rightarrow> h2_host (hd_request d))"

definition path :: "request \<Rightarrow> string" where
  "path r = (case req_data r of Http_data d \<Rightarrow> sr_path d | Http2_data d \<Rightarrow> hd_path d)"

definition content :: "request \<Rightarrow> string" where
  "content r =
     (case req_data r of
        Http_data d \<Rightarrow> msg_body (sr_message d)
      | Http2_data d \<Rightarrow> (case hd_content d of Some c \<Rightarrow> c | None \<Rightarrow> ''''))"

definition remote_endpoint :: "request \<Rightarrow> endpoint" where
  "remote_endpoint r =
     (case req_data r of
        Http_data d \<Rightarrow> sr_remote_endpoint d
      | Http2_data d \<Rightarrow> h2_remote_endpoint (hd_request d))"

text \<open>\<open>header_iterator\<close>: its mode and the position of the library's iterator of that mode.\<close>

record header_iterator =
  hi_mode :: mode
  hi_pos :: nat

definition headers_begin :: "request \<Rightarrow> header_iterator" where
  "headers_begin r = \<lparr>hi_mode = m_mode r, hi_pos = 0\<rparr>"

definition headers_end :: "request \<Rightarrow> header_iterator" where
  "headers_end r = \<lparr>hi_mode = m_mode r, hi_pos = headers_size r\<rparr>"

definition hi_next :: "header_iterator \<Rightarrow> header_iterator" where
  "hi_next i = i\<lparr>hi_pos := hi_pos i + 1\<rparr>"

text \<open>\<open>first\<close> and \<open>second\<close> read through the iterator, which must not be the end.\<close>

definition hi_deref :: "request \<Rightarrow> header_iterator \<Rightarrow> (string \<times> string) result" where
  "hi_deref r i =
     (case req_data r of
        Http_data d \<Rightarrow>
          (let h = msg_headers (sr_message d) in
           if hi_mode i = HTTP \<and> hi_pos i < length h then Inr (h ! hi_pos i) else Inl Bad_access)
      | Http2_data d \<Rightarrow>
          (let h = h2_header (hd_request d) in
           if hi_mode i = HTTP2 \<and> hi_pos i < length h
           then Inr (fst (h ! hi_pos i), hv_value (snd (h ! hi_pos i))) else Inl Bad_access))"

definition hi_first :: "request \<Rightarrow> header_iterator \<Rightarrow> string result" where
  "hi_first r i = map_sum id fst (hi_deref r i)"

definition hi_second :: "request \<Rightarrow> header_iterator \<Rightarrow> string result" where
  "hi_second r i = map_sum id snd (hi_deref r i)"

definition hi_eq :: "header_iterator \<Rightarrow> header_iterator \<Rightarrow> bool result" where
  "hi_eq a b =
     (if hi_mode a \<noteq> hi_mode b then Inl (Runtime_error ''invalid iterator modes'')
      else Inr (hi_pos a = hi_pos b))"

definition hi_neq :: "header_iterator \<Rightarrow> header_iterator \<Rightarrow> bool result" where
  "hi_neq a b =
     (if hi_mode a \<noteq> hi_mode b then Inl (Runtime_error ''invalid iterator modes'')
      else Inr (hi_pos a \<noteq> hi_pos b))"

section \<open>Answering a request\<close>

definition add_header :: "string \<Rightarrow> string \<Rightarrow> request \<Rightarrow> request" where
  "add_header name val r =
     (case req_data r of
        Http_data d \<Rightarrow>
          (let res = sr_response d; msg = res_message res in
           r\<lparr>req_data := Http_data (d\<lparr>sr_response := res\<lparr>res_message :=
             msg\<lparr>msg_headers := emplace name val (msg_headers msg)\<rparr>\<rparr>\<rparr>)\<rparr>)
      | Http2_data d \<Rightarrow>
          r\<lparr>req_data := Http2_data (d\<lparr>hd_headers :=
             emplace name \<lparr>hv_value = val, hv_sensitive = False\<rparr> (hd_headers d)\<rparr>)\<rparr>)"

definition response_header_exists :: "string \<Rightarrow> request \<Rightarrow> bool" where
  "response_header_exists name r =
     (case req_data r of
        Http_data d \<Rightarrow> find_key name (msg_headers (res_message (sr_response d))) \<noteq> None
      | Http2_data d \<Rightarrow> find_key name (hd_headers d) \<noteq> None)"

text \<open>\<open>std::to_string\<close> of a size.\<close>

fun to_string :: "nat \<Rightarrow> string" where
  "to_string n = (if n < 10 then [char_of (48 + n)] else to_string (n div 10) @ [char_of (48 + n mod 10)])"

declare to_string.simps [simp del]

text \<open>The two cases of the switch, after the default header; the moved-from map is left empty.\<close>

definition send_http :: "int \<Rightarrow> string \<Rightarrow> session_request \<Rightarrow> session_request result" where
  "send_http code cont d =
     (let res = sr_response d; msg = res_message res;
          msg = (if length cont > 0 then msg\<lparr>msg_body := msg_body msg @ cont\<rparr> else msg) in
      session_send_response (d\<lparr>sr_response := \<lparr>res_status = word_of_int code, res_message = msg\<rparr>\<rparr>))"

definition send_http2 :: "int \<Rightarrow> string \<Rightarrow> http2_data \<Rightarrow> http2_data" where
  "send_http2 code cont d =
     (let h = emplace ''content-length'' \<lparr>hv_value = to_string (length cont), hv_sensitive = False\<rparr> (hd_headers d) in
      d\<lparr>hd_headers := [], hd_response := hd_response d @ [Write_head (word_of_int code) h, End cont]\<rparr>)"

definition send_response :: "int \<Rightarrow> string \<Rightarrow> request \<Rightarrow> request result" where
  "send_response code cont r =
     (let r = (if \<not> response_header_exists ''server'' r then add_header ''server'' ''petrel'' r else r) in
      case req_data r of
        Http_data d \<Rightarrow>
          (case send_http code cont d of
             Inl e \<Rightarrow> Inl e
           | Inr d' \<Rightarrow> Inr (r\<lparr>req_data := Http_data d'\<rparr>))
      | Http2_data d \<Rightarrow> Inr (r\<lparr>req_data := Http2_data (send_http2 code cont d)\<rparr>))"

definition send_error_response :: "int \<Rightarrow> request \<Rightarrow> request result" where
  "send_error_response code r = send_response code '''' r"

section \<open>What has been answered\<close>

text \<open>The request has a method of its own string in every mode, set once by \<open>init\<close>.\<close>

lemma m_method_request_init [simp]:
  "m_method (request_init r) =
     (if method_string r = ''GET'' then GET else if method_string r = ''POST'' then POST else m_method r)"
  by (simp add: request_init_def)

lemma req_data_request_init [simp]: "req_data (request_init r) = req_data r"
  by (simp add: request_init_def)

lemma req_data_make [simp]:
  "req_data (fst (make_http_request req s)) = Http_data req"
  "req_data (fst (make_http2_request req2 cont s)) =
     Http2_data \<lparr>hd_request = req2, hd_response = [], hd_headers = [], hd_content = cont, hd_path = http2_path req2\<rparr>"
  by (simp_all add: make_http_request_def make_http2_request_def)

text \<open>Decimal numbers read back.\<close>

definition of_decimal :: "string \<Rightarrow> nat" where
  "of_decimal s = foldl (\<lambda>n c. n * 10 + (of_char c - 48)) 0 s"

lemma of_decimal_to_string [simp]: "of_decimal (to_string n) = n"
proof (induction n rule: to_string.induct)
  case (1 n)
  show ?case
  proof (cases "n < 10")
    case True
    then show ?thesis by (simp add: to_string.simps [of n] of_decimal_def)
  next
    case False
    with 1 have "of_decimal (to_string (n div 10)) = n div 10" by simp
    moreover have "n mod 10 < 10" by simp
    ultimately show ?thesis using False
      by (simp add: to_string.simps [of n] of_decimal_def)
  qed
qed

text \<open>The response under construction, whatever the mode, and what the client has been sent.\<close>

definition response_headers :: "request \<Rightarrow> (string \<times> string) multiset" where
  "response_headers r =
     (case req_data r of
        Http_data d \<Rightarrow> mset (msg_headers (res_message (sr_response d)))
      | Http2_data d \<Rightarrow> image_mset (\<lambda>(k, v). (k, hv_value v)) (mset (hd_headers d)))"

definition response_body :: "request \<Rightarrow> string" where
  "response_body r =
     (case req_data r of Http_data d \<Rightarrow> msg_body (res_message (sr_response d)) | Http2_data d \<Rightarrow> '''')"

definition unanswered :: "request \<Rightarrow> bool" where
  "unanswered r = (case req_data r of Http_data d \<Rightarrow> \<not> ready d | Http2_data d \<Rightarrow> hd_response d = [])"

definition answer :: "request \<Rightarrow> (int \<times> (string \<times> string) multiset \<times> string) option" where
  "answer r =
     (case req_data r of
        Http_data d \<Rightarrow>
          (if ready d then Some (uint (res_status (sr_response d)), response_headers r, response_body r)
           else None)
      | Http2_data d \<Rightarrow>
          (case hd_response d of
             [Write_head status h, End body] \<Rightarrow>
               Some (uint status, image_mset (\<lambda>(k, v). (k, hv_value v)) (mset h), body)
           | _ \<Rightarrow> None))"

lemma add_header_adds:
  "response_headers (add_header k v r) = add_mset (k, v) (response_headers r)"
  "response_body (add_header k v r) = response_body r"
  "unanswered (add_header k v r) = unanswered r"
  "m_mode (add_header k v r) = m_mode r" "m_method (add_header k v r) = m_method r"
  by (simp_all add: add_header_def response_headers_def response_body_def unanswered_def m_mode_def
      mset_emplace Let_def split: request_data.splits)

lemma response_header_exists_iff:
  "response_header_exists k r \<longleftrightarrow> (\<exists>v. (k, v) \<in># response_headers r)"
proof (cases "req_data r")
  case (Http_data d)
  then show ?thesis
    by (force simp: response_header_exists_def response_headers_def hdrs.find_None_iff)
next
  case (Http2_data d)
  then show ?thesis
    by (force simp: response_header_exists_def response_headers_def hdrs.find_None_iff)
qed

lemma unanswered_send:
  assumes "unanswered r" "0 \<le> code" "code < 2 ^ 32" "response_header_exists ''server'' r"
  shows "\<exists>r'. send_response code cont r = Inr r' \<and> \<not> unanswered r' \<and> m_mode r' = m_mode r \<and>
     answer r' = Some (code,
       response_headers r +
         (case m_mode r of HTTP \<Rightarrow> {#} | HTTP2 \<Rightarrow> {#(''content-length'', to_string (length cont))#}),
       response_body r @ cont)"
proof (cases "req_data r")
  case (Http_data d)
  have "uint (word_of_int code :: 64 word) = code" using assms(2,3)
    by (simp add: uint_word_of_int)
  with assms Http_data show ?thesis
    by (auto simp: send_response_def send_http_def session_send_response_def unanswered_def m_mode_def
        answer_def response_headers_def response_body_def Let_def)
next
  case (Http2_data d)
  have "uint (word_of_int code :: 32 word) = code" using assms(2,3)
    by (simp add: uint_word_of_int)
  with assms Http2_data show ?thesis
    by (simp add: send_response_def send_http2_def unanswered_def m_mode_def
        answer_def response_headers_def response_body_def Let_def mset_emplace)
qed

lemma send_adds_server:
  "\<not> response_header_exists ''server'' r \<Longrightarrow>
   send_response code cont r = send_response code cont (add_header ''server'' ''petrel'' r)"
  by (simp add: send_response_def Let_def response_header_exists_iff add_header_adds)

text \<open>A second answer fails on an HTTP/1 request.\<close>

lemma answered_send:
  assumes "m_mode r = HTTP" "\<not> unanswered r"
  shows "send_response code cont r = Inl Future_error"
proof -
  have *: "send_response c t q = Inl Future_error"
    if "m_mode q = HTTP" "\<not> unanswered q" "response_header_exists ''server'' q" for c t q
    using that by (auto simp: send_response_def send_http_def session_send_response_def m_mode_def
        unanswered_def Let_def split: request_data.splits)
  show ?thesis
  proof (cases "response_header_exists ''server'' r")
    case True
    with assms show ?thesis by (intro *)
  next
    case False
    show ?thesis unfolding send_adds_server [OF False] using assms
      by (intro *) (auto simp: add_header_adds response_header_exists_iff)
  qed
qed

text \<open>The headers that go out: a default \<open>server\<close>, and over HTTP/2 the length.\<close>

definition final_headers :: "mode \<Rightarrow> (string \<times> string) multiset \<Rightarrow> string \<Rightarrow> (string \<times> string) multiset" where
  "final_headers m hs cont =
     hs + (if \<exists>v. (''server'', v) \<in># hs then {#} else {#(''server'', ''petrel'')#}) +
     (case m of HTTP \<Rightarrow> {#} | HTTP2 \<Rightarrow> {#(''content-length'', to_string (length cont))#})"

lemma send_answers:
  assumes "unanswered r" "0 \<le> code" "code < 2 ^ 32"
  shows "\<exists>r'. send_response code cont r = Inr r' \<and>
     answer r' = Some (code, final_headers (m_mode r) (response_headers r) cont, response_body r @ cont) \<and>
     of_decimal (to_string (length cont)) = length cont \<and>
     (m_mode r = HTTP \<longrightarrow> send_response code2 cont2 r' = Inl Future_error)"
proof (cases "response_header_exists ''server'' r")
  case True
  from unanswered_send [OF assms True, where cont = cont] obtain r' where
    "send_response code cont r = Inr r'" "\<not> unanswered r'" "m_mode r' = m_mode r"
    "answer r' = Some (code, response_headers r +
       (case m_mode r of HTTP \<Rightarrow> {#} | HTTP2 \<Rightarrow> {#(''content-length'', to_string (length cont))#}),
       response_body r @ cont)"
    by (elim exE conjE)
  with True answered_send [of r' code2 cont2] show ?thesis
    by (simp add: response_header_exists_iff final_headers_def)
next
  case False
  let ?q = "add_header ''server'' ''petrel'' r"
  have "unanswered ?q" "response_header_exists ''server'' ?q"
    using assms(1) by (auto simp: add_header_adds response_header_exists_iff)
  from unanswered_send [OF this(1) assms(2,3) this(2), where cont = cont] obtain r' where
    "send_response code cont r = Inr r'" "\<not> unanswered r'" "m_mode r' = m_mode r"
    "answer r' = Some (code, response_headers ?q +
       (case m_mode r of HTTP \<Rightarrow> {#} | HTTP2 \<Rightarrow> {#(''content-length'', to_string (length cont))#}),
       response_body r @ cont)"
    unfolding send_adds_server [OF False, symmetric] add_header_adds by (elim exE conjE)
  with False answered_send [of r' code2 cont2] show ?thesis
    by (simp add: response_header_exists_iff add_header_adds final_headers_def)
qed

text \<open>
  C9. Answering a request that has not been answered succeeds and delivers, in both modes, the
  status, the content after what the response already holds, and all the headers added so far;
  a \<open>server\<close> header is added if and only if there was none, and over HTTP/2 a content length
  that reads back as the content's size. A second answer to an HTTP/1 request is an error.
\<close>
theorem send_response_answers:
  assumes "unanswered r" "0 \<le> code" "code < 2 ^ 32"
  shows "\<exists>r'. send_response code cont r = Inr r' \<and>
     answer r' = Some (code, final_headers (m_mode r) (response_headers r) cont, response_body r @ cont) \<and>
     of_decimal (to_string (length cont)) = length cont \<and>
     (m_mode r = HTTP \<longrightarrow> send_response code2 cont2 r' = Inl Future_error)"
  by (rule send_answers) (fact assms)+

definition sample_request :: request where
  "sample_request =
     add_header ''x-a'' ''1'' (fst (make_http_request (new_session_request \<lparr>ep_address = ''::1'', ep_is_v4 = False\<rparr>)
       (new_sched 0 :: nat sched)))"

theorem send_response_answers_witness:
  "\<exists>r'. send_response 200 ''hi'' sample_request = Inr r' \<and>
     answer r' = Some (200, {#(''x-a'', ''1''), (''server'', ''petrel'')#}, ''hi'') \<and>
     send_response 500 '''' r' = Inl Future_error"
proof -
  have *: "unanswered sample_request" "response_headers sample_request = {#(''x-a'', ''1'')#}"
    "response_body sample_request = ''''" "m_mode sample_request = HTTP"
    by (simp_all add: sample_request_def add_header_adds)
       (simp_all add: unanswered_def response_headers_def response_body_def m_mode_def
         new_session_request_def new_response_def)
  from send_response_answers [OF *(1), of 200 "''hi''" 500 "''''"] * show ?thesis
    by (auto simp: final_headers_def)
qed

section \<open>The headers by their iterators\<close>

definition request_headers :: "request \<Rightarrow> (string \<times> string) list" where
  "request_headers r =
     (case req_data r of
        Http_data d \<Rightarrow> msg_headers (sr_message d)
      | Http2_data d \<Rightarrow> map (\<lambda>(k, v). (k, hv_value v)) (h2_header (hd_request d)))"

lemma length_request_headers [simp]: "length (request_headers r) = headers_size r"
  by (simp add: request_headers_def headers_size_def split: request_data.split)

lemma hi_deref_at:
  "hi_deref r \<lparr>hi_mode = m_mode r, hi_pos = i\<rparr> =
     (if i < headers_size r then Inr (request_headers r ! i) else Inl Bad_access)"
  by (simp add: hi_deref_def m_mode_def request_headers_def headers_size_def Let_def split_beta
      split: request_data.split)

lemma header_find: "header k r = (case map_of (request_headers r) k of Some v \<Rightarrow> v | None \<Rightarrow> '''')"
proof -
  have "map_of (map (\<lambda>(k, v). (k, hv_value v)) h) k = map_option hv_value (map_of h k)"
    for h :: "header_value header_map"
    by (induction h) auto
  then show ?thesis
    by (simp add: header_def request_headers_def find_key_def split: request_data.split option.split)
qed

lemma header_exists_find: "header_exists k r \<longleftrightarrow> k \<in> fst ` set (request_headers r)"
  by (force simp: header_exists_def request_headers_def hdrs.find_None_iff split: request_data.split)

lemma send_succeeds:
  assumes "unanswered r"
  shows "\<exists>r'. send_response code cont r = Inr r'"
proof -
  have *: "\<exists>r'. send_response code cont q = Inr r'" if "unanswered q" "response_header_exists ''server'' q" for q
    using that by (auto simp: send_response_def send_http_def session_send_response_def unanswered_def Let_def
        split: request_data.splits)
  show ?thesis
  proof (cases "response_header_exists ''server'' r")
    case True
    with assms show ?thesis by (intro *)
  next
    case False
    show ?thesis unfolding send_adds_server [OF False] using assms
      by (intro *) (auto simp: add_header_adds response_header_exists_iff)
  qed
qed

lemma send_fails: "send_response code cont r = Inl e \<Longrightarrow> e = Future_error"
  by (auto simp: send_response_def send_http_def session_send_response_def Let_def
      split: request_data.splits if_splits)

text \<open>Answering keeps the mode, and over HTTP/1 leaves a response that is ready.\<close>

lemma send_response_mode:
  assumes "send_response code cont r = Inr r'"
  shows "m_mode r' = m_mode r" and "m_mode r = HTTP \<Longrightarrow> answer r' \<noteq> None"
proof -
  let ?q = "if \<not> response_header_exists ''server'' r then add_header ''server'' ''petrel'' r else r"
  have q: "m_mode ?q = m_mode r" by (simp add: add_header_adds)
  have send: "(case req_data ?q of
        Http_data d \<Rightarrow> (case send_http code cont d of Inl e \<Rightarrow> Inl e | Inr d' \<Rightarrow> Inr (?q\<lparr>req_data := Http_data d'\<rparr>))
      | Http2_data d \<Rightarrow> Inr (?q\<lparr>req_data := Http2_data (send_http2 code cont d)\<rparr>)) = Inr r'"
    using assms by (simp only: send_response_def Let_def)
  from q send show "m_mode r' = m_mode r"
    by (auto simp only: m_mode_def split: request_data.splits sum.splits) (auto simp: m_mode_def)
  assume "m_mode r = HTTP"
  with q send show "answer r' \<noteq> None"
    by (auto simp: m_mode_def answer_def send_http_def session_send_response_def Let_def
        split: request_data.splits sum.splits if_splits)
qed

lemma answer_http:
  assumes "m_mode r = HTTP" "answer r = Some a"
  obtains d where "req_data r = Http_data d" "ready d"
    "a = (uint (res_status (sr_response d)), mset (msg_headers (res_message (sr_response d))),
          msg_body (res_message (sr_response d)))"
  using assms
  by (cases "req_data r") (auto simp: m_mode_def answer_def response_headers_def response_body_def split: if_splits)

end
