(* ===== verification/File_Cache.thy ===== *)
theory File_Cache
  imports Prelude
begin

text \<open>
  The file cache (\<open>src/core/file_cache.cpp\<close>, \<open>asio_post.cpp\<close>): the main map, the thread-local
  maps of the workers, the handlers posted to each worker's io service (run in order by its one
  thread), scanning directories and the refresh loop. The file system is a parameter: what a path
  names at the time of a call.
\<close>

section \<open>Files\<close>

text \<open>
  What a path names: a regular file with its size, time of last write and, if it can be opened,
  its bytes; a directory with the names of its entries; or something else.
\<close>

datatype fs_node =
    Regular_file nat int "string option"
  | Directory "string list"
  | Other_node

type_synonym file_system = "string \<Rightarrow> fs_node option"

record cached_file =
  m_name :: string
  m_data :: string
  m_size :: nat
  m_time :: int
  m_good :: bool

definition new_file :: "file_system \<Rightarrow> string \<Rightarrow> bool \<Rightarrow> cached_file" where
  "new_file fs name read_from_disk =
     (let f = \<lparr>m_name = '''', m_data = '''', m_size = 0, m_time = 0, m_good = False\<rparr> in
      case fs name of
        Some (Regular_file sz time content) \<Rightarrow>
          (let f = f\<lparr>m_size := sz, m_time := time\<rparr> in
           if read_from_disk then
             (case content of Some bytes \<Rightarrow> f\<lparr>m_data := bytes, m_good := True\<rparr> | None \<Rightarrow> f)
           else f)
      | _ \<Rightarrow> f)"

definition file_neq :: "cached_file \<Rightarrow> cached_file \<Rightarrow> bool" where
  "file_neq lhs rhs \<longleftrightarrow> m_size lhs \<noteq> m_size rhs \<or> m_time lhs \<noteq> m_time rhs"

section \<open>The cache and the workers' threads\<close>

type_synonym file_map = "string \<rightharpoonup> cached_file"

text \<open>The handlers the cache posts to an io service.\<close>

datatype handler =
    Make_local
  | Reset_local
  | Set_local string cached_file
  | Erase_local string

text \<open>
  The cache, with the thread-local map of every worker's thread (\<open>None\<close> is the null pointer)
  and the handlers its io service has not run yet.
\<close>

record file_cache =
  m_directories :: "string set"
  m_file_map :: file_map
  m_iosvcs :: "nat list"
  m_file_map_local :: "nat \<Rightarrow> file_map option"
  posted :: "nat \<Rightarrow> handler list"

definition new_file_cache :: file_cache where
  "new_file_cache =
     \<lparr>m_directories = {}, m_file_map = Map.empty, m_iosvcs = [],
      m_file_map_local = (\<lambda>w. None), posted = (\<lambda>w. [])\<rparr>"

definition post :: "nat \<Rightarrow> handler \<Rightarrow> file_cache \<Rightarrow> file_cache" where
  "post w h c = c\<lparr>posted := (posted c)(w := posted c w @ [h])\<rparr>"

fun run_handler :: "file_map option \<Rightarrow> handler \<Rightarrow> file_map option result" where
  "run_handler l Make_local = Inr (Some Map.empty)"
| "run_handler l Reset_local = Inr None"
| "run_handler None (Set_local name f) = Inl Null_dereference"
| "run_handler (Some m) (Set_local name f) = Inr (Some (m(name \<mapsto> f)))"
| "run_handler None (Erase_local name) = Inl Null_dereference"
| "run_handler (Some m) (Erase_local name) =
     Inr (Some (if m name \<noteq> None then m(name := None) else m))"

text \<open>A worker's thread runs the next handler.\<close>

definition run_posted :: "nat \<Rightarrow> file_cache \<Rightarrow> file_cache result" where
  "run_posted w c =
     (case posted c w of
        [] \<Rightarrow> Inr c
      | h # hs \<Rightarrow>
          (case run_handler (m_file_map_local c w) h of
             Inl e \<Rightarrow> Inl e
           | Inr l \<Rightarrow> Inr (c\<lparr>m_file_map_local := (m_file_map_local c)(w := l),
                             posted := (posted c)(w := hs)\<rparr>)))"

definition register_io_service :: "nat \<Rightarrow> file_cache \<Rightarrow> file_cache" where
  "register_io_service w c = post w Make_local (c\<lparr>m_iosvcs := m_iosvcs c @ [w]\<rparr>)"

text \<open>\<open>io_service_post_wait\<close> returns when the posted handler has run, and with it all before.\<close>

fun run_until_idle :: "nat \<Rightarrow> nat \<Rightarrow> file_cache \<Rightarrow> file_cache result" where
  "run_until_idle 0 w c = Inr c"
| "run_until_idle (Suc n) w c =
     (case run_posted w c of Inl e \<Rightarrow> Inl e | Inr c' \<Rightarrow> run_until_idle n w c')"

definition post_wait :: "nat \<Rightarrow> handler \<Rightarrow> file_cache \<Rightarrow> file_cache result" where
  "post_wait w h c = (let c = post w h c in run_until_idle (length (posted c w)) w c)"

definition unregister_io_service :: "nat \<Rightarrow> file_cache \<Rightarrow> file_cache result" where
  "unregister_io_service w c = post_wait w Reset_local (c\<lparr>m_iosvcs := remove1 w (m_iosvcs c)\<rparr>)"

definition post_all :: "handler \<Rightarrow> file_cache \<Rightarrow> file_cache" where
  "post_all h c = fold (\<lambda>w c. post w h c) (m_iosvcs c) c"

definition add_file :: "file_system \<Rightarrow> string \<Rightarrow> file_cache \<Rightarrow> bool \<times> file_cache" where
  "add_file fs name c =
     (let f = new_file fs name True in
      if m_good f then
        (let c = post_all (Set_local name f) c in
         (True, c\<lparr>m_file_map := (m_file_map c)(name \<mapsto> f)\<rparr>))
      else (False, c))"

definition remove_file :: "string \<Rightarrow> file_cache \<Rightarrow> file_cache" where
  "remove_file name c =
     (let c = post_all (Erase_local name) c in
      if m_file_map c name \<noteq> None then c\<lparr>m_file_map := (m_file_map c)(name := None)\<rparr> else c)"

definition get_file_main :: "string \<Rightarrow> file_cache \<Rightarrow> cached_file option" where
  "get_file_main name c = m_file_map c name"

text \<open>\<open>get_file\<close> on the thread of worker \<open>w\<close>.\<close>

definition get_file :: "nat \<Rightarrow> string \<Rightarrow> file_cache \<Rightarrow> cached_file option \<times> file_cache" where
  "get_file w name c =
     (case m_file_map_local c w of
        Some m \<Rightarrow>
          (case m name of
             Some f \<Rightarrow> (Some f, c)
           | None \<Rightarrow>
               (case get_file_main name c of
                  Some f \<Rightarrow> (Some f, c\<lparr>m_file_map_local := (m_file_map_local c)(w \<mapsto> m(name \<mapsto> f))\<rparr>)
                | None \<Rightarrow> (None, c)))
      | None \<Rightarrow> (get_file_main name c, c))"

text \<open>\<open>path / entry\<close>.\<close>

definition path_append :: "string \<Rightarrow> string \<Rightarrow> string" where
  "path_append p e = (if p \<noteq> [] \<and> last p = CHR ''/'' then p @ e else p @ ''/'' @ e)"

text \<open>
  \<open>scan_directory\<close>, with the depth of the directory tree as fuel: a symbolic link may make it
  infinite. The result is \<open>None\<close> when the fuel is used up.
\<close>

definition scan_entry :: "(string \<Rightarrow> file_cache \<Rightarrow> (bool \<times> file_cache) option) \<Rightarrow> file_system \<Rightarrow>
    file_cache \<Rightarrow> string \<Rightarrow> file_cache option" where
  "scan_entry scan fs c p =
     (case fs p of
        Some (Directory es) \<Rightarrow> map_option snd (scan p c)
      | _ \<Rightarrow> Some (if get_file_main p c = None then snd (add_file fs p c) else c))"

fun scan_directory :: "nat \<Rightarrow> file_system \<Rightarrow> string \<Rightarrow> file_cache \<Rightarrow> (bool \<times> file_cache) option" where
  "scan_directory 0 fs name c = None"
| "scan_directory (Suc n) fs name c =
     (case fs name of
        Some (Directory es) \<Rightarrow>
          map_option (Pair True) (fold_option (scan_entry (scan_directory n fs) fs) c (map (path_append name) es))
      | _ \<Rightarrow> Some (False, c))"

definition add_directory :: "nat \<Rightarrow> file_system \<Rightarrow> string \<Rightarrow> file_cache \<Rightarrow> (bool \<times> file_cache) option" where
  "add_directory n fs name c =
     (case scan_directory n fs name c of
        None \<Rightarrow> None
      | Some (ok, c) \<Rightarrow>
          Some (if ok then (True, c\<lparr>m_directories := insert name (m_directories c)\<rparr>) else (False, c)))"

text \<open>
  One round of the refresh loop: looking for new files in the directories, iterated in the order
  \<open>dirs\<close>, then updating and removing the files of the map, iterated in the order \<open>names\<close>.
\<close>

definition scan_all :: "nat \<Rightarrow> file_system \<Rightarrow> string list \<Rightarrow> file_cache \<Rightarrow> file_cache option" where
  "scan_all n fs dirs c = fold_option (\<lambda>c dir. map_option snd (scan_directory n fs dir c)) c dirs"

definition update_existing :: "file_system \<Rightarrow> string list \<Rightarrow> file_cache \<Rightarrow> file_cache" where
  "update_existing fs names c =
     (let changed = (\<lambda>name. case m_file_map c name of
                       Some f \<Rightarrow> file_neq f (new_file fs name False) | None \<Rightarrow> False);
          to_add = filter (\<lambda>name. fs name \<noteq> None \<and> changed name) names;
          to_remove = filter (\<lambda>name. fs name = None) names;
          c = fold (\<lambda>name c. snd (add_file fs name c)) to_add c in
      fold remove_file to_remove c)"

definition refresh :: "nat \<Rightarrow> file_system \<Rightarrow> string list \<Rightarrow> string list \<Rightarrow> file_cache \<Rightarrow> file_cache option" where
  "refresh n fs dirs names c =
     (case scan_all n fs dirs c of None \<Rightarrow> None | Some c \<Rightarrow> Some (update_existing fs names c))"

section \<open>Coherence of the thread-local maps\<close>

text \<open>What a worker's map will be when the handlers posted so far have run.\<close>

definition final_local :: "nat \<Rightarrow> file_cache \<Rightarrow> file_map option result" where
  "final_local w c = fold_result run_handler (m_file_map_local c w) (posted c w)"

text \<open>
  The invariant: no handler meets a null pointer, a registered worker will have a map, and
  that map agrees with the main map.
\<close>

definition cache_inv :: "file_cache \<Rightarrow> bool" where
  "cache_inv c \<longleftrightarrow>
     distinct (m_iosvcs c) \<and>
     (\<forall>w. \<exists>l. final_local w c = Inr l \<and>
        (w \<in> set (m_iosvcs c) \<longrightarrow> (\<exists>m. l = Some m \<and> m \<subseteq>\<^sub>m m_file_map c)))"

lemma cache_inv_new: "cache_inv new_file_cache"
  by (simp add: cache_inv_def new_file_cache_def final_local_def)

lemma final_local_post:
  "final_local w (post v h c) =
     (if w = v then case final_local w c of Inl e \<Rightarrow> Inl e | Inr l \<Rightarrow> run_handler l h else final_local w c)"
  by (simp add: final_local_def post_def fold_result_append split: sum.split)

lemma post_fields [frame_simps]:
  "m_file_map (post w h c) = m_file_map c" "m_iosvcs (post w h c) = m_iosvcs c"
  "m_file_map_local (post w h c) = m_file_map_local c" "m_directories (post w h c) = m_directories c"
  by (simp_all add: post_def)

lemma fold_post_fields [frame_simps]:
  "m_file_map (fold (\<lambda>w c. post w h c) ws c) = m_file_map c"
  "m_iosvcs (fold (\<lambda>w c. post w h c) ws c) = m_iosvcs c"
  "m_file_map_local (fold (\<lambda>w c. post w h c) ws c) = m_file_map_local c"
  "m_directories (fold (\<lambda>w c. post w h c) ws c) = m_directories c"
  by (induction ws arbitrary: c) (simp_all add: frame_simps)

lemma final_local_fold_post:
  "distinct ws \<Longrightarrow> final_local w (fold (\<lambda>w c. post w h c) ws c) =
     (if w \<in> set ws then case final_local w c of Inl e \<Rightarrow> Inl e | Inr l \<Rightarrow> run_handler l h
      else final_local w c)"
  by (induction ws arbitrary: c) (auto simp: final_local_post)

lemma final_local_map [simp]:
  "final_local w (c\<lparr>m_file_map := m\<rparr>) = final_local w c"
  "final_local w (c\<lparr>m_iosvcs := ws\<rparr>) = final_local w c"
  "final_local w (c\<lparr>m_directories := ds\<rparr>) = final_local w c"
  by (simp_all add: final_local_def)

text \<open>Telling all workers of a change of one name, and making it in the main map.\<close>

lemma cache_inv_change:
  assumes "cache_inv c" and run: "\<And>m. \<exists>m'. run_handler (Some m) h = Inr (Some m') \<and>
      m' name = x \<and> (\<forall>n. n \<noteq> name \<longrightarrow> m' n = m n)"
    and "c' = post_all h c"
  shows "cache_inv (c'\<lparr>m_file_map := (m_file_map c')(name := x)\<rparr>)"
proof -
  have d: "distinct (m_iosvcs c)" using assms(1) by (simp add: cache_inv_def)
  have "\<exists>l. final_local w c' = Inr l \<and>
      (w \<in> set (m_iosvcs c) \<longrightarrow> (\<exists>m. l = Some m \<and> m \<subseteq>\<^sub>m (m_file_map c)(name := x)))" for w
  proof -
    from assms(1) obtain l where l: "final_local w c = Inr l"
      "w \<in> set (m_iosvcs c) \<longrightarrow> (\<exists>m. l = Some m \<and> m \<subseteq>\<^sub>m m_file_map c)"
      unfolding cache_inv_def by blast
    show ?thesis
    proof (cases "w \<in> set (m_iosvcs c)")
      case False
      with l show ?thesis by (simp add: assms(3) post_all_def final_local_fold_post [OF d])
    next
      case True
      with l(2) obtain m where m: "l = Some m" "m \<subseteq>\<^sub>m m_file_map c" by blast
      from run [of m] obtain m' where m': "run_handler (Some m) h = Inr (Some m')" "m' name = x"
        "\<forall>n. n \<noteq> name \<longrightarrow> m' n = m n" by blast
      have "m' \<subseteq>\<^sub>m (m_file_map c)(name := x)"
        using m(2) m'(2,3) by (auto simp: map_le_def dom_def)
      with True l(1) m(1) m'(1) show ?thesis
        by (simp add: assms(3) post_all_def final_local_fold_post [OF d])
    qed
  qed
  with d show ?thesis
    by (simp add: cache_inv_def assms(3) post_all_def frame_simps)
qed

lemma cache_inv_add_file [inv_intros]: "cache_inv c \<Longrightarrow> cache_inv (snd (add_file fs name c))"
  using cache_inv_change [where h = "Set_local name (new_file fs name True)" and name = name
      and x = "Some (new_file fs name True)" and c = c]
  by (simp add: add_file_def Let_def)

lemma cache_inv_remove_file [inv_intros]:
  assumes "cache_inv c"
  shows "cache_inv (remove_file name c)"
proof -
  have "\<exists>m'. run_handler (Some m) (Erase_local name) = Inr (Some m') \<and> m' name = None \<and>
      (\<forall>n. n \<noteq> name \<longrightarrow> m' n = m n)" for m by simp
  note inv = cache_inv_change [OF assms this refl]
  let ?c = "post_all (Erase_local name) c"
  show ?thesis
  proof (cases "m_file_map ?c name")
    case None
    then have "(m_file_map ?c)(name := None) = m_file_map ?c" by (rule fun_upd_idem)
    with inv None show ?thesis by (simp add: remove_file_def Let_def)
  next
    case (Some f)
    with inv show ?thesis by (simp add: remove_file_def Let_def)
  qed
qed

text \<open>A map read from is the map that was there, but for a copy from the main map.\<close>

lemma run_handlers_copy:
  assumes "fold_result run_handler (Some m) q = Inr l" "\<forall>n. m' n = m n \<or> n = name \<and> m' n = Some f"
  shows "\<exists>l'. fold_result run_handler (Some m') q = Inr l' \<and>
     (\<forall>m1. l = Some m1 \<longrightarrow> (\<exists>m2. l' = Some m2 \<and> (\<forall>n. m2 n = m1 n \<or> n = name \<and> m2 n = Some f)))"
  using assms
proof (induction q arbitrary: m m')
  case Nil
  then show ?case by auto
next
  case (Cons h q)
  show ?case
  proof (cases h)
    case Make_local
    with Cons.prems(1) show ?thesis by auto
  next
    case Reset_local
    with Cons.prems(1) show ?thesis by auto
  next
    case (Set_local n g)
    have "\<forall>k. (m'(n \<mapsto> g)) k = (m(n \<mapsto> g)) k \<or> k = name \<and> (m'(n \<mapsto> g)) k = Some f"
      using Cons.prems(2) by auto
    moreover have "fold_result run_handler (Some (m(n \<mapsto> g))) q = Inr l"
      using Cons.prems(1) Set_local by simp
    ultimately show ?thesis
      using Cons.IH [of "m(n \<mapsto> g)" "m'(n \<mapsto> g)"] Set_local by (simp del: fun_upd_apply)
  next
    case (Erase_local n)
    let ?e = "\<lambda>m. if m n \<noteq> None then m(n := None) else m"
    have "\<forall>k. ?e m' k = ?e m k \<or> k = name \<and> ?e m' k = Some f" using Cons.prems(2) by auto
    moreover have "fold_result run_handler (Some (?e m)) q = Inr l"
      using Cons.prems(1) Erase_local by simp
    ultimately show ?thesis using Cons.IH [of "?e m" "?e m'"] Erase_local by simp
  qed
qed

lemma cache_inv_get_file [inv_intros]:
  assumes "cache_inv c"
  shows "cache_inv (snd (get_file w name c))"
proof (cases "snd (get_file w name c) = c")
  case False
  then obtain m f where m: "m_file_map_local c w = Some m" "m name = None" "m_file_map c name = Some f"
    and get: "snd (get_file w name c) =
      c\<lparr>m_file_map_local := (m_file_map_local c)(w \<mapsto> m(name \<mapsto> f))\<rparr>"
    by (auto simp: get_file_def get_file_main_def split: option.splits)
  let ?c = "snd (get_file w name c)"
  have "\<exists>l. final_local v ?c = Inr l \<and>
      (v \<in> set (m_iosvcs c) \<longrightarrow> (\<exists>m. l = Some m \<and> m \<subseteq>\<^sub>m m_file_map c))" for v
  proof -
    from assms obtain l where l: "final_local v c = Inr l"
      "v \<in> set (m_iosvcs c) \<longrightarrow> (\<exists>m. l = Some m \<and> m \<subseteq>\<^sub>m m_file_map c)"
      unfolding cache_inv_def by blast
    show ?thesis
    proof (cases "v = w")
      case False
      with l show ?thesis by (simp add: get final_local_def)
    next
      case True
      with l(1) m(1) have run: "fold_result run_handler (Some m) (posted c w) = Inr l"
        by (simp add: final_local_def)
      have copy: "\<forall>n. (m(name \<mapsto> f)) n = m n \<or> n = name \<and> (m(name \<mapsto> f)) n = Some f" by simp
      from run_handlers_copy [OF run copy] obtain l' where
        l': "fold_result run_handler (Some (m(name \<mapsto> f))) (posted c w) = Inr l'"
        "\<forall>m1. l = Some m1 \<longrightarrow> (\<exists>m2. l' = Some m2 \<and> (\<forall>n. m2 n = m1 n \<or> n = name \<and> m2 n = Some f))"
        by (elim exE conjE) (rule that)
      have "v \<in> set (m_iosvcs c) \<longrightarrow> (\<exists>m. l' = Some m \<and> m \<subseteq>\<^sub>m m_file_map c)"
      proof
        assume "v \<in> set (m_iosvcs c)"
        with l(2) obtain m1 where m1: "l = Some m1" "m1 \<subseteq>\<^sub>m m_file_map c" by blast
        with l'(2) obtain m2 where m2: "l' = Some m2" "\<forall>n. m2 n = m1 n \<or> n = name \<and> m2 n = Some f"
          by blast
        have "m2 n = m_file_map c n" if "n \<in> dom m2" for n
        proof -
          from m2(2) consider "m2 n = m1 n" | "n = name" "m2 n = Some f" by blast
          then show ?thesis
          proof cases
            case 1
            then have "n \<in> dom m1" using that by (simp add: dom_def)
            with 1 m1(2) show ?thesis by (simp add: map_le_def)
          qed (simp add: m(3))
        qed
        then have "m2 \<subseteq>\<^sub>m m_file_map c" by (simp add: map_le_def)
        with m2(1) show "\<exists>m. l' = Some m \<and> m \<subseteq>\<^sub>m m_file_map c" by blast
      qed
      with l'(1) True show ?thesis by (simp add: get final_local_def)
    qed
  qed
  with assms show ?thesis by (simp add: cache_inv_def get)
qed (use assms in simp)

lemma final_local_run:
  assumes "run_posted w c = Inr c'"
  shows "final_local v c' = final_local v c"
  using assms by (auto simp: run_posted_def final_local_def split: list.splits sum.splits)

lemma run_posted_frame:
  "run_posted w c = Inr c' \<Longrightarrow> m_file_map c' = m_file_map c \<and> m_iosvcs c' = m_iosvcs c"
  by (auto simp: run_posted_def split: list.splits sum.splits)

lemma cache_inv_run_posted [inv_intros]:
  "cache_inv c \<Longrightarrow> run_posted w c = Inr c' \<Longrightarrow> cache_inv c'"
  by (simp add: cache_inv_def final_local_run run_posted_frame)

lemma run_posted_ok: "cache_inv c \<Longrightarrow> \<exists>c'. run_posted w c = Inr c'"
proof -
  assume "cache_inv c"
  then obtain l where "final_local w c = Inr l" unfolding cache_inv_def by blast
  then show ?thesis by (auto simp: final_local_def run_posted_def split: list.splits sum.splits)
qed

lemma run_until_idle_ok:
  assumes "cache_inv c"
  shows "\<exists>c'. run_until_idle n w c = Inr c' \<and> cache_inv c' \<and> m_file_map c' = m_file_map c \<and>
     m_iosvcs c' = m_iosvcs c \<and> posted c' w = drop n (posted c w) \<and> (\<forall>v. final_local v c' = final_local v c)"
  using assms
proof (induction n arbitrary: c)
  case 0
  then show ?case by simp
next
  case (Suc n)
  from run_posted_ok [OF Suc.prems] obtain c1 where c1: "run_posted w c = Inr c1" by blast
  have "posted c1 w = drop 1 (posted c w)"
    using c1 by (auto simp: run_posted_def split: list.splits sum.splits)
  with Suc.IH [OF cache_inv_run_posted [OF Suc.prems c1]] c1 run_posted_frame [OF c1] show ?case
    by (auto simp: final_local_run [OF c1])
qed

lemma cache_inv_register [inv_intros]:
  assumes "cache_inv c" "w \<notin> set (m_iosvcs c)"
  shows "cache_inv (register_io_service w c)"
proof -
  have "\<exists>l. final_local v (register_io_service w c) = Inr l \<and>
      (v \<in> set (m_iosvcs c @ [w]) \<longrightarrow> (\<exists>m. l = Some m \<and> m \<subseteq>\<^sub>m m_file_map c))" for v
  proof -
    from assms(1) obtain l where l: "final_local v c = Inr l"
      "v \<in> set (m_iosvcs c) \<longrightarrow> (\<exists>m. l = Some m \<and> m \<subseteq>\<^sub>m m_file_map c)"
      unfolding cache_inv_def by blast
    then show ?thesis by (cases "v = w") (simp_all add: register_io_service_def final_local_post)
  qed
  with assms show ?thesis by (simp add: cache_inv_def register_io_service_def frame_simps)
qed

lemma cache_inv_unregister:
  assumes "cache_inv c"
  shows "\<exists>c'. unregister_io_service w c = Inr c' \<and> cache_inv c' \<and>
     m_file_map_local c' w = None \<and> posted c' w = []"
proof -
  let ?c = "post w Reset_local (c\<lparr>m_iosvcs := remove1 w (m_iosvcs c)\<rparr>)"
  have d: "distinct (m_iosvcs c)" using assms by (simp add: cache_inv_def)
  have "\<exists>l. final_local v ?c = Inr l \<and>
      (v \<in> set (remove1 w (m_iosvcs c)) \<longrightarrow> (\<exists>m. l = Some m \<and> m \<subseteq>\<^sub>m m_file_map c))" for v
  proof -
    from assms obtain l where l: "final_local v c = Inr l"
      "v \<in> set (m_iosvcs c) \<longrightarrow> (\<exists>m. l = Some m \<and> m \<subseteq>\<^sub>m m_file_map c)"
      unfolding cache_inv_def by blast
    then show ?thesis using d by (cases "v = w") (simp_all add: final_local_post)
  qed
  then have inv: "cache_inv ?c" using d by (simp add: cache_inv_def frame_simps)
  have "final_local w ?c = Inr None"
  proof -
    from assms obtain l where "final_local w c = Inr l" unfolding cache_inv_def by blast
    then show ?thesis by (simp add: final_local_post)
  qed
  moreover from run_until_idle_ok [OF inv, of "length (posted ?c w)" w] obtain c' where
    c': "run_until_idle (length (posted ?c w)) w ?c = Inr c'" "cache_inv c'"
    "posted c' w = drop (length (posted ?c w)) (posted ?c w)" "final_local w c' = final_local w ?c"
    by blast
  ultimately have "m_file_map_local c' w = None" by (simp add: final_local_def)
  with c' show ?thesis by (simp add: unregister_io_service_def post_wait_def Let_def)
qed

section \<open>Scanning and refreshing\<close>

lemma post_all_fields [frame_simps]:
  "m_file_map (post_all h c) = m_file_map c" "m_iosvcs (post_all h c) = m_iosvcs c"
  "m_directories (post_all h c) = m_directories c"
  by (simp_all add: post_all_def frame_simps)

lemma add_file_main:
  "m_file_map (snd (add_file fs name c)) =
     (if m_good (new_file fs name True) then (m_file_map c)(name \<mapsto> new_file fs name True) else m_file_map c)"
  by (simp add: add_file_def Let_def frame_simps)

lemma remove_file_main: "m_file_map (remove_file name c) = (m_file_map c)(name := None)"
  by (simp add: remove_file_def Let_def frame_simps fun_upd_idem)

text \<open>The files that can be loaded, and what loading them gives.\<close>

definition readable :: "file_system \<Rightarrow> string \<Rightarrow> bool" where
  "readable fs p \<longleftrightarrow> m_good (new_file fs p True)"

lemma readable_iff: "readable fs p \<longleftrightarrow> (\<exists>sz t bytes. fs p = Some (Regular_file sz t (Some bytes)))"
  by (auto simp: readable_def new_file_def Let_def split: option.splits fs_node.splits)

text \<open>The files below a directory.\<close>

inductive below :: "file_system \<Rightarrow> string \<Rightarrow> string \<Rightarrow> bool" for fs where
  entry: "fs d = Some (Directory es) \<Longrightarrow> e \<in> set es \<Longrightarrow>
    (\<forall>es'. fs (path_append d e) \<noteq> Some (Directory es')) \<Longrightarrow> below fs d (path_append d e)"
| sub: "fs d = Some (Directory es) \<Longrightarrow> e \<in> set es \<Longrightarrow> below fs (path_append d e) p \<Longrightarrow> below fs d p"

inductive_cases belowE: "below fs d p"

text \<open>What scanning may change: new names get the file that is there.\<close>

definition scanned :: "file_system \<Rightarrow> file_cache \<Rightarrow> file_cache \<Rightarrow> bool" where
  "scanned fs c c' \<longleftrightarrow> m_file_map c \<subseteq>\<^sub>m m_file_map c' \<and>
     (\<forall>p \<in> dom (m_file_map c') - dom (m_file_map c).
        readable fs p \<and> m_file_map c' p = Some (new_file fs p True))"

lemma scanned_dom: "scanned fs c c' \<Longrightarrow> m_file_map c p \<noteq> None \<Longrightarrow> m_file_map c' p \<noteq> None"
  by (auto simp: scanned_def map_le_def dom_def)

lemma scanned_refl: "scanned fs c c"
  by (simp add: scanned_def)

lemma scanned_trans: "scanned fs c c1 \<Longrightarrow> scanned fs c1 c2 \<Longrightarrow> scanned fs c c2"
  unfolding scanned_def
proof (intro conjI ballI)
  assume 1: "m_file_map c \<subseteq>\<^sub>m m_file_map c1 \<and> (\<forall>p \<in> dom (m_file_map c1) - dom (m_file_map c).
        readable fs p \<and> m_file_map c1 p = Some (new_file fs p True))"
    and 2: "m_file_map c1 \<subseteq>\<^sub>m m_file_map c2 \<and> (\<forall>p \<in> dom (m_file_map c2) - dom (m_file_map c1).
        readable fs p \<and> m_file_map c2 p = Some (new_file fs p True))"
  then show "m_file_map c \<subseteq>\<^sub>m m_file_map c2" by (blast intro: map_le_trans)
  fix p assume p: "p \<in> dom (m_file_map c2) - dom (m_file_map c)"
  show "readable fs p" "m_file_map c2 p = Some (new_file fs p True)"
  proof (atomize (full), cases "p \<in> dom (m_file_map c1)")
    case True
    with 1 p have "readable fs p" "m_file_map c1 p = Some (new_file fs p True)" by auto
    moreover from 2 True have "m_file_map c1 p = m_file_map c2 p" by (simp add: map_le_def)
    ultimately show "readable fs p \<and> m_file_map c2 p = Some (new_file fs p True)" by simp
  next
    case False
    with 2 p show "readable fs p \<and> m_file_map c2 p = Some (new_file fs p True)" by auto
  qed
qed

lemma scanned_add_file:
  "get_file_main p c = None \<Longrightarrow> scanned fs c (snd (add_file fs p c))"
  by (auto simp: scanned_def add_file_main get_file_main_def readable_def map_le_def split: if_splits)

lemma scan_entry_scanned:
  assumes "scan_entry scan fs c p = Some c'" "\<And>c r. scan p c = Some r \<Longrightarrow> scanned fs c (snd r)"
  shows "scanned fs c c'"
  using assms scanned_add_file [of p c fs] scanned_refl [of fs c]
  by (auto simp: scan_entry_def split: option.splits fs_node.splits if_splits)

lemma scan_directory_scanned:
  "scan_directory n fs name c = Some r \<Longrightarrow> scanned fs c (snd r)"
proof (induction n arbitrary: name c r)
  case 0
  then show ?case by simp
next
  case (Suc n)
  show ?case
  proof (cases "\<exists>es. fs name = Some (Directory es)")
    case True
    with Suc.prems obtain es c' where
      fold: "fold_option (scan_entry (scan_directory n fs) fs) c (map (path_append name) es) = Some c'"
      and r: "r = (True, c')" by auto
    from fold have "scanned fs c c'"
    proof (rule fold_option_invariant [where P = "scanned fs c"])
      show "scanned fs c c" by (rule scanned_refl)
      fix c1 p c2 assume "scanned fs c c1" "scan_entry (scan_directory n fs) fs c1 p = Some c2"
      moreover from this(2) have "scanned fs c1 c2" by (rule scan_entry_scanned) (rule Suc.IH)
      ultimately show "scanned fs c c2" by (blast intro: scanned_trans)
    qed
    with r show ?thesis by simp
  next
    case False
    with Suc.prems have "r = (False, c)" by (simp split: option.splits fs_node.splits)
    then show ?thesis by (simp add: scanned_refl)
  qed
qed

text \<open>Every file below the directory that can be loaded is in the cache afterwards.\<close>

lemma scan_directory_complete:
  assumes "below fs d p" "readable fs p"
  shows "scan_directory n fs d c = Some r \<Longrightarrow> m_file_map (snd r) p \<noteq> None"
  using assms
proof (induction arbitrary: n c r rule: below.induct)
  case (entry d es e)
  then obtain m c' where n: "n = Suc m" and r: "r = (True, c')" and
    fold: "fold_option (scan_entry (scan_directory m fs) fs) c (map (path_append d) es) = Some c'"
    by (cases n) auto
  let ?p = "path_append d e"
  have "?p \<in> set (map (path_append d) es)" using entry.hyps(2) by simp
  from fold_option_mem [OF fold this] obtain c1 c2 ps where
    step: "scan_entry (scan_directory m fs) fs c1 ?p = Some c2" and
    rest: "fold_option (scan_entry (scan_directory m fs) fs) c2 ps = Some c'" by blast
  have "m_file_map c2 ?p \<noteq> None"
    using step entry.hyps(3) entry.prems(2)
    by (auto simp: scan_entry_def add_file_main readable_def get_file_main_def
        split: option.splits fs_node.splits if_splits)
  from rest this have "m_file_map c' ?p \<noteq> None"
  proof (rule fold_option_invariant [where P = "\<lambda>c. m_file_map c ?p \<noteq> None"])
    fix a q b assume "m_file_map a ?p \<noteq> None" "scan_entry (scan_directory m fs) fs a q = Some b"
    moreover from this(2) have "scanned fs a b"
      by (rule scan_entry_scanned) (rule scan_directory_scanned)
    ultimately show "m_file_map b ?p \<noteq> None" by (metis scanned_dom)
  qed
  with r show ?case by simp
next
  case (sub d es e p)
  then obtain m c' where n: "n = Suc m" and r: "r = (True, c')" and
    fold: "fold_option (scan_entry (scan_directory m fs) fs) c (map (path_append d) es) = Some c'"
    by (cases n) auto
  let ?p = "path_append d e"
  have "?p \<in> set (map (path_append d) es)" using sub.hyps(2) by simp
  from fold_option_mem [OF fold this] obtain c1 c2 ps where
    step: "scan_entry (scan_directory m fs) fs c1 ?p = Some c2" and
    rest: "fold_option (scan_entry (scan_directory m fs) fs) c2 ps = Some c'" by blast
  from sub.hyps(3) obtain es' where "fs ?p = Some (Directory es')" by (auto elim: belowE)
  with step obtain r' where "scan_directory m fs ?p c1 = Some r'" "c2 = snd r'"
    by (auto simp: scan_entry_def)
  with sub.IH sub.prems(2) have "m_file_map c2 p \<noteq> None" by blast
  from rest this have "m_file_map c' p \<noteq> None"
  proof (rule fold_option_invariant [where P = "\<lambda>c. m_file_map c p \<noteq> None"])
    fix a q b assume "m_file_map a p \<noteq> None" "scan_entry (scan_directory m fs) fs a q = Some b"
    moreover from this(2) have "scanned fs a b"
      by (rule scan_entry_scanned) (rule scan_directory_scanned)
    ultimately show "m_file_map b p \<noteq> None" by (metis scanned_dom)
  qed
  with r show ?case by simp
qed

text \<open>Fuel of the depth of the directory tree is enough.\<close>

fun depth_le :: "nat \<Rightarrow> file_system \<Rightarrow> string \<Rightarrow> bool" where
  "depth_le 0 fs p = False"
| "depth_le (Suc n) fs p =
     (case fs p of
        Some (Directory es) \<Rightarrow>
          list_all (\<lambda>q. (\<forall>es'. fs q \<noteq> Some (Directory es')) \<or> depth_le n fs q) (map (path_append p) es)
      | _ \<Rightarrow> True)"

lemma scan_directory_returns: "depth_le n fs name \<Longrightarrow> \<exists>r. scan_directory n fs name c = Some r"
proof (induction n arbitrary: name c)
  case 0
  then show ?case by simp
next
  case (Suc n)
  show ?case
  proof (cases "\<exists>es. fs name = Some (Directory es)")
    case True
    then obtain es where es: "fs name = Some (Directory es)" by blast
    have "\<exists>c'. fold_option (scan_entry (scan_directory n fs) fs) c ps = Some c'"
      if "list_all (\<lambda>q. (\<forall>es'. fs q \<noteq> Some (Directory es')) \<or> depth_le n fs q) ps" for c ps
      using that
    proof (induction ps arbitrary: c)
      case (Cons q ps)
      have "\<exists>c1. scan_entry (scan_directory n fs) fs c q = Some c1"
      proof (cases "\<exists>es'. fs q = Some (Directory es')")
        case True
        with Cons.prems have "depth_le n fs q" by auto
        from Suc.IH [OF this, of c] True show ?thesis by (auto simp: scan_entry_def)
      next
        case False
        then show ?thesis by (simp add: scan_entry_def split: option.split fs_node.split)
      qed
      with Cons show ?case by auto
    qed simp
    from this [of "map (path_append name) es" c] Suc.prems es show ?thesis by auto
  next
    case False
    then have "scan_directory (Suc n) fs name c = Some (False, c)"
      by (auto split: option.split fs_node.split)
    then show ?thesis by blast
  qed
qed

lemma cache_inv_scan_directory [inv_intros]:
  "scan_directory n fs name c = Some r \<Longrightarrow> cache_inv c \<Longrightarrow> cache_inv (snd r)"
proof (induction n arbitrary: name c r)
  case 0
  then show ?case by simp
next
  case (Suc n)
  show ?case
  proof (cases "\<exists>es. fs name = Some (Directory es)")
    case True
    with Suc.prems obtain es c' where
      fold: "fold_option (scan_entry (scan_directory n fs) fs) c (map (path_append name) es) = Some c'"
      and r: "r = (True, c')" by auto
    from fold Suc.prems(2) have "cache_inv c'"
    proof (rule fold_option_invariant)
      fix c1 p c2 assume "cache_inv c1" "scan_entry (scan_directory n fs) fs c1 p = Some c2"
      then show "cache_inv c2"
        using Suc.IH cache_inv_add_file
        by (auto simp: scan_entry_def split: option.splits fs_node.splits if_splits)
    qed
    with r show ?thesis by simp
  next
    case False
    with Suc.prems show ?thesis by (auto split: option.splits fs_node.splits)
  qed
qed

lemma cache_inv_directories [inv_intros]: "cache_inv c \<Longrightarrow> cache_inv (c\<lparr>m_directories := ds\<rparr>)"
  by (simp add: cache_inv_def)

lemma cache_inv_add_directory [inv_intros]:
  "add_directory n fs name c = Some (ok, c') \<Longrightarrow> cache_inv c \<Longrightarrow> cache_inv c'"
  using cache_inv_scan_directory
  by (fastforce simp: add_directory_def split: option.splits if_splits intro: inv_intros)

lemma cache_inv_fold_add [inv_intros]:
  "cache_inv c \<Longrightarrow> cache_inv (fold (\<lambda>name c. snd (add_file fs name c)) names c)"
  by (induction names arbitrary: c) (simp_all add: inv_intros)

lemma cache_inv_fold_remove [inv_intros]: "cache_inv c \<Longrightarrow> cache_inv (fold remove_file names c)"
  by (induction names arbitrary: c) (simp_all add: inv_intros)

lemma cache_inv_refresh [inv_intros]:
  assumes "refresh n fs dirs names c = Some c'" "cache_inv c"
  shows "cache_inv c'"
proof -
  from assms(1) obtain c1 where c1: "scan_all n fs dirs c = Some c1" "c' = update_existing fs names c1"
    by (auto simp: refresh_def split: option.splits)
  from c1(1) assms(2) have "cache_inv c1"
    unfolding scan_all_def
  proof (rule fold_option_invariant)
    fix a q b assume "cache_inv a" "map_option snd (scan_directory n fs q a) = Some b"
    then show "cache_inv b" using cache_inv_scan_directory by fastforce
  qed
  then show ?thesis by (simp add: c1(2) update_existing_def Let_def inv_intros)
qed

lemma fold_add_main:
  "m_file_map (fold (\<lambda>name c. snd (add_file fs name c)) names c) p =
     (if p \<in> set names \<and> readable fs p then Some (new_file fs p True) else m_file_map c p)"
  by (induction names arbitrary: c) (auto simp: add_file_main readable_def)

lemma fold_remove_main:
  "m_file_map (fold remove_file names c) p = (if p \<in> set names then None else m_file_map c p)"
  by (induction names arbitrary: c) (auto simp: remove_file_main)

lemma scan_all_found:
  assumes "scan_all n fs dirs c = Some c1" "d \<in> set dirs" "below fs d p" "readable fs p"
  shows "m_file_map c1 p \<noteq> None"
proof -
  let ?f = "\<lambda>c dir. map_option snd (scan_directory n fs dir c)"
  from fold_option_mem [OF assms(1) [unfolded scan_all_def] assms(2)] obtain a b ds where
    step: "?f a d = Some b" "fold_option ?f b ds = Some c1" by blast
  then have "m_file_map b p \<noteq> None" using scan_directory_complete [OF assms(3,4)] by auto
  from step(2) this show ?thesis
  proof (rule fold_option_invariant [where P = "\<lambda>c. m_file_map c p \<noteq> None"])
    fix a q b assume "m_file_map a p \<noteq> None" "?f a q = Some b"
    moreover from this(2) have "scanned fs a b" using scan_directory_scanned by fastforce
    ultimately show "m_file_map b p \<noteq> None" by (metis scanned_dom)
  qed
qed

lemma scan_all_scanned:
  assumes "scan_all n fs dirs c = Some c1"
  shows "scanned fs c c1"
  using assms [unfolded scan_all_def] scanned_refl
proof (rule fold_option_invariant)
  fix a q b assume "scanned fs c a" "map_option snd (scan_directory n fs q a) = Some b"
  moreover from this(2) have "scanned fs a b" using scan_directory_scanned by fastforce
  ultimately show "scanned fs c b" by (blast intro: scanned_trans)
qed

text \<open>
  C32. A round of the refresh loop brings the main map up to date with the file system: a name
  that no longer exists is gone, and every file that can be read and was cached before or lies
  below a registered directory is cached with its present size and time.
\<close>
theorem refresh_current:
  assumes "scan_all n fs dirs c = Some c1" "set names = dom (m_file_map c1)"
  shows "\<exists>c'. refresh n fs dirs names c = Some c' \<and>
     (\<forall>p. (fs p = None \<longrightarrow> m_file_map c' p = None) \<and>
          (readable fs p \<and> (m_file_map c p \<noteq> None \<or> (\<exists>d \<in> set dirs. below fs d p)) \<longrightarrow>
           (\<exists>f. m_file_map c' p = Some f \<and> \<not> file_neq f (new_file fs p True))))"
proof -
  let ?c' = "update_existing fs names c1"
  have run: "refresh n fs dirs names c = Some ?c'" using assms(1) by (simp add: refresh_def)
  let ?changed = "\<lambda>p. case m_file_map c1 p of Some f \<Rightarrow> file_neq f (new_file fs p False) | None \<Rightarrow> False"
  have main: "m_file_map ?c' p = (if p \<in> set names \<and> fs p = None then None
      else if p \<in> set names \<and> fs p \<noteq> None \<and> ?changed p \<and> readable fs p then Some (new_file fs p True)
      else m_file_map c1 p)" for p
    by (cases "fs p") (simp_all add: update_existing_def Let_def fold_remove_main fold_add_main)
  have "m_file_map ?c' p = None" if "fs p = None" for p
    using main [of p] assms(2) that by (cases "p \<in> set names") (auto simp: dom_def)
  moreover have "\<exists>f. m_file_map ?c' p = Some f \<and> \<not> file_neq f (new_file fs p True)"
    if r: "readable fs p" and known: "m_file_map c p \<noteq> None \<or> (\<exists>d \<in> set dirs. below fs d p)" for p
  proof -
    have "m_file_map c1 p \<noteq> None"
      using known scan_all_found [OF assms(1) _ _ r] scanned_dom [OF scan_all_scanned [OF assms(1)]]
      by blast
    then obtain f where f: "m_file_map c1 p = Some f" "p \<in> set names" using assms(2) by auto
    have "fs p \<noteq> None" using r by (auto simp: readable_iff)
    moreover have "file_neq f (new_file fs p False) = file_neq f (new_file fs p True)"
      using r by (auto simp: readable_iff new_file_def file_neq_def Let_def)
    ultimately have "m_file_map ?c' p =
        (if file_neq f (new_file fs p True) then Some (new_file fs p True) else Some f)"
      using main [of p] f r by simp
    then show ?thesis by (simp add: file_neq_def)
  qed
  ultimately show ?thesis using run by (intro exI [of _ ?c']) simp
qed

text \<open>The file system of the examples: a directory with one file.\<close>

definition sample_fs :: file_system where
  "sample_fs = [''/www'' \<mapsto> Directory [''a''], ''/www/a'' \<mapsto> Regular_file 2 7 (Some ''hi'')]"

lemma sample_fs_scan:
  "scan_directory 2 sample_fs ''/www'' c =
     Some (True, if m_file_map c ''/www/a'' = None then snd (add_file sample_fs ''/www/a'' c) else c)"
  by (simp add: numeral_2_eq_2 sample_fs_def scan_entry_def path_append_def get_file_main_def)

theorem refresh_current_witness:
  "\<exists>c'. refresh 2 sample_fs [''/www''] [''/www/a''] new_file_cache = Some c' \<and>
     (\<exists>f. m_file_map c' ''/www/a'' = Some f \<and> m_size f = 2 \<and> m_time f = 7)"
proof -
  let ?c1 = "snd (add_file sample_fs ''/www/a'' new_file_cache)"
  have scan: "scan_all 2 sample_fs [''/www''] new_file_cache = Some ?c1"
    by (simp add: scan_all_def sample_fs_scan new_file_cache_def)
  have "set [''/www/a''] = dom (m_file_map ?c1)"
    by (simp add: add_file_main new_file_def sample_fs_def new_file_cache_def)
  from refresh_current [OF scan this] obtain c' where
    c': "refresh 2 sample_fs [''/www''] [''/www/a''] new_file_cache = Some c'" and
    found: "readable sample_fs ''/www/a'' \<and> (\<exists>d \<in> set [''/www'']. below sample_fs d ''/www/a'') \<longrightarrow>
       (\<exists>f. m_file_map c' ''/www/a'' = Some f \<and> \<not> file_neq f (new_file sample_fs ''/www/a'' True))"
    by blast
  have "below sample_fs ''/www'' (path_append ''/www'' ''a'')"
    by (rule below.entry [of _ _ "[''a'']"]) (simp_all add: sample_fs_def path_append_def)
  then have "below sample_fs ''/www'' ''/www/a''" by (simp add: path_append_def)
  moreover have "readable sample_fs ''/www/a''" by (simp add: readable_iff sample_fs_def)
  ultimately obtain f where "m_file_map c' ''/www/a'' = Some f"
    "\<not> file_neq f (new_file sample_fs ''/www/a'' True)" using found by auto
  with c' show ?thesis by (auto simp: file_neq_def new_file_def sample_fs_def)
qed

section \<open>What a worker serves\<close>

text \<open>The calls of the cache, and the workers' threads running what was posted, in any order.\<close>

inductive cache_step :: "file_cache \<Rightarrow> file_cache \<Rightarrow> bool" where
  add: "cache_step c (snd (add_file fs name c))"
| remove: "cache_step c (remove_file name c)"
| add_dir: "add_directory n fs name c = Some (ok, c') \<Longrightarrow> cache_step c c'"
| refresh: "refresh n fs dirs names c = Some c' \<Longrightarrow> cache_step c c'"
| register: "w \<notin> set (m_iosvcs c) \<Longrightarrow> cache_step c (register_io_service w c)"
| unregister: "unregister_io_service w c = Inr c' \<Longrightarrow> cache_step c c'"
| run: "run_posted w c = Inr c' \<Longrightarrow> cache_step c c'"
| get: "cache_step c (snd (get_file w name c))"

inductive cache_reachable :: "file_cache \<Rightarrow> bool" where
  init: "cache_reachable new_file_cache"
| step: "cache_reachable c \<Longrightarrow> cache_step c c' \<Longrightarrow> cache_reachable c'"

lemma cache_inv_step: "cache_step c c' \<Longrightarrow> cache_inv c \<Longrightarrow> cache_inv c'"
proof (induction rule: cache_step.induct)
  case (unregister w c c')
  with cache_inv_unregister [of c w] show ?case by auto
qed (auto intro: inv_intros)

lemma cache_inv_reachable: "cache_reachable c \<Longrightarrow> cache_inv c"
  by (induction rule: cache_reachable.induct) (auto intro: cache_inv_new cache_inv_step)

text \<open>A worker that has run its handlers serves the main map.\<close>

lemma cache_inv_drained:
  assumes "cache_inv c" "w \<in> set (m_iosvcs c)" "posted c w = []"
  shows "fst (get_file w name c) = m_file_map c name"
proof -
  from assms obtain m where m: "m_file_map_local c w = Some m" "m \<subseteq>\<^sub>m m_file_map c"
    by (auto simp: cache_inv_def final_local_def)
  show ?thesis
  proof (cases "m name")
    case None
    then show ?thesis by (simp add: get_file_def get_file_main_def m(1) split: option.split)
  next
    case (Some f)
    with m(2) have "m_file_map c name = Some f" by (metis domI map_le_def)
    with Some show ?thesis by (simp add: get_file_def m(1))
  qed
qed


text \<open>A worker's cache with one file, everything run.\<close>

definition sample_cache :: file_cache where
  "sample_cache = snd (add_file sample_fs ''/www/a'' (register_io_service 0 new_file_cache))"

lemma sample_cache_reachable: "cache_reachable sample_cache"
proof -
  have "cache_reachable (register_io_service 0 new_file_cache)"
    by (rule cache_reachable.step [OF cache_reachable.init cache_step.register])
      (simp add: new_file_cache_def)
  then show ?thesis
    unfolding sample_cache_def by (rule cache_reachable.step [OF _ cache_step.add])
qed


section \<open>Removing a file while a worker serves it\<close>

text \<open>
  \<open>remove_file\<close> in the two stages it really has: posting to the workers, and then, under the
  lock, erasing from the main map. A worker may run in between.
\<close>

definition erase_main :: "string \<Rightarrow> file_cache \<Rightarrow> file_cache" where
  "erase_main name c = (if m_file_map c name \<noteq> None then c\<lparr>m_file_map := (m_file_map c)(name := None)\<rparr> else c)"

lemma remove_file_stages: "remove_file name c = erase_main name (post_all (Erase_local name) c)"
  by (simp add: remove_file_def erase_main_def Let_def)

text \<open>A worker that will serve a file although the main map does not have it.\<close>

definition serves_removed :: "nat \<Rightarrow> string \<Rightarrow> file_cache \<Rightarrow> bool" where
  "serves_removed w name c \<longleftrightarrow> m_file_map c name = None \<and> distinct (m_iosvcs c) \<and>
     (\<exists>m. final_local w c = Inr (Some m) \<and> m name \<noteq> None)"

lemma serves_removed_post_all:
  assumes "serves_removed w name c"
    and "\<And>m. m name \<noteq> None \<Longrightarrow> \<exists>m'. run_handler (Some m) h = Inr (Some m') \<and> m' name \<noteq> None"
  shows "serves_removed w name (post_all h c)"
proof -
  from assms(1) obtain m where m: "final_local w c = Inr (Some m)" "m name \<noteq> None"
    "distinct (m_iosvcs c)" by (auto simp: serves_removed_def)
  from assms(2) [of m] m(2) obtain m' where m': "run_handler (Some m) h = Inr (Some m')" "m' name \<noteq> None"
    by blast
  have "\<exists>m. final_local w (post_all h c) = Inr (Some m) \<and> m name \<noteq> None"
    using m m' by (cases "w \<in> set (m_iosvcs c)") (simp_all add: post_all_def final_local_fold_post)
  with assms(1) show ?thesis by (simp add: serves_removed_def frame_simps)
qed

lemma serves_removed_add:
  assumes "serves_removed w name c" "\<not> readable fs name"
  shows "serves_removed w name (snd (add_file fs p c))"
proof (cases "readable fs p")
  case True
  with assms(2) have "p \<noteq> name" by auto
  with serves_removed_post_all [OF assms(1), of "Set_local p (new_file fs p True)"]
  have "serves_removed w name (post_all (Set_local p (new_file fs p True)) c)" by simp
  with True \<open>p \<noteq> name\<close> show ?thesis
    by (simp add: add_file_def Let_def serves_removed_def readable_def)
next
  case False
  with assms(1) show ?thesis by (simp add: add_file_def Let_def readable_def)
qed

lemma serves_removed_remove:
  assumes "serves_removed w name c" "p \<noteq> name"
  shows "serves_removed w name (remove_file p c)"
proof -
  have "serves_removed w name (post_all (Erase_local p) c)"
    by (rule serves_removed_post_all [OF assms(1)]) (use assms(2) in auto)
  then show ?thesis by (auto simp: remove_file_stages erase_main_def serves_removed_def)
qed

lemma serves_removed_scan:
  "scan_directory n fs d c = Some r \<Longrightarrow> serves_removed w name c \<Longrightarrow> \<not> readable fs name \<Longrightarrow>
   serves_removed w name (snd r)"
proof (induction n arbitrary: d c r)
  case 0
  then show ?case by simp
next
  case (Suc n)
  show ?case
  proof (cases "\<exists>es. fs d = Some (Directory es)")
    case True
    with Suc.prems obtain es c' where
      fold: "fold_option (scan_entry (scan_directory n fs) fs) c (map (path_append d) es) = Some c'"
      and r: "r = (True, c')" by auto
    from fold Suc.prems(2) have "serves_removed w name c'"
    proof (rule fold_option_invariant)
      fix c1 p c2 assume "serves_removed w name c1" "scan_entry (scan_directory n fs) fs c1 p = Some c2"
      then show "serves_removed w name c2"
        using Suc.IH Suc.prems(3) serves_removed_add
        by (auto simp: scan_entry_def split: option.splits fs_node.splits if_splits)
    qed
    with r show ?thesis by simp
  next
    case False
    with Suc.prems show ?thesis by (auto split: option.splits fs_node.splits)
  qed
qed

lemma serves_removed_refresh:
  assumes "scan_all n fs dirs c = Some c1" "set names = dom (m_file_map c1)"
    and "refresh n fs dirs names c = Some c'" "serves_removed w name c" "\<not> readable fs name"
  shows "serves_removed w name c'"
proof -
  from assms(1,4) have c1: "serves_removed w name c1"
    unfolding scan_all_def
  proof (rule fold_option_invariant)
    fix a q b assume "serves_removed w name a" "map_option snd (scan_directory n fs q a) = Some b"
    then show "serves_removed w name b" using serves_removed_scan assms(5) by fastforce
  qed
  have add: "serves_removed w name (fold (\<lambda>name c. snd (add_file fs name c)) ps c)"
    if "serves_removed w name c" for ps c
    using that by (induction ps arbitrary: c) (simp_all add: serves_removed_add assms(5))
  have remove: "serves_removed w name (fold remove_file ps c)"
    if "serves_removed w name c" "name \<notin> set ps" for ps c
    using that
  proof (induction ps arbitrary: c)
    case (Cons p ps)
    then have "serves_removed w name (remove_file p c)" by (intro serves_removed_remove) auto
    with Cons show ?case by simp
  qed simp
  have "name \<notin> set names" using c1 assms(2) by (simp add: serves_removed_def dom_def)
  with assms(1,3) show ?thesis
    by (auto simp: refresh_def update_existing_def Let_def intro!: remove add c1)
qed

text \<open>
  Removing a file is not safe against a worker serving it: when a worker's thread runs the
  posted erase and serves the file once more before it is erased from the main map, it caches
  the file again, serves it although the main map does not have it, and no further round of the
  refresh loop takes it away while the file is gone.
\<close>
theorem remove_file_race:
  assumes "cache_reachable c" "w \<in> set (m_iosvcs c)" "posted c w = []" "m_file_map c name = Some f"
  shows "\<exists>c1 c2 c3. run_posted w (post_all (Erase_local name) c) = Inr c1 \<and>
     get_file w name c1 = (Some f, c2) \<and> c3 = erase_main name c2 \<and>
     m_file_map c3 name = None \<and> posted c3 w = [] \<and> fst (get_file w name c3) = Some f \<and>
     (\<forall>n fs dirs names c4 c5. scan_all n fs dirs c3 = Some c4 \<and> set names = dom (m_file_map c4) \<and>
        fs name = None \<and> refresh n fs dirs names c3 = Some c5 \<longrightarrow>
        m_file_map c5 name = None \<and> (\<exists>m. final_local w c5 = Inr (Some m) \<and> m name \<noteq> None))"
proof -
  have inv: "cache_inv c" using assms(1) by (rule cache_inv_reachable)
  then obtain m where m: "m_file_map_local c w = Some m" and d: "distinct (m_iosvcs c)"
    using assms(2,3) by (auto simp: cache_inv_def final_local_def)
  let ?c = "post_all (Erase_local name) c"
  let ?m = "if m name \<noteq> None then m(name := None) else m"
  have "posted (fold (\<lambda>w c. post w h c) ws c) w =
      posted c w @ (if w \<in> set ws then [h] else [])" if "distinct ws" for ws c h
    using that by (induction ws arbitrary: c) (auto simp: post_def)
  with d assms(2,3) have q: "posted ?c w = [Erase_local name]" by (simp add: post_all_def)
  let ?c1 = "?c\<lparr>m_file_map_local := (m_file_map_local ?c)(w \<mapsto> ?m), posted := (posted ?c)(w := [])\<rparr>"
  have loc: "m_file_map_local ?c = m_file_map_local c" by (simp add: post_all_def frame_simps)
  have run: "run_posted w ?c = Inr ?c1" using q m by (simp add: run_posted_def loc)
  let ?c2 = "?c1\<lparr>m_file_map_local := (m_file_map_local ?c1)(w \<mapsto> ?m(name \<mapsto> f))\<rparr>"
  have get: "get_file w name ?c1 = (Some f, ?c2)"
    using assms(4) by (simp add: get_file_def get_file_main_def frame_simps)
  let ?c3 = "erase_main name ?c2"
  have c3: "m_file_map ?c3 name = None" "posted ?c3 w = []" "m_file_map_local ?c3 w = Some (?m(name \<mapsto> f))"
    "m_iosvcs ?c3 = m_iosvcs c"
    by (simp_all add: erase_main_def frame_simps)
  then have served: "serves_removed w name ?c3"
    using d by (simp add: serves_removed_def final_local_def)
  have again: "fst (get_file w name ?c3) = Some f" using c3(3) by (simp add: get_file_def)
  have keeps: "m_file_map c5 name = None \<and> (\<exists>m. final_local w c5 = Inr (Some m) \<and> m name \<noteq> None)"
    if "scan_all n fs dirs ?c3 = Some c4 \<and> set names = dom (m_file_map c4) \<and>
      fs name = None \<and> refresh n fs dirs names ?c3 = Some c5" for n fs dirs names c4 c5
    using serves_removed_refresh [of n fs dirs ?c3 c4 names c5 w name] served that
    by (simp add: serves_removed_def readable_iff)
  have kept: "\<forall>n fs dirs names c4 c5. scan_all n fs dirs ?c3 = Some c4 \<and> set names = dom (m_file_map c4) \<and>
        fs name = None \<and> refresh n fs dirs names ?c3 = Some c5 \<longrightarrow>
        m_file_map c5 name = None \<and> (\<exists>m. final_local w c5 = Inr (Some m) \<and> m name \<noteq> None)"
    by (intro allI impI; rule keeps)
  show ?thesis
    by (intro exI conjI; (rule run | rule get | rule refl | rule c3(1,2) | rule again | rule kept))
qed

theorem remove_file_race_witness:
  "\<exists>c c1 c2. cache_reachable c \<and> run_posted 0 (post_all (Erase_local ''/www/a'') c) = Inr c1 \<and>
     get_file 0 ''/www/a'' c1 = (Some (new_file sample_fs ''/www/a'' True), c2) \<and>
     m_file_map (erase_main ''/www/a'' c2) ''/www/a'' = None \<and>
     fst (get_file 0 ''/www/a'' (erase_main ''/www/a'' c2)) = Some (new_file sample_fs ''/www/a'' True)"
proof -
  obtain c where run: "run_until_idle 2 0 sample_cache = Inr c" and c: "posted c 0 = []"
    "m_iosvcs c = m_iosvcs sample_cache" "m_file_map c = m_file_map sample_cache"
    using run_until_idle_ok [OF cache_inv_reachable [OF sample_cache_reachable], of 2 0]
    by (auto simp: sample_cache_def add_file_def register_io_service_def new_file_cache_def
        post_all_def post_def new_file_def sample_fs_def Let_def)
  have "cache_reachable c' \<Longrightarrow> run_until_idle n w c' = Inr c'' \<Longrightarrow> cache_reachable c''" for n w c' c''
  proof (induction n arbitrary: c')
    case (Suc n)
    then obtain c1 where "run_posted w c' = Inr c1" "run_until_idle n w c1 = Inr c''"
      by (auto split: sum.splits)
    with Suc.IH [of c1] Suc.prems(1) show ?case by (blast intro: cache_reachable.step cache_step.run)
  qed simp
  then have reach: "cache_reachable c" using sample_cache_reachable run by blast
  have "0 \<in> set (m_iosvcs c)" "m_file_map c ''/www/a'' = Some (new_file sample_fs ''/www/a'' True)"
    by (simp_all add: c sample_cache_def add_file_def register_io_service_def new_file_cache_def
        post_all_def post_def new_file_def sample_fs_def Let_def)
  from remove_file_race [OF reach this(1) c(1) this(2)] reach show ?thesis by blast
qed

section \<open>A directory added\<close>

text \<open>The threads' own maps change only in their handlers.\<close>

lemma add_file_local [frame_simps]: "m_file_map_local (snd (add_file fs name c)) = m_file_map_local c"
  by (simp add: add_file_def Let_def post_all_def frame_simps)

lemma scan_directory_local:
  "scan_directory n fs name c = Some r \<Longrightarrow> m_file_map_local (snd r) = m_file_map_local c"
proof (induction n arbitrary: name c r)
  case 0
  then show ?case by simp
next
  case (Suc n)
  show ?case
  proof (cases "\<exists>es. fs name = Some (Directory es)")
    case True
    with Suc.prems obtain es c' where
      fold: "fold_option (scan_entry (scan_directory n fs) fs) c (map (path_append name) es) = Some c'"
      and r: "r = (True, c')" by auto
    from fold have "m_file_map_local c' = m_file_map_local c"
    proof (rule fold_option_invariant [where P = "\<lambda>c1. m_file_map_local c1 = m_file_map_local c"])
      fix c1 p c2
      assume "m_file_map_local c1 = m_file_map_local c" "scan_entry (scan_directory n fs) fs c1 p = Some c2"
      then show "m_file_map_local c2 = m_file_map_local c"
        using Suc.IH [of p c1] by (auto simp: scan_entry_def frame_simps split: option.splits fs_node.splits if_splits)
    qed simp
    with r show ?thesis by simp
  next
    case False
    with Suc.prems have "r = (False, c)" by (simp split: option.splits fs_node.splits)
    then show ?thesis by simp
  qed
qed

text \<open>A successful \<open>add_directory\<close>: the files below are cached, with what they hold if they are new.\<close>

lemma add_directory_result:
  assumes "add_directory n fs d c = Some (True, c')"
  shows "scanned fs c c' \<and> m_file_map_local c' = m_file_map_local c \<and>
    (\<forall>p. below fs d p \<and> readable fs p \<longrightarrow> m_file_map c' p \<noteq> None)"
proof -
  from assms obtain c1 where c1: "scan_directory n fs d c = Some (True, c1)"
    "c' = c1\<lparr>m_directories := insert d (m_directories c1)\<rparr>"
    by (auto simp: add_directory_def split: option.splits if_splits)
  with scan_directory_scanned [OF c1(1)] scan_directory_local [OF c1(1)] scan_directory_complete [OF _ _ c1(1)]
  show ?thesis by (auto simp: scanned_def)
qed

text \<open>The names below a directory begin with its own.\<close>

lemma path_append_prefix: "prefix d (path_append d e)"
  by (simp add: path_append_def)

lemma below_prefix: "below fs d p \<Longrightarrow> prefix d p"
proof (induction rule: below.induct)
  case (sub d es e p)
  with path_append_prefix show ?case by (meson prefix_order.trans)
qed (rule path_append_prefix)

end
