(* ===== verification/Options.thy ===== *)
theory Options
  imports Prelude
begin

text \<open>
  The command line and configuration file (\<open>src/core/options.cpp\<close>, \<open>options.h\<close>): the table of
  options, the order in which \<open>options::parse\<close> stores values, and the accessors. Splitting
  arguments and files into values is boost's \<open>program_options\<close>, a parameter; its \<open>store\<close> and
  \<open>notify\<close> are written out as documented (the first stored value wins over later ones, and any
  stored value over a default).
\<close>

datatype opt_value = Int_value int | String_value string | No_value

text \<open>\<open>bpo::variables_map\<close>: the values, and whether a value is only the default.\<close>

type_synonym variables_map = "string \<rightharpoonup> opt_value \<times> bool"

datatype opt_spec =
    Flag
  | Value_int "int option"
  | Value_string "string option"
  | Required_string

fun opt_default :: "opt_spec \<Rightarrow> opt_value option" where
  "opt_default (Value_int (Some i)) = Some (Int_value i)"
| "opt_default (Value_string (Some s)) = Some (String_value s)"
| "opt_default _ = None"

type_synonym options_description = "(string \<times> opt_spec) list"

definition desc_help :: options_description where
  "desc_help =
     [(''help'', Flag), (''version'', Flag), (''config'', Value_string None), (''test'', Flag)]"

definition desc_srv :: options_description where
  "desc_srv =
     [(''server.workers'', Value_int (Some 1)),
      (''server.listen'', Value_string (Some '''')),
      (''server.port'', Value_string (Some ''8585'')),
      (''server.backlog'', Value_int (Some 0)),
      (''server.tls'', Flag),
      (''server.key-file'', Value_string None),
      (''server.crt-file'', Value_string None),
      (''server.http1'', Flag),
      (''server.dns-cache-ttl'', Value_int (Some 5))]"

definition desc_lua :: options_description where
  "desc_lua =
     [(''lua.root'', Required_string),
      (''lua.statebuffer'', Value_int (Some 500)),
      (''lua.devmode'', Flag)]"

definition desc_log :: options_description where
  "desc_log = [(''log.syslog'', Flag), (''log.level'', Value_int (Some 6))]"

definition desc_metrics :: options_description where
  "desc_metrics =
     [(''metrics.log'', Value_int (Some 0)),
      (''metrics.graphite'', Flag),
      (''metrics.graphite.interval'', Value_int (Some 10)),
      (''metrics.graphite.host'', Value_string None),
      (''metrics.graphite.port'', Value_string (Some ''2003'')),
      (''metrics.graphite.prefix'', Value_string (Some ''petrel''))]"

definition desc_file :: options_description where
  "desc_file = desc_srv @ desc_lua @ desc_log @ desc_metrics"

definition desc_all :: options_description where
  "desc_all = desc_help @ desc_file"

text \<open>\<open>bpo::store\<close>: the parsed values, then the defaults of the description's other options.\<close>

definition store_value :: "variables_map \<Rightarrow> string \<times> opt_value \<Rightarrow> variables_map" where
  "store_value opts p =
     (case opts (fst p) of
        Some (v, False) \<Rightarrow> opts
      | _ \<Rightarrow> opts(fst p \<mapsto> (snd p, False)))"

definition store_default :: "variables_map \<Rightarrow> string \<times> opt_spec \<Rightarrow> variables_map" where
  "store_default opts p =
     (case (opts (fst p), opt_default (snd p)) of
        (None, Some v) \<Rightarrow> opts(fst p \<mapsto> (v, True))
      | _ \<Rightarrow> opts)"

definition bpo_store :: "(string \<times> opt_value) list \<Rightarrow> options_description \<Rightarrow> variables_map \<Rightarrow> variables_map" where
  "bpo_store parsed desc opts = foldl store_default (foldl store_value opts parsed) desc"

text \<open>\<open>bpo::notify\<close> throws when a required option has no value.\<close>

definition bpo_notify :: "options_description \<Rightarrow> variables_map \<Rightarrow> unit result" where
  "bpo_notify desc opts =
     (if list_all (\<lambda>(name, spec). spec = Required_string \<longrightarrow> opts name \<noteq> None) desc
      then Inr () else Inl (Runtime_error ''required_option''))"

section \<open>Accessors\<close>

definition is_set :: "variables_map \<Rightarrow> string \<Rightarrow> bool" where
  "is_set opts name \<longleftrightarrow> opts name \<noteq> None"

text \<open>\<open>opts[name].as<T>()\<close>.\<close>

definition as_int :: "variables_map \<Rightarrow> string \<Rightarrow> int result" where
  "as_int opts name = (case opts name of Some (Int_value i, _) \<Rightarrow> Inr i | _ \<Rightarrow> Inl Bad_any_cast)"

definition as_string :: "variables_map \<Rightarrow> string \<Rightarrow> string result" where
  "as_string opts name = (case opts name of Some (String_value s, _) \<Rightarrow> Inr s | _ \<Rightarrow> Inl Bad_any_cast)"

definition get_int :: "variables_map \<Rightarrow> string \<Rightarrow> int \<Rightarrow> int result" where
  "get_int opts name default_val = (if is_set opts name then as_int opts name else Inr default_val)"

definition get_string :: "variables_map \<Rightarrow> string \<Rightarrow> string \<Rightarrow> string result" where
  "get_string opts name default_val =
     (if is_set opts name then as_string opts name else Inr default_val)"

text \<open>
  \<open>options::parse\<close> from an empty \<open>opts\<close>: its result and the values stored. The parameters split
  the command line and the file named by \<open>config\<close> into values, or fail with a \<open>bpo::error\<close>.
\<close>

definition parse :: "(string list \<Rightarrow> options_description \<Rightarrow> (string \<times> opt_value) list option) \<Rightarrow>
    (string \<Rightarrow> options_description \<Rightarrow> (string \<times> opt_value) list option) \<Rightarrow>
    string list \<Rightarrow> (bool \<times> variables_map) result" where
  "parse parse_command_line parse_config_file argv =
     (case parse_command_line argv desc_all of
        None \<Rightarrow> Inr (False, Map.empty)
      | Some cmdline \<Rightarrow>
          (let opts = bpo_store cmdline desc_all Map.empty in
           if is_set opts ''help'' \<or> is_set opts ''version'' then Inr (True, opts)
           else if is_set opts ''config'' then
             (case as_string opts ''config'' of
                Inl e \<Rightarrow> Inl e
              | Inr f \<Rightarrow>
                  (case parse_config_file f desc_file of
                     None \<Rightarrow> Inr (False, opts)
                   | Some file \<Rightarrow>
                       (let opts = bpo_store file desc_file opts in
                        Inr (is_ok (bpo_notify desc_all opts), opts))))
           else Inr (is_ok (bpo_notify desc_all opts), opts)))"

section \<open>Which value an option has\<close>

text \<open>A value that is present and not just a default.\<close>

fun given :: "(opt_value \<times> bool) option \<Rightarrow> bool" where
  "given (Some (v, False)) = True"
| "given _ = False"

lemma store_value_lookup:
  "store_value opts p name =
     (if name = fst p \<and> \<not> given (opts name) then Some (snd p, False) else opts name)"
  by (cases "opts (fst p)" rule: given.cases) (auto simp: store_value_def)

lemma store_values:
  "foldl store_value opts parsed name =
     (if given (opts name) then opts name
      else case map_of parsed name of Some v \<Rightarrow> Some (v, False) | None \<Rightarrow> opts name)"
proof (induction parsed arbitrary: opts)
  case Nil
  then show ?case by simp
next
  case (Cons p parsed)
  have "foldl store_value opts (p # parsed) name = foldl store_value (store_value opts p) parsed name"
    by simp
  also have "\<dots> = (if given (opts name) then opts name
      else case map_of (p # parsed) name of Some v \<Rightarrow> Some (v, False) | None \<Rightarrow> opts name)"
    unfolding Cons.IH store_value_lookup
    by (cases p; cases "given (opts name)"; cases "name = fst p") simp_all
  finally show ?case .
qed

text \<open>The default the description gives an option.\<close>

definition desc_default :: "options_description \<Rightarrow> string \<Rightarrow> opt_value option" where
  "desc_default desc name = (case map_of desc name of Some spec \<Rightarrow> opt_default spec | None \<Rightarrow> None)"

lemma store_default_lookup:
  "store_default opts p name =
     (if name = fst p \<and> opts name = None then map_option (\<lambda>v. (v, True)) (opt_default (snd p))
      else opts name)"
  by (auto simp: store_default_def split: option.split)

lemma store_defaults:
  assumes "distinct (map fst desc)"
  shows "foldl store_default opts desc name =
     (if opts name = None then map_option (\<lambda>v. (v, True)) (desc_default desc name) else opts name)"
  using assms
proof (induction desc arbitrary: opts)
  case Nil
  then show ?case by (simp add: desc_default_def)
next
  case (Cons p desc)
  have "name = fst p \<Longrightarrow> map_of desc name = None"
    using Cons.prems by (simp add: map_of_eq_None_iff)
  then have "desc_default (p # desc) name =
      (if name = fst p then opt_default (snd p) else desc_default desc name)"
    by (cases p) (simp add: desc_default_def)
  moreover have "name = fst p \<Longrightarrow> desc_default desc name = None"
    using \<open>name = fst p \<Longrightarrow> map_of desc name = None\<close> by (simp add: desc_default_def)
  ultimately show ?case
    using Cons.IH [of "store_default opts p"] Cons.prems
    by (cases "name = fst p"; cases "opts name") (simp_all add: store_default_lookup)
qed

text \<open>The reference: the command line before the file before the default.\<close>

definition option_value :: "(string \<times> opt_value) list \<Rightarrow> (string \<times> opt_value) list \<Rightarrow>
    string \<Rightarrow> opt_value option" where
  "option_value cmdline file name =
     (case map_of cmdline name of
        Some v \<Rightarrow> Some v
      | None \<Rightarrow> (case map_of file name of Some v \<Rightarrow> Some v | None \<Rightarrow> desc_default desc_all name))"

lemma distinct_desc: "distinct (map fst desc_all)" "distinct (map fst desc_file)"
  by (simp_all add: desc_all_def desc_file_def desc_help_def desc_srv_def desc_lua_def desc_log_def
      desc_metrics_def)

lemma desc_default_file: "desc_default desc_file name = desc_default desc_all name"
proof (cases "map_of desc_help name")
  case None
  then show ?thesis by (simp add: desc_default_def desc_all_def map_add_def split: option.split)
next
  case (Some spec)
  then have "name \<in> fst ` set desc_help" "opt_default spec = None"
    by (auto simp: desc_help_def split: if_splits)
  moreover from this(1) distinct_desc(1) have "map_of desc_file name = None"
    by (auto simp: desc_all_def map_of_eq_None_iff)
  ultimately show ?thesis using Some by (simp add: desc_default_def desc_all_def map_add_def)
qed

lemma store_command_line:
  "bpo_store cmdline desc_all Map.empty name =
     (case map_of cmdline name of
        Some v \<Rightarrow> Some (v, False)
      | None \<Rightarrow> map_option (\<lambda>v. (v, True)) (desc_default desc_all name))"
  by (simp add: bpo_store_def store_defaults [OF distinct_desc(1)] store_values split: option.split)

lemma option_value_store:
  "map_option fst (bpo_store cmdline desc_all Map.empty name) = option_value cmdline [] name"
  by (cases "map_of cmdline name"; cases "desc_default desc_all name")
    (simp_all add: store_command_line option_value_def)

lemma option_value_store_file:
  "map_option fst (bpo_store file desc_file (bpo_store cmdline desc_all Map.empty) name) =
     option_value cmdline file name"
  unfolding bpo_store_def [where desc = desc_file] store_defaults [OF distinct_desc(2)]
    store_values store_command_line option_value_def desc_default_file
  by (cases "map_of cmdline name"; cases "map_of file name"; cases "desc_default desc_all name")
    simp_all

section \<open>What parsing promises\<close>

definition config_file :: "(string \<Rightarrow> options_description \<Rightarrow> (string \<times> opt_value) list option) \<Rightarrow>
    (string \<times> opt_value) list \<Rightarrow> (string \<times> opt_value) list option" where
  "config_file parse_config_file cmdline =
     (case map_of cmdline ''config'' of
        None \<Rightarrow> Some []
      | Some (String_value f) \<Rightarrow> parse_config_file f desc_file
      | Some _ \<Rightarrow> None)"

lemma is_set_command_line:
  "desc_default desc_all name = None \<Longrightarrow>
   is_set (bpo_store cmdline desc_all Map.empty) name \<longleftrightarrow> map_of cmdline name \<noteq> None"
  by (auto simp: is_set_def store_command_line split: option.split)

lemma notify_all: "is_ok (bpo_notify desc_all opts) \<longleftrightarrow> opts ''lua.root'' \<noteq> None"
  by (simp add: bpo_notify_def desc_all_def desc_file_def desc_help_def desc_srv_def desc_lua_def
      desc_log_def desc_metrics_def)

text \<open>A run that is not asked for help: the values stored and the result.\<close>

lemma parse_stored:
  assumes "parse_command_line argv desc_all = Some cmdline"
    and "map_of cmdline ''help'' = None" "map_of cmdline ''version'' = None"
    and "config_file parse_config_file cmdline = Some conf"
  shows "\<exists>opts. parse parse_command_line parse_config_file argv = Inr (opts ''lua.root'' \<noteq> None, opts) \<and>
           (\<forall>name. map_option fst (opts name) = option_value cmdline conf name)"
proof -
  let ?opts = "bpo_store cmdline desc_all Map.empty"
  have none: "desc_default desc_all ''help'' = None" "desc_default desc_all ''version'' = None"
    "desc_default desc_all ''config'' = None"
    by (simp_all add: desc_default_def desc_all_def desc_help_def)
  note set = none [THEN is_set_command_line]
  show ?thesis
  proof (cases "map_of cmdline ''config''")
    case None
    with assms have "conf = []" by (simp add: config_file_def)
    moreover have "parse parse_command_line parse_config_file argv = Inr (?opts ''lua.root'' \<noteq> None, ?opts)"
      using assms(1-3) None by (simp add: parse_def Let_def set notify_all del: split_paired_Ex not_None_eq)
    ultimately show ?thesis using option_value_store by blast
  next
    case (Some v)
    with assms(4) obtain f where f: "map_of cmdline ''config'' = Some (String_value f)"
      "parse_config_file f desc_file = Some conf"
      by (cases v) (auto simp: config_file_def)
    then have "as_string ?opts ''config'' = Inr f" by (simp add: as_string_def store_command_line)
    then have "parse parse_command_line parse_config_file argv =
        Inr (bpo_store conf desc_file ?opts ''lua.root'' \<noteq> None, bpo_store conf desc_file ?opts)"
      using assms(1-3) f by (simp add: parse_def Let_def set notify_all del: split_paired_Ex not_None_eq)
    then show ?thesis using option_value_store_file by blast
  qed
qed

text \<open>
  An option's value after parsing is the one on the command line, else the one in the
  configuration file, else its default, and parsing succeeds exactly when \<open>lua.root\<close> is given
  in one of them.
\<close>
theorem options_precedence:
  assumes "parse_command_line argv desc_all = Some cmdline"
    and "map_of cmdline ''help'' = None" "map_of cmdline ''version'' = None"
    and "config_file parse_config_file cmdline = Some conf"
  shows "\<exists>opts. parse parse_command_line parse_config_file argv =
             Inr (map_of cmdline ''lua.root'' \<noteq> None \<or> map_of conf ''lua.root'' \<noteq> None, opts) \<and>
           (\<forall>name. map_option fst (opts name) = option_value cmdline conf name)"
proof -
  from parse_stored [of parse_command_line, OF assms] obtain opts where
    opts: "parse parse_command_line parse_config_file argv = Inr (opts ''lua.root'' \<noteq> None, opts)"
    "\<forall>name. map_option fst (opts name) = option_value cmdline conf name" by blast
  have "desc_default desc_all ''lua.root'' = None"
    by (simp add: desc_default_def desc_all_def desc_file_def desc_help_def desc_srv_def desc_lua_def)
  then have "option_value cmdline conf ''lua.root'' \<noteq> None \<longleftrightarrow>
      map_of cmdline ''lua.root'' \<noteq> None \<or> map_of conf ''lua.root'' \<noteq> None"
    by (cases "map_of cmdline ''lua.root''"; cases "map_of conf ''lua.root''")
      (simp_all add: option_value_def)
  moreover have "option_value cmdline conf ''lua.root'' \<noteq> None \<longleftrightarrow> opts ''lua.root'' \<noteq> None"
    unfolding opts(2) [rule_format, symmetric] by simp
  ultimately have "(opts ''lua.root'' \<noteq> None) =
      (map_of cmdline ''lua.root'' \<noteq> None \<or> map_of conf ''lua.root'' \<noteq> None)" by blast
  with opts show ?thesis by (intro exI [of _ opts]) simp
qed

theorem options_precedence_witness:
  "\<exists>opts. parse (\<lambda>argv desc. Some [(''lua.root'', String_value ''/l''), (''config'', String_value ''c'')])
       (\<lambda>f desc. Some [(''server.port'', String_value ''80''), (''lua.root'', String_value ''/x'')])
       [] = Inr (True, opts) \<and>
     map_option fst (opts ''lua.root'') = Some (String_value ''/l'') \<and>
     map_option fst (opts ''server.port'') = Some (String_value ''80'') \<and>
     map_option fst (opts ''lua.statebuffer'') = Some (Int_value 500)"
proof -
  let ?cmd = "[(''lua.root'', String_value ''/l''), (''config'', String_value ''c'')]"
  let ?conf = "[(''server.port'', String_value ''80''), (''lua.root'', String_value ''/x'')]"
  have "option_value ?cmd ?conf ''lua.root'' = Some (String_value ''/l'')"
    "option_value ?cmd ?conf ''server.port'' = Some (String_value ''80'')"
    "option_value ?cmd ?conf ''lua.statebuffer'' = Some (Int_value 500)"
    by (simp_all add: option_value_def desc_default_def desc_all_def desc_help_def desc_file_def
        desc_srv_def desc_lua_def)
  moreover obtain opts where "parse (\<lambda>argv desc. Some ?cmd) (\<lambda>f desc. Some ?conf) [] = Inr (True, opts)"
    "\<forall>name. map_option fst (opts name) = option_value ?cmd ?conf name"
    using options_precedence [where argv = "[]" and parse_command_line = "\<lambda>argv desc. Some ?cmd"
      and parse_config_file = "\<lambda>f desc. Some ?conf" and cmdline = ?cmd and conf = ?conf]
    by (auto simp: config_file_def)
  ultimately show ?thesis by metis
qed

text \<open>Values have the type of their option when the parsers validate them, as boost's do.\<close>

fun has_type :: "opt_spec \<Rightarrow> opt_value \<Rightarrow> bool" where
  "has_type Flag v \<longleftrightarrow> v = No_value"
| "has_type (Value_int d) v \<longleftrightarrow> (\<exists>i. v = Int_value i)"
| "has_type (Value_string d) v \<longleftrightarrow> (\<exists>s. v = String_value s)"
| "has_type Required_string v \<longleftrightarrow> (\<exists>s. v = String_value s)"

definition well_typed :: "(string \<times> opt_value) list \<Rightarrow> bool" where
  "well_typed parsed \<longleftrightarrow>
     list_all (\<lambda>(name, v). case map_of desc_all name of Some spec \<Rightarrow> has_type spec v | None \<Rightarrow> False) parsed"

lemma well_typed_lookup:
  "well_typed parsed \<Longrightarrow> map_of parsed name = Some v \<Longrightarrow> map_of desc_all name = Some spec \<Longrightarrow> has_type spec v"
  by (drule map_of_SomeD) (auto simp: well_typed_def list_all_iff split_beta split: option.splits)

lemma option_value_typed:
  assumes "well_typed cmdline" "well_typed conf" "map_of desc_all name = Some spec"
    and "option_value cmdline conf name = Some v"
  shows "has_type spec v"
proof -
  have "opt_default spec = Some v \<Longrightarrow> has_type spec v" by (cases spec rule: opt_default.cases) auto
  then show ?thesis
    using assms well_typed_lookup [OF assms(1)] well_typed_lookup [OF assms(2)]
    by (cases "map_of cmdline name"; cases "map_of conf name")
      (simp_all add: option_value_def desc_default_def)
qed

text \<open>
  The reads the server makes of its options cannot fail after a successful parse: every
  integer option with a default yields an integer, every string option with a default and
  \<open>lua.root\<close> a string, and \<open>get_int\<close> and \<open>get_string\<close> always return for options of their type.
\<close>
theorem options_reads_ok:
  assumes "parse_command_line argv desc_all = Some cmdline"
    and "map_of cmdline ''help'' = None" "map_of cmdline ''version'' = None"
    and "config_file parse_config_file cmdline = Some conf"
    and "well_typed cmdline" "well_typed conf"
    and "parse parse_command_line parse_config_file argv = Inr (True, opts)"
    and "map_of desc_all name = Some spec"
  shows "case spec of
      Flag \<Rightarrow> True
    | Value_int d \<Rightarrow> is_ok (get_int opts name 0) \<and> (d \<noteq> None \<longrightarrow> is_ok (as_int opts name))
    | Value_string d \<Rightarrow> is_ok (get_string opts name '''') \<and> (d \<noteq> None \<longrightarrow> is_ok (as_string opts name))
    | Required_string \<Rightarrow> is_ok (as_string opts name)"
proof -
  from parse_stored [of parse_command_line, OF assms(1-4)] assms(7)
  have root: "opts ''lua.root'' \<noteq> None"
    and val: "map_option fst (opts name) = option_value cmdline conf name" for name
    by auto
  have typed: "has_type spec v" if "opts name = Some (v, b)" for v b
    using option_value_typed [OF assms(5,6,8), of v] val [of name] that by simp
  have dflt: "opts name \<noteq> None" if "opt_default spec \<noteq> None"
    using that val [of name] assms(8)
    by (cases "map_of cmdline name"; cases "map_of conf name"; cases "opts name")
      (simp_all add: option_value_def desc_default_def)
  have req: "name = ''lua.root''" if "spec = Required_string"
    using map_of_SomeD [OF assms(8)] that
    by (simp add: desc_all_def desc_file_def desc_help_def desc_srv_def desc_lua_def desc_log_def
        desc_metrics_def)
  show ?thesis
  proof (cases spec)
    case (Value_int d)
    show ?thesis
    proof (cases "opts name")
      case None
      with dflt Value_int have "d = None" by (cases d) simp_all
      with None Value_int show ?thesis by (simp add: get_int_def is_set_def)
    next
      case (Some p)
      with typed [of "fst p" "snd p"] Value_int obtain i where "fst p = Int_value i" by auto
      with Some Value_int show ?thesis by (cases p) (simp add: get_int_def as_int_def is_set_def)
    qed
  next
    case (Value_string d)
    show ?thesis
    proof (cases "opts name")
      case None
      with dflt Value_string have "d = None" by (cases d) simp_all
      with None Value_string show ?thesis by (simp add: get_string_def is_set_def)
    next
      case (Some p)
      with typed [of "fst p" "snd p"] Value_string obtain s where "fst p = String_value s" by auto
      with Some Value_string show ?thesis by (cases p) (simp add: get_string_def as_string_def is_set_def)
    qed
  next
    case Required_string
    with req root obtain p where "opts name = Some p" by (cases "opts name") simp_all
    moreover from this typed [of "fst p" "snd p"] Required_string obtain s where "fst p = String_value s" by auto
    ultimately show ?thesis using Required_string by (cases p) (simp add: as_string_def)
  qed simp
qed

theorem options_reads_ok_witness:
  "\<exists>opts. parse (\<lambda>argv desc. Some [(''lua.root'', String_value ''/l'')]) (\<lambda>f desc. None) [] = Inr (True, opts) \<and>
     is_ok (as_int opts ''lua.statebuffer'')"
proof -
  let ?cl = "\<lambda>(argv :: string list) (desc :: options_description). Some [(''lua.root'', String_value ''/l'')]"
  have spec: "map_of desc_all ''lua.statebuffer'' = Some (Value_int (Some 500))"
    "map_of desc_all ''lua.root'' = Some Required_string"
    by (simp_all add: desc_all_def desc_file_def desc_help_def desc_srv_def desc_lua_def)
  have "option_value [(''lua.root'', String_value ''/l'')] [] ''lua.root'' = Some (String_value ''/l'')"
    by (simp add: option_value_def)
  moreover obtain opts where opts: "parse ?cl (\<lambda>f desc. None) [] = Inr (opts ''lua.root'' \<noteq> None, opts)"
    "\<forall>name. map_option fst (opts name) = option_value [(''lua.root'', String_value ''/l'')] [] name"
    using parse_stored [where parse_command_line = ?cl and argv = "[]" and parse_config_file = "\<lambda>f desc. None"
      and cmdline = "[(''lua.root'', String_value ''/l'')]" and conf = "[]"]
    by (auto simp: config_file_def)
  ultimately have "opts ''lua.root'' \<noteq> None" by (metis map_option_is_None option.distinct(1))
  with opts(1) have run: "parse ?cl (\<lambda>f desc. None) [] = Inr (True, opts)" by simp
  then show ?thesis
    using options_reads_ok [where parse_command_line = ?cl and argv = "[]" and parse_config_file = "\<lambda>f desc. None"
        and cmdline = "[(''lua.root'', String_value ''/l'')]" and conf = "[]", OF _ _ _ _ _ _ run spec(1)] spec
    by (simp add: config_file_def well_typed_def)
qed

end
