(* ===== verification/Log.thy ===== *)
theory Log
  imports Options
begin

text \<open>
  The log (\<open>src/core/log.h\<close>, \<open>log.cpp\<close>): priorities and their conversions, and the stream buffer
  behind \<open>std::clog\<close>, from the characters a statement writes to the records that reach syslog
  or the standard output. The clock's reading at a flush is an argument.
\<close>

section \<open>Priorities\<close>

datatype log_priority = Emerg | Alert | Crit | Err | Warn | Notice | Info | Debug | No_priority

fun to_int :: "log_priority \<Rightarrow> int" where
  "to_int Emerg = 0"
| "to_int Alert = 1"
| "to_int Crit = 2"
| "to_int Err = 3"
| "to_int Warn = 4"
| "to_int Notice = 5"
| "to_int Info = 6"
| "to_int Debug = 7"
| "to_int No_priority = 8"

text \<open>\<open>static_cast<log_priority>\<close>: the enumerator of a value, if there is one.\<close>

definition enumerator :: "int \<Rightarrow> log_priority option" where
  "enumerator i = List.find (\<lambda>p. to_int p = i)
     [Emerg, Alert, Crit, Err, Warn, Notice, Info, Debug, No_priority]"

definition is_log_priority :: "int \<Rightarrow> bool" where
  "is_log_priority i =
     (case enumerator i of
        Some Emerg \<Rightarrow> True
      | Some Alert \<Rightarrow> True
      | Some Crit \<Rightarrow> True
      | Some Err \<Rightarrow> True
      | Some Warn \<Rightarrow> True
      | Some Notice \<Rightarrow> True
      | Some Info \<Rightarrow> True
      | Some Debug \<Rightarrow> True
      | _ \<Rightarrow> False)"

definition to_priority :: "int \<Rightarrow> log_priority result" where
  "to_priority i =
     (if is_log_priority i then Inr (the (enumerator i)) else Inl (Invalid_argument ''no log_priority''))"

text \<open>Priorities are compared as their integers: a filter lets through what is more urgent.\<close>

instantiation log_priority :: linorder
begin

definition less_eq_log_priority :: "log_priority \<Rightarrow> log_priority \<Rightarrow> bool" where
  "less_eq_log_priority p q \<longleftrightarrow> to_int p \<le> to_int q"

definition less_log_priority :: "log_priority \<Rightarrow> log_priority \<Rightarrow> bool" where
  "less_log_priority p q \<longleftrightarrow> to_int p < to_int q"

lemma to_int_inject: "to_int p = to_int q \<Longrightarrow> p = q"
  by (cases p; cases q) simp_all

instance
  by standard
    (auto simp: less_eq_log_priority_def less_log_priority_def intro: to_int_inject)

end

lemma enumerator_to_int [simp]: "enumerator (to_int p) = Some p"
  by (cases p) (simp_all add: enumerator_def)

lemma enumerator_eq_Some_iff: "enumerator i = Some p \<longleftrightarrow> i = to_int p"
proof
  assume "enumerator i = Some p"
  then show "i = to_int p" by (auto simp: enumerator_def split: if_splits)
qed simp

lemma to_priority_to_int:
  "to_priority (to_int p) = (if p = No_priority then Inl (Invalid_argument ''no log_priority'') else Inr p)"
  by (simp add: to_priority_def is_log_priority_def split: log_priority.split)

lemma is_log_priority_iff: "is_log_priority i \<longleftrightarrow> 0 \<le> i \<and> i \<le> 7"
proof (cases "enumerator i")
  case None
  have "i \<noteq> to_int p" for p using None by (auto simp: enumerator_eq_Some_iff [symmetric])
  from this [of Emerg] this [of Alert] this [of Crit] this [of Err] this [of Warn]
    this [of Notice] this [of Info] this [of Debug]
  have "\<not> (0 \<le> i \<and> i \<le> 7)" by simp
  with None show ?thesis by (simp add: is_log_priority_def)
next
  case (Some p)
  then have "i = to_int p" by (simp add: enumerator_eq_Some_iff)
  with Some show ?thesis unfolding is_log_priority_def Some by (cases p) simp_all
qed

text \<open>
  The conversions between priorities and integers: the integers 0 to 7 are exactly those
  accepted, every priority but the internal \<open>none\<close> survives the way to an integer and back, and
  the order of the enumeration is the order of the integers.
\<close>
theorem priority_conversions:
  "is_ok (to_priority i) = (0 \<le> i \<and> i \<le> 7) \<and>
   to_priority (to_int p) = (if p = No_priority then Inl (Invalid_argument ''no log_priority'') else Inr p) \<and>
   (p < q) = (to_int p < to_int q)"
proof -
  have "is_ok (to_priority i) = (0 \<le> i \<and> i \<le> 7)"
    by (simp add: to_priority_def is_log_priority_iff)
  then show ?thesis by (simp add: less_log_priority_def to_priority_to_int)
qed

section \<open>The stream buffer\<close>

text \<open>
  The log and what it has written: the records handed to \<open>syslog\<close> and the characters of the
  standard output. \<open>tag_width\<close> is the static \<open>width\<close> of the operator for tags.
\<close>

record log_sink =
  m_syslog :: bool
  m_filter_priority :: int
  m_buffer :: string
  m_priority :: int
  tag_width :: nat
  syslog_records :: "(int \<times> string) list"
  std_out :: string

definition ESC :: string where
  "ESC = [CHR 0x1B]"

text \<open>The colours are empty strings until a log that is not a syslog sets them.\<close>

definition color :: "log_sink \<Rightarrow> string \<Rightarrow> string" where
  "color l code = (if m_syslog l then '''' else ESC @ code)"

definition new_log :: "bool \<Rightarrow> int \<Rightarrow> log_sink" where
  "new_log syslog priority =
     \<lparr>m_syslog = syslog, m_filter_priority = priority, m_buffer = '''', m_priority = to_int Info,
      tag_width = 17, syslog_records = [], std_out = ''''\<rparr>"

text \<open>\<open>std::setw\<close> with \<open>std::right\<close>.\<close>

definition setw :: "nat \<Rightarrow> string \<Rightarrow> string" where
  "setw width s = replicate (width - length s) CHR '' '' @ s"

definition format :: "log_sink \<Rightarrow> string \<Rightarrow> nat \<Rightarrow> string \<Rightarrow> string" where
  "format l str width col =
     (if m_syslog l then ''['' @ str @ ''] ''
      else col @ setw width str @ (if col = '''' then '''' else color l ''[0m'') @ '' | '')"

definition sync :: "string \<Rightarrow> log_sink \<Rightarrow> log_sink" where
  "sync now l =
     (if length (m_buffer l) > 0 then
        (let l = (if m_syslog l
                  then l\<lparr>syslog_records := syslog_records l @ [(m_priority l, c_str (m_buffer l))]\<rparr>
                  else l\<lparr>std_out := std_out l @ format l now 15 (color l ''[30;1m'') @ m_buffer l\<rparr>) in
         l\<lparr>m_buffer := '''', m_priority := to_int Debug\<rparr>)
      else l)"

text \<open>\<open>overflow\<close>, called for every character since the buffer has no put area; \<open>None\<close> is EOF.\<close>

definition overflow :: "char option \<Rightarrow> string \<Rightarrow> log_sink \<Rightarrow> log_sink" where
  "overflow c now l =
     (case c of Some ch \<Rightarrow> l\<lparr>m_buffer := m_buffer l @ [ch]\<rparr> | None \<Rightarrow> sync now l)"

definition put :: "string \<Rightarrow> string \<Rightarrow> log_sink \<Rightarrow> log_sink" where
  "put now s l = fold (\<lambda>c. overflow (Some c) now) s l"

fun priority_name :: "log_priority \<Rightarrow> string" where
  "priority_name Emerg = ''emergency''"
| "priority_name Alert = ''alert''"
| "priority_name Crit = ''critical''"
| "priority_name Err = ''error''"
| "priority_name Warn = ''warning''"
| "priority_name Notice = ''notice''"
| "priority_name Info = ''info''"
| "priority_name Debug = ''debug''"
| "priority_name No_priority = ''none''"

fun priority_color :: "log_priority \<Rightarrow> string" where
  "priority_color Emerg = ''[31;1m''"
| "priority_color Alert = ''[31m''"
| "priority_color Crit = ''[31;1m''"
| "priority_color Err = ''[31;1m''"
| "priority_color Warn = ''[35;1m''"
| "priority_color Notice = ''[32m''"
| "priority_color Info = ''[33m''"
| "priority_color Debug = ''[34;1m''"
| "priority_color No_priority = ''[31m''"

text \<open>\<open>operator<<\<close> for a priority and for a tag.\<close>

definition put_priority :: "string \<Rightarrow> log_priority \<Rightarrow> log_sink \<Rightarrow> log_sink" where
  "put_priority now p l =
     (let l = l\<lparr>m_priority := to_int p\<rparr> in
      put now (format l (priority_name p) 10 (color l (priority_color p))) l)"

definition put_tag :: "string \<Rightarrow> string \<Rightarrow> log_sink \<Rightarrow> log_sink" where
  "put_tag now tag l =
     (let l = (if length tag > tag_width l then l\<lparr>tag_width := length tag\<rparr> else l) in
      put now (format l tag (tag_width l) (color l ''[37;1m'')) l)"

text \<open>\<open>log_base\<close> with a message and \<open>std::endl\<close>: a newline, then a flush.\<close>

definition log_base :: "string \<Rightarrow> string \<Rightarrow> int \<Rightarrow> string \<Rightarrow> log_sink \<Rightarrow> log_sink result" where
  "log_base now tag p msg l =
     (if p \<le> m_filter_priority l then
        (let l = put_tag now tag l in
         case to_priority p of
           Inl e \<Rightarrow> Inl e
         | Inr prio \<Rightarrow> Inr (sync now (put now (msg @ [CHR 0x0A]) (put_priority now prio l))))
      else Inr l)"

section \<open>One record per statement\<close>

lemma put_eq: "put now s l = l\<lparr>m_buffer := m_buffer l @ s\<rparr>"
  by (induction s arbitrary: l) (simp_all add: put_def overflow_def)

text \<open>Between statements nothing is buffered.\<close>

definition idle :: "log_sink \<Rightarrow> bool" where
  "idle l \<longleftrightarrow> m_buffer l = ''''"

text \<open>The record of a statement: its text, given the width the tags have reached.\<close>

definition line_text :: "log_sink \<Rightarrow> string \<Rightarrow> log_priority \<Rightarrow> string \<Rightarrow> string" where
  "line_text l tag prio msg =
     format l tag (max (tag_width l) (length tag)) (color l ''[37;1m'') @
     format l (priority_name prio) 10 (color l (priority_color prio)) @ msg @ [CHR 0x0A]"

lemma format_cong: "m_syslog l = m_syslog l' \<Longrightarrow> format l = format l'"
  by (intro ext) (simp add: format_def color_def)

lemma color_cong: "m_syslog l = m_syslog l' \<Longrightarrow> color l = color l'"
  by (intro ext) (simp add: color_def)

lemma log_base_line:
  assumes "idle l" "p \<noteq> No_priority"
  shows "log_base now tag (to_int p) msg l =
     Inr (if to_int p \<le> m_filter_priority l
          then (if m_syslog l
                then l\<lparr>syslog_records := syslog_records l @ [(to_int p, c_str (line_text l tag p msg))]\<rparr>
                else l\<lparr>std_out := std_out l @ format l now 15 (color l ''[30;1m'') @ line_text l tag p msg\<rparr>)
            \<lparr>m_priority := to_int Debug, tag_width := max (tag_width l) (length tag)\<rparr>
          else l)"
proof -
  have prio: "to_priority (to_int p) = Inr p"
    using assms(2) by (simp add: to_priority_to_int)
  let ?w = "max (tag_width l) (length tag)"
  let ?buf = "line_text l tag p msg"
  have tag: "put_tag now tag l =
      l\<lparr>tag_width := ?w, m_buffer := format l tag ?w (color l ''[37;1m'')\<rparr>"
    using assms(1) format_cong [of "l\<lparr>tag_width := length tag\<rparr>" l] color_cong [of "l\<lparr>tag_width := length tag\<rparr>" l]
    by (simp add: put_tag_def put_eq idle_def max_def not_less)
  let ?l1 = "l\<lparr>tag_width := ?w, m_buffer := ?buf, m_priority := to_int p\<rparr>"
  have line: "put now (msg @ [CHR 0x0A]) (put_priority now p (put_tag now tag l)) = ?l1"
    using format_cong [of "put_tag now tag l\<lparr>m_priority := to_int p\<rparr>" l]
      color_cong [of "put_tag now tag l\<lparr>m_priority := to_int p\<rparr>" l]
    by (simp add: put_priority_def put_eq tag line_text_def)
  have "?buf \<noteq> ''''" by (simp add: line_text_def)
  then have "sync now ?l1 = (if m_syslog l
      then l\<lparr>syslog_records := syslog_records l @ [(to_int p, c_str ?buf)]\<rparr>
      else l\<lparr>std_out := std_out l @ format l now 15 (color l ''[30;1m'') @ ?buf\<rparr>)
            \<lparr>m_priority := to_int Debug, tag_width := ?w\<rparr>"
    using assms(1) format_cong [of ?l1 l] color_cong [of ?l1 l]
    by (cases "m_syslog l") (simp_all add: sync_def idle_def)
  with line prio show ?thesis by (simp add: log_base_def)
qed

text \<open>A run of statements on one thread, each with the clock's reading, a tag and a priority.\<close>

type_synonym statement = "string \<times> string \<times> log_priority \<times> string"

fun log_step :: "log_sink \<Rightarrow> statement \<Rightarrow> log_sink result" where
  "log_step l (now, tag, p, msg) = log_base now tag (to_int p) msg l"

fun syslog_record :: "statement \<Rightarrow> int \<times> string" where
  "syslog_record (now, tag, p, msg) =
     (to_int p, c_str (''['' @ tag @ ''] ['' @ priority_name p @ ''] '' @ msg @ [CHR 0x0A]))"

fun passes :: "int \<Rightarrow> statement \<Rightarrow> bool" where
  "passes filter_priority (now, tag, p, msg) \<longleftrightarrow> to_int p \<le> filter_priority"

lemma log_run_syslog:
  assumes "idle l" "m_syslog l" "\<forall>s \<in> set ss. fst (snd (snd s)) \<noteq> No_priority"
  shows "\<exists>l'. fold_result log_step l ss = Inr l' \<and> idle l' \<and> std_out l' = std_out l \<and>
     syslog_records l' =
       syslog_records l @ map syslog_record (filter (passes (m_filter_priority l)) ss)"
  using assms
proof (induction ss arbitrary: l)
  case Nil
  then show ?case by simp
next
  case (Cons s ss)
  obtain now tag p msg where s: "s = (now, tag, p, msg)" by (cases s)
  with Cons.prems have p: "p \<noteq> No_priority" by simp
  note step = log_base_line [OF Cons.prems(1) p, of now tag msg]
  show ?case
  proof (cases "to_int p \<le> m_filter_priority l")
    case True
    let ?l1 = "l\<lparr>syslog_records := syslog_records l @ [syslog_record s], m_priority := to_int Debug,
      tag_width := max (tag_width l) (length tag)\<rparr>"
    have "log_step l s = Inr ?l1"
      using step True Cons.prems(2) by (simp add: s line_text_def format_def)
    moreover have "idle ?l1" "m_syslog ?l1" using Cons.prems by (simp_all add: idle_def)
    ultimately show ?thesis using Cons.IH [of ?l1] Cons.prems(3) True by (auto simp: s)
  next
    case False
    with step have "log_step l s = Inr l" by (simp add: s)
    with Cons.IH [of l] Cons.prems False show ?thesis by (simp add: s)
  qed
qed

text \<open>
  On one thread, a log that writes to syslog makes exactly one record of every statement
  that passes the filter, in order, each with the statement's own priority and with its tag,
  priority and message up to the first NUL; the others leave no trace, and no statement fails.
\<close>
theorem log_statements_recorded:
  assumes "\<forall>s \<in> set ss. fst (snd (snd s)) \<noteq> No_priority"
  shows "\<exists>l. fold_result log_step (new_log True level) ss = Inr l \<and> std_out l = '''' \<and>
     syslog_records l = map syslog_record (filter (passes level) ss)"
  using log_run_syslog [of "new_log True level" ss] assms
  by (auto simp: new_log_def idle_def)

theorem log_statements_recorded_witness:
  "\<exists>l. fold_result log_step (new_log True 6)
         [('''', ''main'', Info, ''up''), ('''', ''main'', Debug, ''x''), ('''', ''w'', Err, ''bad'')] = Inr l \<and>
     syslog_records l = [(6, ''[main] [info] up'' @ [CHR 0x0A]), (3, ''[w] [error] bad'' @ [CHR 0x0A])]"
  using log_statements_recorded
    [of "[('''', ''main'', Info, ''up''), ('''', ''main'', Debug, ''x''), ('''', ''w'', Err, ''bad'')]" 6]
  by (auto simp: c_str_def)

section \<open>The macros\<close>

text \<open>\<open>log::init\<close>: only the first call makes a log.\<close>

definition log_init :: "bool \<Rightarrow> int \<Rightarrow> log_sink option \<Rightarrow> log_sink" where
  "log_init syslog priority m_instance =
     (case m_instance of None \<Rightarrow> new_log syslog priority | Some l \<Rightarrow> l)"

text \<open>\<open>log_base\<close> itself: no newline and no flush.\<close>

definition log_base_noln :: "string \<Rightarrow> string \<Rightarrow> int \<Rightarrow> string \<Rightarrow> log_sink \<Rightarrow> log_sink result" where
  "log_base_noln now tag p msg l =
     (if p \<le> m_filter_priority l then
        (let l = put_tag now tag l in
         case to_priority p of
           Inl e \<Rightarrow> Inl e
         | Inr prio \<Rightarrow> Inr (put now msg (put_priority now prio l)))
      else Inr l)"

text \<open>\<open>log_plain_noln\<close> and \<open>log_plain\<close>: the message alone, under the priority of the scope.\<close>

definition log_plain_noln :: "string \<Rightarrow> int \<Rightarrow> string \<Rightarrow> log_sink \<Rightarrow> log_sink" where
  "log_plain_noln now p msg l = (if p \<le> m_filter_priority l then put now msg l else l)"

definition log_plain :: "string \<Rightarrow> int \<Rightarrow> string \<Rightarrow> log_sink \<Rightarrow> log_sink" where
  "log_plain now p msg l =
     (if p \<le> m_filter_priority l then sync now (put now (msg @ [CHR 0x0A]) l) else l)"

text \<open>
  \<open>log_emerg\<close> to \<open>log_debug\<close>. \<open>log_alert\<close> expands to a macro that is not defined, so a use of it
  does not compile: \<open>None\<close>.
\<close>

fun log_severity :: "log_priority \<Rightarrow> string \<Rightarrow> string \<Rightarrow> string \<Rightarrow> log_sink \<Rightarrow> log_sink result option" where
  "log_severity No_priority now tag msg l = None"
| "log_severity Alert now tag msg l = None"
| "log_severity p now tag msg l = Some (log_base now tag (to_int p) msg l)"

fun log_severity_noln :: "log_priority \<Rightarrow> string \<Rightarrow> string \<Rightarrow> string \<Rightarrow> log_sink \<Rightarrow> log_sink result option" where
  "log_severity_noln No_priority now tag msg l = None"
| "log_severity_noln p now tag msg l = Some (log_base_noln now tag (to_int p) msg l)"

lemma put_append: "put now (s @ t) l = put now t (put now s l)"
  by (simp add: put_eq)

lemma put_keeps [simp]:
  "m_filter_priority (put now s l) = m_filter_priority l"
  "m_filter_priority (put_tag now tag l) = m_filter_priority l"
  "m_filter_priority (put_priority now p l) = m_filter_priority l"
  by (simp_all add: put_eq put_tag_def put_priority_def Let_def)

text \<open>A message in parts, the last of them with the newline, is one statement.\<close>

lemma statement_in_parts:
  assumes "log_base_noln now tag p msg l = Inr l'"
  shows "log_base now tag p (msg @ part @ rest) l = Inr (log_plain now p rest (log_plain_noln now p part l'))"
proof (cases "p \<le> m_filter_priority l")
  case False
  with assms show ?thesis by (simp add: log_base_noln_def log_base_def log_plain_def log_plain_noln_def)
next
  case True
  with assms obtain prio where "to_priority p = Inr prio" "l' = put now msg (put_priority now prio (put_tag now tag l))"
    by (auto simp: log_base_noln_def Let_def split: sum.splits)
  with True show ?thesis
    by (simp add: log_base_def log_plain_def log_plain_noln_def Let_def put_append [symmetric])
qed

text \<open>A second \<open>init\<close> changes nothing.\<close>

lemma log_init_once: "log_init syslog2 priority2 (Some (log_init syslog priority None)) = new_log syslog priority"
  by (simp add: log_init_def)

end
