(* ===== verification/Lua_Utils.thy ===== *)
theory Lua_Utils
  imports File_Cache Log
begin

text \<open>
  The helpers for Lua states (\<open>src/core/lua_utils.cpp\<close>): finding scripts, loading code, and what the
  replacement of Lua's \<open>print\<close> prints. What Lua answers to a call of its API is a parameter.
\<close>

section \<open>Finding scripts\<close>

text \<open>\<open>s.substr(s.size() - 4) == ".lua"\<close>.\<close>

definition is_lua_file :: "string \<Rightarrow> bool result" where
  "is_lua_file s = (if length s < 4 then Inl Out_of_range else Inr (drop (length s - 4) s = ''.lua''))"

text \<open>The loop over a directory's entries: the scripts go to \<open>vec\<close>, the directories to \<open>subdirs\<close>.\<close>

fun find_scripts :: "file_system \<Rightarrow> string list \<Rightarrow> string list \<Rightarrow> string list \<Rightarrow>
    (string list \<times> string list) result" where
  "find_scripts fs [] vec subdirs = Inr (vec, subdirs)"
| "find_scripts fs (s # ss) vec subdirs =
     (case fs s of
        Some (Directory es) \<Rightarrow> find_scripts fs ss vec (subdirs @ [s])
      | _ \<Rightarrow>
          (case is_lua_file s of
             Inl e \<Rightarrow> Inl e
           | Inr b \<Rightarrow> find_scripts fs ss (if b then vec @ [s] else vec) subdirs))"

text \<open>With the depth of the directory tree as fuel.\<close>

fun load_script_dir :: "nat \<Rightarrow> file_system \<Rightarrow> string \<Rightarrow> string list \<Rightarrow> string list result option" where
  "load_script_dir 0 fs dir vec = None"
| "load_script_dir (Suc n) fs dir vec =
     (if length dir = 0 then Some (Inr vec)
      else (case fs dir of
        Some (Directory es) \<Rightarrow>
          (case find_scripts fs (map (path_append dir) es) vec [] of
             Inl e \<Rightarrow> Some (Inl e)
           | Inr (vec, subdirs) \<Rightarrow>
               fold_option (\<lambda>r subdir. case r of Inl e \<Rightarrow> Some (Inl e) | Inr vec \<Rightarrow> load_script_dir n fs subdir vec)
                 (Inr vec) subdirs)
      | _ \<Rightarrow> Some (Inl (Runtime_error ''filesystem_error''))))"

section \<open>Loading code\<close>

text \<open>
  \<open>luaL_dofile\<close> and \<open>luaL_dostring\<close> are parameters that give the message of a failed run; a state
  is described by the code it has run.
\<close>

definition load_code :: "(string \<Rightarrow> string option) \<Rightarrow> string list \<Rightarrow> string \<Rightarrow> string list result" where
  "load_code run code s = (case run s of Some msg \<Rightarrow> Inl (Runtime_error msg) | None \<Rightarrow> Inr (code @ [s]))"

definition load_code_from_scripts :: "(string \<Rightarrow> string option) \<Rightarrow> string list \<Rightarrow> string list \<Rightarrow> string list result" where
  "load_code_from_scripts dofile scripts code = fold_result (load_code dofile) code scripts"

definition load_code_from_strings :: "(string \<Rightarrow> string option) \<Rightarrow> string list \<Rightarrow> string list \<Rightarrow> string list result" where
  "load_code_from_strings dostring codes code = fold_result (load_code dostring) code codes"

section \<open>Printing\<close>

text \<open>
  \<open>lua_utils::print\<close>: every argument with what \<open>lua_isnumber\<close> and \<open>lua_tointeger\<close> say of it and its
  printed text; the result is the priority and the text of the log message.
\<close>

definition lua_print :: "(int option \<times> string) list \<Rightarrow> int \<times> string" where
  "lua_print args =
     (let n = length args in
      if n > 0 then
        (let (prio, rest) =
           (case fst (hd args) of
              Some prio \<Rightarrow> (if is_log_priority prio then (prio, tl args) else (to_int Info, args))
            | None \<Rightarrow> (to_int Info, args)) in
         (prio, concat (map (\<lambda>(i, text). if i < length rest then text @ [CHR 0x09] else text)
                   (enumerate 1 (map snd rest)))))
      else (to_int Info, ''''))"

section \<open>Exactly the scripts are found\<close>

lemma is_lua_file_iff: "is_lua_file s = Inr b \<longleftrightarrow> 4 \<le> length s \<and> b = (\<exists>us. s = us @ ''.lua'')"
proof (cases "length s < 4")
  case False
  have "drop (length s - 4) s = ''.lua'' \<longleftrightarrow> (\<exists>us. s = us @ ''.lua'')"
  proof
    assume "drop (length s - 4) s = ''.lua''"
    then show "\<exists>us. s = us @ ''.lua''" by (metis append_take_drop_id)
  qed auto
  with False show ?thesis by (auto simp: is_lua_file_def)
qed (auto simp: is_lua_file_def)

text \<open>The scripts and directories among a list of paths.\<close>

definition is_script :: "file_system \<Rightarrow> string \<Rightarrow> bool" where
  "is_script fs s \<longleftrightarrow> (\<forall>es. fs s \<noteq> Some (Directory es)) \<and> (\<exists>us. s = us @ ''.lua'')"

definition is_dir :: "file_system \<Rightarrow> string \<Rightarrow> bool" where
  "is_dir fs s \<longleftrightarrow> (\<exists>es. fs s = Some (Directory es))"

lemma find_scripts_filter:
  "find_scripts fs ss vec subdirs = Inr (vec', subdirs') \<Longrightarrow>
   vec' = vec @ filter (is_script fs) ss \<and> subdirs' = subdirs @ filter (is_dir fs) ss"
proof (induction ss arbitrary: vec subdirs)
  case Nil
  then show ?case by simp
next
  case (Cons s ss)
  show ?case
  proof (cases "is_dir fs s")
    case True
    with Cons.prems Cons.IH [of vec "subdirs @ [s]"] show ?thesis
      by (auto simp: is_dir_def is_script_def)
  next
    case False
    then have nodir: "\<forall>es. fs s \<noteq> Some (Directory es)" by (simp add: is_dir_def)
    then have "find_scripts fs (s # ss) vec subdirs = (case is_lua_file s of Inl e \<Rightarrow> Inl e
        | Inr b \<Rightarrow> find_scripts fs ss (if b then vec @ [s] else vec) subdirs)"
      by (simp split: option.split fs_node.split)
    with Cons.prems obtain b where b: "is_lua_file s = Inr b"
      "find_scripts fs ss (if b then vec @ [s] else vec) subdirs = Inr (vec', subdirs')"
      by (auto split: sum.splits)
    from b(1) nodir have "is_script fs s = b" by (simp add: is_lua_file_iff is_script_def)
    with Cons.IH [OF b(2)] False show ?thesis by (cases b) simp_all
  qed
qed

text \<open>The set of paths below a directory, by its entries.\<close>

lemma below_unfold:
  assumes "fs d = Some (Directory es)"
  shows "below fs d p \<longleftrightarrow> (\<exists>q \<in> set (map (path_append d) es).
           (\<not> is_dir fs q \<and> p = q) \<or> (is_dir fs q \<and> below fs q p))"
proof
  assume "below fs d p"
  then show "\<exists>q \<in> set (map (path_append d) es). (\<not> is_dir fs q \<and> p = q) \<or> (is_dir fs q \<and> below fs q p)"
  proof (cases rule: below.cases)
    case (entry es' e)
    with assms show ?thesis by (auto simp: is_dir_def)
  next
    case (sub es' e)
    from sub(3) have "is_dir fs (path_append d e)" by (auto simp: is_dir_def elim: belowE)
    with sub assms show ?thesis by auto
  qed
next
  assume "\<exists>q \<in> set (map (path_append d) es). (\<not> is_dir fs q \<and> p = q) \<or> (is_dir fs q \<and> below fs q p)"
  then obtain e where e: "e \<in> set es"
    "(\<not> is_dir fs (path_append d e) \<and> p = path_append d e) \<or>
     (is_dir fs (path_append d e) \<and> below fs (path_append d e) p)" by auto
  then show "below fs d p"
    using assms by (auto simp: is_dir_def intro: below.entry below.sub)
qed

lemma path_append_nonempty [simp]: "path_append d e \<noteq> []"
  by (auto simp: path_append_def)

lemma load_script_dir_set:
  "load_script_dir n fs dir vec = Some (Inr vec') \<Longrightarrow> dir \<noteq> [] \<Longrightarrow>
   set vec' = set vec \<union> {p. below fs dir p \<and> (\<exists>us. p = us @ ''.lua'')}"
proof (induction n arbitrary: dir vec vec')
  case 0
  then show ?case by simp
next
  case (Suc n)
  let ?L = "\<lambda>d. {p. below fs d p \<and> (\<exists>us. p = us @ ''.lua'')}"
  let ?f = "\<lambda>r subdir. case r of Inl e \<Rightarrow> Some (Inl e) | Inr vec \<Rightarrow> load_script_dir n fs subdir vec"
  from Suc.prems obtain es v sub where es: "fs dir = Some (Directory es)"
    and find: "find_scripts fs (map (path_append dir) es) vec [] = Inr (v, sub)"
    and fold: "fold_option ?f (Inr v) sub = Some (Inr vec')"
    by (auto split: option.splits fs_node.splits sum.splits prod.splits)
  let ?ps = "map (path_append dir) es"
  from find_scripts_filter [OF find] have v: "v = vec @ filter (is_script fs) ?ps"
    "sub = filter (is_dir fs) ?ps" by simp_all
  have stuck: "fold_option ?f (Inl e) ds = Some (Inl e)" for e ds by (induction ds) auto
  have "fold_option ?f (Inr v) ds = Some (Inr vec') \<Longrightarrow> \<forall>d \<in> set ds. d \<noteq> [] \<Longrightarrow>
      set vec' = set v \<union> (\<Union>d \<in> set ds. ?L d)" for v ds
  proof (induction ds arbitrary: v)
    case (Cons d ds)
    then obtain r where r: "load_script_dir n fs d v = Some r" "fold_option ?f r ds = Some (Inr vec')"
      by (auto split: option.splits)
    with stuck obtain v1 where v1: "r = Inr v1" by (cases r) auto
    from Suc.IH [of d v v1] r(1) v1 Cons.prems(2) have "set v1 = set v \<union> ?L d" by simp
    moreover from Cons.IH [of v1] r(2) v1 Cons.prems(2) have
      "set vec' = set v1 \<union> (\<Union>d \<in> set ds. ?L d)" by simp
    ultimately show ?case by auto
  qed simp
  note step = this
  have "\<forall>d \<in> set sub. d \<noteq> []" by (auto simp: v(2))
  from step [OF fold this] have "set vec' = set v \<union> (\<Union>d \<in> set sub. ?L d)" .
  moreover have "?L dir = {q \<in> set ?ps. is_script fs q} \<union> (\<Union>d \<in> set sub. ?L d)"
    unfolding below_unfold [where fs = fs and d = dir and es = es, OF es] v(2) by (auto simp: is_script_def is_dir_def)
  ultimately show ?case by (auto simp: v(1))
qed

text \<open>
  When scanning for scripts succeeds, it has found exactly the files below the directory whose
  names end in \<open>.lua\<close>, besides those found before.
\<close>
theorem scripts_found:
  assumes "load_script_dir n fs dir vec = Some (Inr vec')" "dir \<noteq> []"
  shows "set vec' = set vec \<union> {p. below fs dir p \<and> (\<exists>us. p = us @ ''.lua'')}"
  using load_script_dir_set [OF assms] .

theorem scripts_found_witness:
  "\<exists>vec. load_script_dir 3 [''/l'' \<mapsto> Directory [''d'', ''a.lua'', ''b.txt''], ''/l/d'' \<mapsto> Directory [''c.lua'']]
      ''/l'' [] = Some (Inr vec) \<and>
     vec = [''/l/a.lua'', ''/l/d/c.lua''] \<and>
     below [''/l'' \<mapsto> Directory [''d'', ''a.lua'', ''b.txt''], ''/l/d'' \<mapsto> Directory [''c.lua'']] ''/l'' ''/l/d/c.lua''"
proof -
  let ?fs = "[''/l'' \<mapsto> Directory [''d'', ''a.lua'', ''b.txt''], ''/l/d'' \<mapsto> Directory [''c.lua'']]"
  have run: "load_script_dir 3 ?fs ''/l'' [] = Some (Inr [''/l/a.lua'', ''/l/d/c.lua''])"
    by (simp add: numeral_3_eq_3 path_append_def is_lua_file_def)
  have eq: "set [''/l/a.lua'', ''/l/d/c.lua''] = set [] \<union> {p. below ?fs ''/l'' p \<and> (\<exists>us. p = us @ ''.lua'')}"
    by (rule scripts_found [OF run]) simp
  have "''/l/d/c.lua'' \<in> set [''/l/a.lua'', ''/l/d/c.lua'']" by simp
  then have "below ?fs ''/l'' ''/l/d/c.lua''" unfolding eq
    by (auto simp only: Un_iff mem_Collect_eq empty_iff list.set)
  with run show ?thesis by blast
qed

text \<open>A script directory with a short path makes the scan fail.\<close>

lemma short_path_fails:
  "load_script_dir 1 [''l'' \<mapsto> Directory [''a'']] ''l'' [] = Some (Inl Out_of_range)"
  by (simp add: path_append_def is_lua_file_def)

end
