(* ===== verification/Lua_States.thy ===== *)
theory Lua_States
  imports Pool Lua_Utils "HOL-Library.Finite_Map"
begin

text \<open>
  The Lua state manager (\<open>src/core/lua_state_manager.cpp\<close>): the shared cache of states, the workers'
  local caches, creating, handing out, taking back and destroying states, and the watcher thread
  that keeps the shared cache filled. A \<open>lua_State*\<close> is an address; what \<open>luaL_newstate\<close> and the
  scripts do is a parameter.
\<close>

section \<open>States\<close>

text \<open>What has been set up in a state, in order.\<close>

datatype setup_item =
    Requiref string
  | Register_print
  | Set_global string int
  | Init_lib string
  | Run_code string

record lua_state =
  ran :: "setup_item list"
  p_objects :: "nat list"

datatype worker_handler = Make_cache | Destroy_cache

record state_manager =
  m_state_cache :: "nat list"
  m_state_cache_local :: "(nat, nat list) fmap"
  m_iosvcs :: "nat list"
  m_libs_builtin :: "string list"
  m_libs :: "string list"
  m_scripts :: "string list"
  m_code :: "string list"
  m_dev_mode :: bool
  states :: "nat \<Rightarrow> lua_state option"
  next_state :: nat

definition register_lib_builtin :: "string \<Rightarrow> state_manager \<Rightarrow> state_manager" where
  "register_lib_builtin name m = m\<lparr>m_libs_builtin := m_libs_builtin m @ [name]\<rparr>"

definition register_lib :: "string \<Rightarrow> state_manager \<Rightarrow> state_manager" where
  "register_lib name m = m\<lparr>m_libs := m_libs m @ [name]\<rparr>"

definition add_lua_code :: "string \<Rightarrow> state_manager \<Rightarrow> state_manager" where
  "add_lua_code code m = m\<lparr>m_code := m_code m @ [code]\<rparr>"

definition clear_code :: "state_manager \<Rightarrow> state_manager" where
  "clear_code m = m\<lparr>m_code := []\<rparr>"

definition load_libs :: "state_manager \<Rightarrow> setup_item list" where
  "load_libs m = concat (map (\<lambda>lib. [Requiref lib, Init_lib lib]) (m_libs_builtin m)) @
     concat (map (\<lambda>lib. [Requiref lib, Init_lib lib]) (m_libs m))"

definition base_setup :: "setup_item list" where
  "base_setup =
     [Requiref ''base'', Requiref ''debug'', Requiref ''math'', Requiref ''string'',
      Requiref ''table'', Requiref ''package'', Register_print,
      Set_global ''LOG_EMERG'' (to_int Emerg), Set_global ''LOG_ALERT'' (to_int Alert),
      Set_global ''LOG_CRIT'' (to_int Crit), Set_global ''LOG_ERR'' (to_int Err),
      Set_global ''LOG_WARN'' (to_int Warn), Set_global ''LOG_NOTICE'' (to_int Notice),
      Set_global ''LOG_INFO'' (to_int Info), Set_global ''LOG_DEBUG'' (to_int Debug)]"

text \<open>
  The environment of the manager: whether \<open>luaL_newstate\<close> returns a state, and the message of a
  failed run of a script or of a piece of code.
\<close>

record lua_env =
  newstate_ok :: bool
  dofile :: "string \<Rightarrow> string option"
  dostring :: "string \<Rightarrow> string option"

text \<open>
  \<open>create_state\<close>: the state's address or the exception, and the manager, in which a state whose
  code fails to load stays open.
\<close>

definition create_state :: "lua_env \<Rightarrow> state_manager \<Rightarrow> nat result \<times> state_manager" where
  "create_state env m =
     (if \<not> newstate_ok env then (Inl (Runtime_error ''luaL_newstate failed''), m)
      else
        (let a = next_state m;
             m = m\<lparr>states := (states m)(a \<mapsto> \<lparr>ran = base_setup @ load_libs m, p_objects = []\<rparr>),
                   next_state := a + 1\<rparr> in
         case load_code_from_scripts (dofile env) (m_scripts m) [] of
           Inl e \<Rightarrow> (Inl e, m)
         | Inr code \<Rightarrow>
             (case load_code_from_strings (dostring env) (m_code m) code of
                Inl e \<Rightarrow> (Inl e, m)
              | Inr code \<Rightarrow>
                  (Inr a, m\<lparr>states := (states m)(a \<mapsto>
                     \<lparr>ran = base_setup @ load_libs m @ map Run_code code, p_objects = []\<rparr>)\<rparr>))))"

text \<open>Destroying deletes the library objects with the state.\<close>

definition destroy_state :: "nat option \<Rightarrow> state_manager \<Rightarrow> state_manager" where
  "destroy_state L m = (case L of None \<Rightarrow> m | Some a \<Rightarrow> m\<lparr>states := (states m)(a := None)\<rparr>)"

text \<open>Taking a state from the thread's own cache, or else from the shared one.\<close>

definition take_state :: "nat \<Rightarrow> state_manager \<Rightarrow> (nat \<times> state_manager) option" where
  "take_state w m =
     (case Option.bind (fmlookup (m_state_cache_local m) w) vector_take of
        Some (a, as) \<Rightarrow> Some (a, m\<lparr>m_state_cache_local := fmupd w as (m_state_cache_local m)\<rparr>)
      | None \<Rightarrow>
          (case vector_take (m_state_cache m) of
             Some (a, as) \<Rightarrow> Some (a, m\<lparr>m_state_cache := as\<rparr>)
           | None \<Rightarrow> None))"

definition get_state :: "lua_env \<Rightarrow> nat \<Rightarrow> state_manager \<Rightarrow> nat result \<times> state_manager" where
  "get_state env w m =
     (case take_state w m of
        None \<Rightarrow> create_state env m
      | Some (a, m) \<Rightarrow>
          (if m_dev_mode m then
             (case load_code_from_scripts (dofile env) (m_scripts m) [] of
                Inl e \<Rightarrow> (Inl e, m)
              | Inr code \<Rightarrow>
                  (case states m a of
                     None \<Rightarrow> (Inl Null_dereference, m)
                   | Some s \<Rightarrow>
                       (Inr a, m\<lparr>states := (states m)(a \<mapsto> s\<lparr>ran := ran s @ map Run_code code\<rparr>)\<rparr>)))
           else (Inr a, m)))"

text \<open>\<open>push_back\<close> to the thread's own cache, or else to the shared one.\<close>

definition put_state :: "nat \<Rightarrow> nat \<Rightarrow> state_manager \<Rightarrow> state_manager" where
  "put_state w a m =
     (case fmlookup (m_state_cache_local m) w of
        Some as \<Rightarrow> m\<lparr>m_state_cache_local := fmupd w (vector_put a as) (m_state_cache_local m)\<rparr>
      | None \<Rightarrow> m\<lparr>m_state_cache := vector_put a (m_state_cache m)\<rparr>)"

definition clear_objects :: "nat \<Rightarrow> state_manager \<Rightarrow> state_manager" where
  "clear_objects a m =
     (case states m a of None \<Rightarrow> m | Some s \<Rightarrow> m\<lparr>states := (states m)(a \<mapsto> s\<lparr>p_objects := []\<rparr>)\<rparr>)"

definition free_state :: "nat \<Rightarrow> nat \<Rightarrow> state_manager \<Rightarrow> state_manager" where
  "free_state w a m = put_state w a (clear_objects a m)"

text \<open>The handlers posted by registering and unregistering a worker's io service.\<close>

definition register_worker :: "nat \<Rightarrow> state_manager \<Rightarrow> state_manager" where
  "register_worker w m = m\<lparr>m_iosvcs := m_iosvcs m @ [w]\<rparr>"

definition make_local_cache :: "nat \<Rightarrow> state_manager \<Rightarrow> state_manager" where
  "make_local_cache w m = m\<lparr>m_state_cache_local := fmupd w [] (m_state_cache_local m)\<rparr>"

definition unregister_worker :: "nat \<Rightarrow> state_manager \<Rightarrow> state_manager result" where
  "unregister_worker w m =
     (let m = m\<lparr>m_iosvcs := remove1 w (m_iosvcs m)\<rparr> in
      case fmlookup (m_state_cache_local m) w of
        None \<Rightarrow> Inl Null_dereference
      | Some as \<Rightarrow>
          (let m = fold (\<lambda>a. destroy_state (Some a)) as m in
           Inr (m\<lparr>m_state_cache_local := fmdrop w (m_state_cache_local m)\<rparr>)))"

text \<open>
  The watcher. \<open>buffer_size - m_state_cache.size()\<close> is computed in \<open>size_t\<close> and stored in 32
  bits; the loop counts an \<open>int\<close> down from it.
\<close>

definition to_create :: "int \<Rightarrow> nat \<Rightarrow> uint32" where
  "to_create buffer_size cached = ucast (word_of_int buffer_size - word_of_nat cached :: uint64)"

fun create_states :: "nat \<Rightarrow> (nat \<Rightarrow> lua_env) \<Rightarrow> state_manager \<Rightarrow> state_manager" where
  "create_states 0 env m = m"
| "create_states (Suc i) env m =
     (case create_state (env i) m of
        (Inl e, m) \<Rightarrow> m
      | (Inr a, m) \<Rightarrow> create_states i env (m\<lparr>m_state_cache := vector_put a (m_state_cache m)\<rparr>))"

definition watch :: "int \<Rightarrow> (nat \<Rightarrow> lua_env) \<Rightarrow> state_manager \<Rightarrow> state_manager" where
  "watch buffer_size env m =
     create_states (nat (sint (to_create buffer_size (length (m_state_cache m))))) env m"

text \<open>The destructor closes the shared cache's states.\<close>

definition destroy_manager :: "state_manager \<Rightarrow> state_manager" where
  "destroy_manager m =
     (fold (\<lambda>a. destroy_state (Some a)) (m_state_cache m) m)\<lparr>m_state_cache := [], m_libs := []\<rparr>"

definition new_state_manager :: "bool \<Rightarrow> string list \<Rightarrow> string list \<Rightarrow> state_manager" where
  "new_state_manager dev_mode scripts builtin =
     \<lparr>m_state_cache = [], m_state_cache_local = fmempty, m_iosvcs = [], m_libs_builtin = builtin,
      m_libs = [], m_scripts = scripts, m_code = [], m_dev_mode = dev_mode, states = (\<lambda>a. None),
      next_state = 0\<rparr>"

section \<open>The watcher's arithmetic\<close>

lemma ucast_word_of_int: "(ucast (word_of_int x :: uint64) :: uint32) = word_of_int x"
  by (rule bit_word_eqI) (simp add: bit_simps)

lemma to_create_exact:
  assumes "- (2 ^ 31) \<le> buffer_size - int cached" "buffer_size - int cached < 2 ^ 31"
  shows "sint (to_create buffer_size cached) = buffer_size - int cached"
proof -
  have "word_of_int buffer_size - word_of_nat cached = (word_of_int (buffer_size - int cached) :: uint64)"
    by simp
  then have "to_create buffer_size cached = word_of_int (buffer_size - int cached)"
    unfolding to_create_def by (simp only: ucast_word_of_int)
  with sint32_id [OF assms] show ?thesis by (simp only:)
qed

section \<open>The caches as a pool\<close>

definition local_states :: "(nat, nat list) fmap \<Rightarrow> nat multiset" where
  "local_states l = (\<Sum>w \<in> fmdom' l. mset (the (fmlookup l w)))"

text \<open>The states in the caches.\<close>

definition cached :: "state_manager \<Rightarrow> nat multiset" where
  "cached m = mset (m_state_cache m) + local_states (m_state_cache_local m)"

lemma local_states_empty [simp]: "local_states fmempty = {#}"
  by (simp add: local_states_def)

lemma local_states_drop:
  "fmlookup l w = Some as \<Longrightarrow> local_states l = mset as + local_states (fmdrop w l)"
proof -
  assume w: "fmlookup l w = Some as"
  then have "w \<in> fmdom' l" by (rule fmdom'I)
  then have "local_states l = mset (the (fmlookup l w)) + (\<Sum>v \<in> fmdom' l - {w}. mset (the (fmlookup l v)))"
    unfolding local_states_def by (intro sum.remove) simp_all
  also have "(\<Sum>v \<in> fmdom' l - {w}. mset (the (fmlookup l v))) = local_states (fmdrop w l)"
    unfolding local_states_def by (rule sum.cong) auto
  finally show ?thesis by (simp add: w)
qed

lemma local_states_upd: "local_states (fmupd w as l) = mset as + local_states (fmdrop w l)"
proof -
  have "fmdrop w (fmupd w as l) = fmdrop w l" by (rule fmap_ext) simp
  with local_states_drop [of "fmupd w as l" w as] show ?thesis by simp
qed

lemma fmdrop_absent: "fmlookup l w = None \<Longrightarrow> fmdrop w l = l"
  by (rule fmap_ext) auto

text \<open>A worker's thread uses the caches as a pool of states.\<close>

interpretation state_pool: pool cached "take_state w" "put_state w" for w
proof
  fix m x m' assume "take_state w m = Some (x, m')"
  then show "cached m = add_mset x (cached m')"
    by (auto simp: take_state_def cached_def local_states_upd local_states_drop
        mset_butlast_last [symmetric] vector_take_def split: option.splits bind_splits if_splits)
next
  fix x m show "cached (put_state w x m) = add_mset x (cached m)"
    by (auto simp: put_state_def cached_def vector_put_def local_states_upd local_states_drop
        split: option.split)
qed

section \<open>Who has a state\<close>

text \<open>
  The states of a run: the manager, the states handed out and not yet returned, and how many calls
  failed with an exception.
\<close>

type_synonym run = "state_manager \<times> nat multiset \<times> nat"

inductive state_reachable :: "run \<Rightarrow> bool" where
  init: "state_reachable (new_state_manager dev_mode scripts builtin, {#}, 0)"
| get_state: "state_reachable (m, used, n) \<Longrightarrow> get_state env w m = (Inr a, m') \<Longrightarrow>
    state_reachable (m', add_mset a used, n)"
| get_failed: "state_reachable (m, used, n) \<Longrightarrow> get_state env w m = (Inl e, m') \<Longrightarrow>
    state_reachable (m', used, n + 1)"
| create: "state_reachable (m, used, n) \<Longrightarrow> create_state env m = (Inr a, m') \<Longrightarrow>
    state_reachable (m', add_mset a used, n)"
| create_failed: "state_reachable (m, used, n) \<Longrightarrow> create_state env m = (Inl e, m') \<Longrightarrow>
    state_reachable (m', used, n + 1)"
| free: "state_reachable (m, used, n) \<Longrightarrow> a \<in># used \<Longrightarrow>
    state_reachable (free_state w a m, used - {#a#}, n)"
| destroy: "state_reachable (m, used, n) \<Longrightarrow> a \<in># used \<Longrightarrow>
    state_reachable (destroy_state (Some a) m, used - {#a#}, n)"
| register: "state_reachable (m, used, n) \<Longrightarrow> state_reachable (register_worker w m, used, n)"
| make_local: "state_reachable (m, used, n) \<Longrightarrow> fmlookup (m_state_cache_local m) w = None \<Longrightarrow>
    state_reachable (make_local_cache w m, used, n)"
| unregister: "state_reachable (m, used, n) \<Longrightarrow> unregister_worker w m = Inr m' \<Longrightarrow>
    state_reachable (m', used, n)"
| watch_one: "state_reachable (m, used, n) \<Longrightarrow> create_state env m = (Inr a, m') \<Longrightarrow>
    state_reachable (m'\<lparr>m_state_cache := vector_put a (m_state_cache m')\<rparr>, used, n)"
| code: "state_reachable (m, used, n) \<Longrightarrow> state_reachable (m\<lparr>m_code := c\<rparr>, used, n)"
| libs: "state_reachable (m, used, n) \<Longrightarrow> state_reachable (m\<lparr>m_libs := l\<rparr>, used, n)"

definition open_states :: "state_manager \<Rightarrow> nat set" where
  "open_states m = dom (states m)"

definition owned :: "run \<Rightarrow> bool" where
  "owned r \<longleftrightarrow> (case r of (m, used, n) \<Rightarrow>
     finite (open_states m) \<and> open_states m \<subseteq> {..<next_state m} \<and>
     cached m + used \<subseteq># mset_set (open_states m) \<and>
     card (open_states m) \<le> size (cached m + used) + n)"

lemma cached_fields [simp]:
  "cached (m\<lparr>states := s\<rparr>) = cached m" "cached (m\<lparr>next_state := k\<rparr>) = cached m"
  "cached (m\<lparr>m_code := c\<rparr>) = cached m" "cached (m\<lparr>m_libs := l\<rparr>) = cached m"
  "cached (m\<lparr>m_iosvcs := i\<rparr>) = cached m"
  by (simp_all add: cached_def)

lemma open_states_fields [simp]:
  "open_states (m\<lparr>m_state_cache_local := l\<rparr>) = open_states m"
  "open_states (m\<lparr>m_iosvcs := i\<rparr>) = open_states m" "open_states (m\<lparr>m_state_cache := as\<rparr>) = open_states m"
  "open_states (m\<lparr>m_code := c\<rparr>) = open_states m" "open_states (m\<lparr>m_libs := b\<rparr>) = open_states m"
  by (simp_all add: open_states_def)

text \<open>What creating a state does to the set of open states.\<close>

lemma create_state_ok:
  assumes "create_state env m = (Inr a, m')"
  shows "a = next_state m \<and> next_state m' = Suc a \<and> open_states m' = insert a (open_states m) \<and>
         cached m' = cached m \<and> m_state_cache m' = m_state_cache m"
  using assms by (auto simp: create_state_def Let_def open_states_def split: if_splits sum.splits)

lemma create_state_failed:
  assumes "create_state env m = (Inl e, m')"
  shows "cached m' = cached m \<and> (m' = m \<or>
           next_state m' = Suc (next_state m) \<and> open_states m' = insert (next_state m) (open_states m))"
  using assms by (auto simp: create_state_def Let_def open_states_def split: if_splits sum.splits)

lemma owned_new:
  assumes "owned (m, used, n)" "cached m' = cached m" "next_state m' = Suc (next_state m)"
    and "open_states m' = insert (next_state m) (open_states m)"
  shows "owned (m', add_mset (next_state m) used, n)" and "owned (m', used, n + 1)"
proof -
  have new: "next_state m \<notin> open_states m" "finite (open_states m)"
    using assms(1) by (auto simp: owned_def)
  then have eq: "mset_set (open_states m') = add_mset (next_state m) (mset_set (open_states m))"
    "card (open_states m') = Suc (card (open_states m))"
    by (simp_all add: assms(4))
  have sub: "cached m + used \<subseteq># mset_set (open_states m)" using assms(1) by (simp add: owned_def)
  then have "add_mset (next_state m) (cached m + used) \<subseteq># mset_set (open_states m')"
    by (simp add: eq(1))
  moreover from sub have "cached m + used \<subseteq># mset_set (open_states m')"
    unfolding eq(1) by (metis add_mset_add_single mset_subset_eq_add_left subset_mset.trans)
  moreover have "open_states m' \<subseteq> {..<next_state m'}" using assms by (auto simp: owned_def)
  ultimately show "owned (m', add_mset (next_state m) used, n)" and "owned (m', used, n + 1)"
    using assms(1) new(2) eq(2) by (simp_all add: owned_def assms(2,4))
qed

lemma owned_failed: "owned (m, used, n) \<Longrightarrow> owned (m, used, n + 1)"
  by (simp add: owned_def)

lemma take_state_fields:
  "take_state w m = Some (a, m') \<Longrightarrow> states m' = states m \<and> next_state m' = next_state m"
  by (auto simp: take_state_def split: option.splits bind_splits)

lemma put_state_fields:
  "states (put_state w a m) = states m" "next_state (put_state w a m) = next_state m"
  by (simp_all add: put_state_def split: option.split)

text \<open>Moving a state between the caches and its user.\<close>

lemma owned_cong:
  assumes "owned (m, used, n)" "open_states m' = open_states m" "next_state m' = next_state m"
    and "cached m' + used' = cached m + used"
  shows "owned (m', used', n)"
  using assms(1) unfolding owned_def prod.case assms(2-4) .

lemma owned_less:
  assumes "owned (m, used, n)" "open_states m' = open_states m" "next_state m' = next_state m"
    and "cached m + used = add_mset a (cached m' + used')"
  shows "owned (m', used', n + 1)"
proof -
  have "cached m' + used' \<subseteq># cached m + used" by (simp add: assms(4))
  then have "cached m' + used' \<subseteq># mset_set (open_states m)"
    using assms(1) unfolding owned_def prod.case by (blast intro: subset_mset.trans)
  moreover have "size (cached m + used) = Suc (size (cached m' + used'))"
    unfolding assms(4) by (rule size_add_mset)
  ultimately show ?thesis
    using assms(1) unfolding owned_def prod.case assms(2,3) by simp
qed

lemma load_code_result:
  "get_state env w m = (r, m') \<Longrightarrow> take_state w m = Some (a, m1) \<Longrightarrow> states m a \<noteq> None \<Longrightarrow>
   cached m' = cached m1 \<and> open_states m' = open_states m \<and> next_state m' = next_state m \<and>
   (\<forall>b. r = Inr b \<longrightarrow> b = a)"
  using take_state_fields [of w m a m1]
  by (auto simp: get_state_def open_states_def split: if_splits sum.splits option.splits)

lemma owned_open: "owned (m, used, n) \<Longrightarrow> a \<in># cached m + used \<Longrightarrow> states m a \<noteq> None"
proof -
  assume o: "owned (m, used, n)" and "a \<in># cached m + used"
  then have "a \<in># mset_set (open_states m)" unfolding owned_def prod.case by (blast dest: mset_subset_eqD)
  with o show ?thesis by (auto simp: owned_def open_states_def)
qed

text \<open>Closing states that are in a cache or in use.\<close>

lemma owned_destroy:
  assumes "owned (m, used, n)" "cached m + used = mset as + (cached m' + used')"
    and "open_states m' = open_states m - set as" "next_state m' = next_state m"
  shows "owned (m', used', n)"
proof -
  have o: "finite (open_states m)" "open_states m \<subseteq> {..<next_state m}"
    "mset as + (cached m' + used') \<subseteq># mset_set (open_states m)"
    "card (open_states m) \<le> length as + size (cached m' + used') + n"
    using assms(1) unfolding owned_def prod.case assms(2) by simp_all
  have "mset as \<subseteq># mset_set (open_states m)"
    using o(3) by (meson mset_subset_eq_add_left subset_mset.trans)
  then have "count (mset as) a \<le> 1" for a
    by (metis mset_subset_eq_count count_mset_set' le_trans zero_le_one order_refl)
  then have "distinct as" by (simp add: distinct_count_atmost_1 not_less_eq_eq)
      (metis One_nat_def count_mset_0_iff le_Suc_eq le_zero_eq)
  then have as: "mset as = mset_set (set as)" "length as = card (set as)"
    by (simp_all add: mset_set_set distinct_card)
  have sub: "set as \<subseteq> open_states m"
    using \<open>mset as \<subseteq># mset_set (open_states m)\<close> o(1)
    by (metis finite_set_mset_mset_set set_mset_mono set_mset_mset)
  have "mset_set (open_states m) = mset as + mset_set (open_states m')"
  proof -
    have "mset_set (set as \<union> (open_states m - set as)) = mset_set (set as) + mset_set (open_states m - set as)"
      using o(1) by (intro mset_set_Union) auto
    moreover have "set as \<union> (open_states m - set as) = open_states m" using sub by auto
    ultimately show ?thesis by (simp add: as(1) assms(3))
  qed
  with o(3) have "cached m' + used' \<subseteq># mset_set (open_states m')" by simp
  moreover have "card (open_states m) = length as + card (open_states m')"
    unfolding assms(3) as(2) using sub o(1) by (simp add: card_Diff_subset card_mono finite_subset)
  ultimately show ?thesis using o(1,2,4) unfolding owned_def prod.case assms(3,4) by auto
qed

lemma owned_get:
  assumes "owned (m, used, n)" "get_state env w m = (r, m')"
  shows "case r of Inr a \<Rightarrow> owned (m', add_mset a used, n) \<and> a \<notin># used \<and> states m' a \<noteq> None
         | Inl e \<Rightarrow> owned (m', used, n + 1)"
proof (cases "take_state w m")
  case None
  with assms(2) have c: "create_state env m = (r, m')" by (simp add: get_state_def)
  show ?thesis
  proof (cases r)
    case (Inl e)
    with create_state_failed c have "cached m' = cached m \<and> (m' = m \<or>
        next_state m' = Suc (next_state m) \<and> open_states m' = insert (next_state m) (open_states m))" by blast
    with owned_new(2) [OF assms(1)] owned_failed [OF assms(1)] Inl show ?thesis by auto
  next
    case (Inr a)
    with create_state_ok c have ok: "a = next_state m" "next_state m' = Suc a"
      "open_states m' = insert a (open_states m)" "cached m' = cached m" by blast+
    have "owned (m', add_mset a used, n)" using owned_new(1) [OF assms(1)] ok by simp
    moreover have "a \<notin># used"
    proof
      assume "a \<in># used"
      with owned_open [OF assms(1), of a] have "a \<in> open_states m" by (auto simp: open_states_def)
      with assms(1) ok(1) show False by (auto simp: owned_def)
    qed
    moreover have "states m' a \<noteq> None" using ok(3) by (auto simp: open_states_def)
    ultimately show ?thesis using Inr by simp
  qed
next
  case (Some p)
  obtain a m1 where p: "p = (a, m1)" by (cases p)
  with Some have take: "take_state w m = Some (a, m1)" by simp
  have free: "cached m = add_mset a (cached m1)" by (rule state_pool.take_free [OF take])
  then have "a \<in># cached m + used" by simp
  then have open_a: "states m a \<noteq> None" by (rule owned_open [OF assms(1)])
  from load_code_result [OF assms(2) take open_a] have m': "cached m' = cached m1"
    "open_states m' = open_states m" "next_state m' = next_state m" "\<forall>b. r = Inr b \<longrightarrow> b = a" by blast+
  show ?thesis
  proof (cases r)
    case (Inl e)
    with owned_less [OF assms(1) m'(2,3), of a used] free m'(1) show ?thesis by simp
  next
    case (Inr b)
    with m'(4) have b: "b = a" by simp
    have "owned (m', add_mset a used, n)"
      by (rule owned_cong [OF assms(1) m'(2,3)]) (simp add: free m'(1))
    moreover have "a \<notin># used"
    proof
      assume "a \<in># used"
      then have "0 < count used a" by simp
      moreover have "count (cached m + used) a = Suc (count (cached m1) a + count used a)"
        unfolding free by simp
      ultimately have "2 \<le> count (cached m + used) a" by linarith
      also have "\<dots> \<le> count (mset_set (open_states m)) a"
        using assms(1) unfolding owned_def prod.case by (blast intro: mset_subset_eq_count)
      also have "\<dots> \<le> 1" by (simp add: count_mset_set')
      finally show False by simp
    qed
    moreover have "states m' a \<noteq> None" using open_a m'(2) by (auto simp: open_states_def)
    ultimately show ?thesis using Inr b by simp
  qed
qed

lemma fold_destroy:
  "next_state (fold (\<lambda>a. destroy_state (Some a)) as m) = next_state m"
  "cached (fold (\<lambda>a. destroy_state (Some a)) as m) = cached m"
  "m_state_cache (fold (\<lambda>a. destroy_state (Some a)) as m) = m_state_cache m"
  "m_state_cache_local (fold (\<lambda>a. destroy_state (Some a)) as m) = m_state_cache_local m"
  "open_states (fold (\<lambda>a. destroy_state (Some a)) as m) = open_states m - set as"
  by (induction as arbitrary: m) (auto simp: destroy_state_def open_states_def)

lemma local_fields:
  "cached (m\<lparr>m_state_cache_local := fmupd w [] (m_state_cache_local m)\<rparr>) = cached m"
  if "fmlookup (m_state_cache_local m) w = None"
  using that by (simp add: cached_def local_states_upd fmdrop_absent)

lemma owned_reachable: "state_reachable r \<Longrightarrow> owned r"
proof (induction rule: state_reachable.induct)
  case (init dev_mode scripts builtin)
  then show ?case by (simp add: owned_def new_state_manager_def open_states_def cached_def)
next
  case (get_state m used n env w a m')
  from owned_get [OF get_state.IH get_state.hyps(2)] show ?case by simp
next
  case (get_failed m used n env w e m')
  from owned_get [OF get_failed.IH get_failed.hyps(2)] show ?case by simp
next
  case (create m used n env a m')
  with create_state_ok owned_new(1) [OF create.IH] show ?case by blast
next
  case (create_failed m used n env e m')
  with create_state_failed [OF create_failed.hyps(2)] owned_new(2) [OF create_failed.IH]
    owned_failed [OF create_failed.IH] show ?case by blast
next
  case (free m used n a w)
  have "open_states (free_state w a m) = open_states m" "next_state (free_state w a m) = next_state m"
    "cached (clear_objects a m) = cached m"
    by (auto simp: free_state_def clear_objects_def put_state_fields open_states_def split: option.split)
  moreover from this(3) have "cached (free_state w a m) + (used - {#a#}) = cached m + used"
    using free.hyps(2) by (simp add: free_state_def state_pool.put_free)
  ultimately show ?case using owned_cong [OF free.IH] by blast
next
  case (destroy m used n a)
  show ?case
    by (rule owned_destroy [OF destroy.IH, of "[a]"])
      (use destroy.hyps(2) in \<open>auto simp: destroy_state_def open_states_def\<close>)
next
  case (register m used n w)
  show ?case by (rule owned_cong [OF register.IH]) (simp_all add: register_worker_def)
next
  case (make_local m used n w)
  show ?case
    by (rule owned_cong [OF make_local.IH])
      (simp_all add: make_local_cache_def local_fields make_local.hyps(2))
next
  case (unregister m used n w m')
  then obtain as where as: "fmlookup (m_state_cache_local m) w = Some as"
    by (auto simp: unregister_worker_def Let_def split: option.splits)
  let ?m = "fold (\<lambda>a. destroy_state (Some a)) as (m\<lparr>m_iosvcs := remove1 w (m_iosvcs m)\<rparr>)"
  have m': "m' = ?m\<lparr>m_state_cache_local := fmdrop w (m_state_cache_local ?m)\<rparr>"
    using unregister.hyps(2) as by (simp add: unregister_worker_def Let_def)
  show ?case
    by (rule owned_destroy [OF unregister.IH, of as])
      (simp_all add: m' fold_destroy cached_def local_states_drop [OF as])
next
  case (watch_one m used n env a m')
  from create_state_ok [OF watch_one.hyps(2)] have ok: "a = next_state m" "next_state m' = Suc (next_state m)"
    "open_states m' = insert (next_state m) (open_states m)" "cached m' = cached m" by auto
  have "owned (m', add_mset (next_state m) used, n)" using owned_new(1) [OF watch_one.IH ok(4,2,3)] .
  then show ?case
    by (rule owned_cong) (simp_all add: cached_def vector_put_def ok(1))
next
  case (code m used n c)
  show ?case by (rule owned_cong [OF code.IH]) simp_all
next
  case (libs m used n l)
  show ?case by (rule owned_cong [OF libs.IH]) simp_all
qed

text \<open>
  C18. A Lua state has one owner: in every run of the manager, the states in the caches and those
  handed out are all different and open, and as long as no call failed with an exception
  every open state is one of them, so none is lost.
\<close>
theorem states_owned:
  assumes "state_reachable (m, used, n)"
  shows "cached m + used \<subseteq># mset_set (open_states m) \<and>
         (n = 0 \<longrightarrow> cached m + used = mset_set (open_states m))"
proof -
  have o: "finite (open_states m)" "cached m + used \<subseteq># mset_set (open_states m)"
    "card (open_states m) \<le> size (cached m + used) + n"
    using owned_reachable [OF assms] unfolding owned_def prod.case by blast+
  moreover have "cached m + used = mset_set (open_states m)" if "n = 0"
  proof (rule ccontr)
    assume "cached m + used \<noteq> mset_set (open_states m)"
    with o(2) have "size (cached m + used) < size (mset_set (open_states m))"
      by (intro mset_subset_size) (simp add: subset_mset.less_le)
    with o(1,3) that show False by simp
  qed
  ultimately show ?thesis by blast
qed

text \<open>An environment in which everything loads, and a manager with one state in its cache.\<close>

definition sample_env :: lua_env where
  "sample_env = \<lparr>newstate_ok = True, dofile = (\<lambda>s. None), dostring = (\<lambda>s. None)\<rparr>"

lemma sample_run:
  "\<exists>m. state_reachable (m, {#}, 0) \<and> m_state_cache m = [0] \<and> states m 0 \<noteq> None \<and>
       m_state_cache_local m = fmempty \<and> \<not> m_dev_mode m"
proof -
  let ?m0 = "new_state_manager False [] []"
  obtain m1 where m1: "create_state sample_env ?m0 = (Inr 0, m1)"
    by (simp add: create_state_def sample_env_def new_state_manager_def Let_def
        load_code_from_scripts_def load_code_from_strings_def)
  then have "m_state_cache m1 = []" "m_state_cache_local m1 = fmempty" "\<not> m_dev_mode m1" "states m1 0 \<noteq> None"
    by (auto simp: create_state_def sample_env_def new_state_manager_def Let_def
        load_code_from_scripts_def load_code_from_strings_def)
  with state_reachable.watch_one [OF state_reachable.init m1] show ?thesis
    by (intro exI [of _ "m1\<lparr>m_state_cache := vector_put 0 (m_state_cache m1)\<rparr>"]) (simp add: vector_put_def)
qed

theorem states_owned_witness:
  "\<exists>m. state_reachable (m, {#0#}, 0) \<and> cached m + {#0#} = mset_set (open_states m)"
proof -
  obtain m where m: "state_reachable (m, {#}, 0)" "m_state_cache m = [0]"
    "m_state_cache_local m = fmempty" "\<not> m_dev_mode m" using sample_run by blast
  then have "get_state sample_env 3 m = (Inr 0, m\<lparr>m_state_cache := []\<rparr>)"
    by (simp add: get_state_def take_state_def vector_take_def)
  from state_reachable.get_state [OF m(1) this] have
    "state_reachable (m\<lparr>m_state_cache := []\<rparr>, {#0#}, 0)" .
  with states_owned [OF this] show ?thesis by blast
qed

lemma got_exclusive:
  assumes "state_reachable (m, used, n)" "get_state env w m = (Inr a, m')"
  shows "a \<notin># used \<and> states m' a \<noteq> None \<and> a \<notin># cached m'"
proof -
  from owned_get [OF owned_reachable [OF assms(1)] assms(2)] have get:
    "owned (m', add_mset a used, n)" "a \<notin># used" "states m' a \<noteq> None" by simp_all
  have "cached m' + add_mset a used \<subseteq># mset_set (open_states m')"
    using get(1) unfolding owned_def prod.case by blast
  then have "count (cached m' + add_mset a used) a \<le> 1"
    by (metis mset_subset_eq_count count_mset_set' le_trans zero_le_one order_refl)
  then have "a \<notin># cached m'" by (simp add: not_in_iff)
  with get show ?thesis by blast
qed

text \<open>
  What \<open>get_state\<close> hands out is an open state that nobody else is using.
\<close>
theorem get_state_exclusive:
  assumes "state_reachable (m, used, n)" "get_state env w m = (Inr a, m')"
  shows "a \<notin># used \<and> states m' a \<noteq> None \<and> a \<notin># cached m'"
  by (rule got_exclusive) (fact assms)+

theorem get_state_exclusive_witness:
  "\<exists>m m'. state_reachable (m, {#}, 0) \<and> get_state sample_env 3 m = (Inr 0, m') \<and> states m' 0 \<noteq> None"
proof -
  obtain m where m: "state_reachable (m, {#}, 0)" "m_state_cache m = [0]"
    "m_state_cache_local m = fmempty" "\<not> m_dev_mode m" using sample_run by blast
  then have get: "get_state sample_env 3 m = (Inr 0, m\<lparr>m_state_cache := []\<rparr>)"
    by (simp add: get_state_def take_state_def vector_take_def)
  from get_state_exclusive [OF m(1) get] m(1) get show ?thesis by blast
qed

section \<open>The watcher fills the cache\<close>

lemma create_states_length:
  assumes "\<And>i m. i < k \<Longrightarrow> is_ok (fst (create_state (env i) m))"
  shows "length (m_state_cache (create_states k env m)) = length (m_state_cache m) + k"
  using assms
proof (induction k arbitrary: m)
  case (Suc k)
  from Suc.prems [of k m] obtain a m1 where c: "create_state (env k) m = (Inr a, m1)"
    by (cases "create_state (env k) m") (auto simp: is_ok_iff)
  from create_state_ok [OF c] Suc.IH [of "m1\<lparr>m_state_cache := vector_put a (m_state_cache m1)\<rparr>"] Suc.prems
  show ?case by (simp add: c vector_put_def)
qed simp

text \<open>
  One round of the watcher, when every state can be created, leaves the shared cache with
  exactly \<open>lua.statebuffer\<close> states, or as it was when it had more: the unsigned subtraction
  and its conversions to 32 bits and to \<open>int\<close> do not make it create too many.
\<close>
theorem watcher_fills_cache:
  assumes "\<And>i m. is_ok (fst (create_state (env i) m))"
    and "- (2 ^ 31) \<le> buffer_size - int (length (m_state_cache m))"
    and "buffer_size - int (length (m_state_cache m)) < 2 ^ 31"
  shows "int (length (m_state_cache (watch buffer_size env m))) = max buffer_size (int (length (m_state_cache m)))"
  using assms(1) by (simp add: watch_def create_states_length to_create_exact [OF assms(2,3)])

theorem watcher_fills_cache_witness:
  "length (m_state_cache (watch 3 (\<lambda>i. sample_env) (new_state_manager False [] []))) = 3"
proof -
  have "is_ok (fst (create_state sample_env m))" for m
  proof -
    have "fold_result (load_code (\<lambda>s. None)) code ss = Inr (code @ ss)" for code ss
      by (induction ss arbitrary: code) (simp_all add: load_code_def)
    then show ?thesis
      by (simp add: create_state_def sample_env_def Let_def load_code_from_scripts_def
          load_code_from_strings_def)
  qed
  from watcher_fills_cache [of "\<lambda>i. sample_env", OF this, of 3 "new_state_manager False [] []"]
  show ?thesis by (simp add: new_state_manager_def)
qed

end
