(* ===== verification/Lua_Engine.thy ===== *)
theory Lua_Engine
  imports Request Lua_States
begin

text \<open>
  The Lua engine (\<open>src/core/lua_engine.cpp\<close>): the request and cookie tables a handler gets, the
  call of the handler, reading its response, and \<open>bootstrap\<close>. The Lua stack is a list with the
  top first; what the interpreter answers (globals, calls, conversions of numbers and strings) is
  the parameter \<open>lua_script\<close>. A C string pointer into a \<open>std::string\<close> is an offset into its
  characters and the terminating NUL; a read past that is \<open>Bad_access\<close>.
\<close>

section \<open>Lua values and the stack\<close>

text \<open>A table is its pairs in the order of \<open>lua_next\<close>; functions are references.\<close>

datatype lua_value =
    Nil
  | Boolean bool
  | Number real
  | Str string
  | Function nat
  | Table "(lua_value \<times> lua_value) list"

type_synonym lua_table = "(lua_value \<times> lua_value) list"
type_synonym lua_stack = "lua_value list"

text \<open>
  The scripts loaded in a state and the interpreter: the globals, a protected call (\<open>Inl\<close> the
  error object, before the message handler), the conversions between numbers and strings,
  \<open>luaL_traceback\<close> and the \<open>__tostring\<close> metamethod of an error object.
\<close>

record lua_script =
  global :: "string \<Rightarrow> lua_value"
  call :: "lua_value \<Rightarrow> lua_value list \<Rightarrow> lua_value + lua_value"
  string_number :: "string \<Rightarrow> real option"
  number_string :: "real \<Rightarrow> string"
  add_traceback :: "string \<Rightarrow> string"
  call_tostring :: "lua_value \<Rightarrow> lua_value option"

fun lua_isfunction :: "lua_value \<Rightarrow> bool" where
  "lua_isfunction (Function f) = True"
| "lua_isfunction _ = False"

fun lua_istable :: "lua_value \<Rightarrow> bool" where
  "lua_istable (Table t) = True"
| "lua_istable _ = False"

fun lua_isstring :: "lua_value \<Rightarrow> bool" where
  "lua_isstring (Str s) = True"
| "lua_isstring (Number x) = True"
| "lua_isstring _ = False"

fun lua_tonumber :: "lua_script \<Rightarrow> lua_value \<Rightarrow> real option" where
  "lua_tonumber L (Number x) = Some x"
| "lua_tonumber L (Str s) = string_number L s"
| "lua_tonumber L _ = None"

definition lua_isnumber :: "lua_script \<Rightarrow> lua_value \<Rightarrow> bool" where
  "lua_isnumber L v = (lua_tonumber L v \<noteq> None)"

text \<open>A number converts to an integer by truncation, anything else is 0; \<open>int\<close> has 32 bits.\<close>

definition trunc :: "real \<Rightarrow> int" where
  "trunc x = (if x < 0 then \<lceil>x\<rceil> else \<lfloor>x\<rfloor>)"

definition lua_tointeger :: "lua_script \<Rightarrow> lua_value \<Rightarrow> int" where
  "lua_tointeger L v = (case lua_tonumber L v of None \<Rightarrow> 0 | Some x \<Rightarrow> trunc x)"

definition to_c_int :: "int \<Rightarrow> int" where
  "to_c_int i = sint (word_of_int i :: 32 word)"

text \<open>\<open>lua_tolstring\<close>: \<open>None\<close> is the null pointer; a number is turned into a string in its place.\<close>

fun lua_tolstring :: "lua_script \<Rightarrow> lua_value \<Rightarrow> string option" where
  "lua_tolstring L (Str s) = Some s"
| "lua_tolstring L (Number x) = Some (number_string L x)"
| "lua_tolstring L _ = None"

fun converted :: "lua_script \<Rightarrow> lua_value \<Rightarrow> lua_value" where
  "converted L (Number x) = Str (number_string L x)"
| "converted L v = v"

fun raw_set :: "lua_value \<Rightarrow> lua_value \<Rightarrow> lua_table \<Rightarrow> lua_table" where
  "raw_set k v [] = [(k, v)]"
| "raw_set k v (e # t) = (if fst e = k then (k, v) # t else e # raw_set k v t)"

definition raw_get :: "lua_table \<Rightarrow> lua_value \<Rightarrow> lua_value" where
  "raw_get t k = (case map_of t k of Some v \<Rightarrow> v | None \<Rightarrow> Nil)"

text \<open>\<open>lua_setfield(L, -2, k)\<close> and \<open>lua_getfield(L, -1, k)\<close>, with the table below or on the top.\<close>

fun lua_setfield :: "string \<Rightarrow> lua_stack \<Rightarrow> lua_stack" where
  "lua_setfield k (v # Table t # st) = Table (raw_set (Str k) v t) # st"
| "lua_setfield k st = st"

fun lua_getfield :: "string \<Rightarrow> lua_stack \<Rightarrow> lua_stack" where
  "lua_getfield k (Table t # st) = raw_get t (Str k) # Table t # st"
| "lua_getfield k st = Nil # st"

text \<open>\<open>lua_next\<close>: the pair after a key, nothing after the last; a key that is not there is an error.\<close>

fun lua_next :: "lua_table \<Rightarrow> lua_value \<Rightarrow> (lua_value \<times> lua_value) option result" where
  "lua_next t Nil = Inr (case t of [] \<Rightarrow> None | e # es \<Rightarrow> Some e)"
| "lua_next t k =
     (case dropWhile (\<lambda>e. fst e \<noteq> k) t of
        [] \<Rightarrow> Inl (Lua_error ''invalid key to next'')
      | [e] \<Rightarrow> Inr None
      | e # f # es \<Rightarrow> Inr (Some f))"

text \<open>\<open>lua_utils::traceback\<close>, the message handler of every call.\<close>

definition traceback :: "lua_script \<Rightarrow> lua_value \<Rightarrow> lua_value" where
  "traceback L err =
     (case lua_tolstring L err of
        Some msg \<Rightarrow> Str (add_traceback L msg)
      | None \<Rightarrow>
          (if err \<noteq> Nil then
             (case call_tostring L err of Some v \<Rightarrow> v | None \<Rightarrow> Str ''(no error message)'')
           else err))"

definition lua_pcall :: "lua_script \<Rightarrow> lua_value \<Rightarrow> lua_value list \<Rightarrow> lua_value + lua_value" where
  "lua_pcall L f args = map_sum (traceback L) id (call L f args)"

section \<open>Cookies\<close>

text \<open>The parts between the semicolons: where each begins and its size.\<close>

fun cookie_parts :: "nat \<Rightarrow> nat \<Rightarrow> string \<Rightarrow> (nat \<times> nat) list" where
  "cookie_parts b len [] = [(b, len)]"
| "cookie_parts b len (c # cs) =
     (if c = CHR '';'' then (b, len) # cookie_parts (b + len + 1) 0 cs
      else cookie_parts b (len + 1) cs)"

function skip_spaces :: "string \<Rightarrow> nat \<Rightarrow> nat \<Rightarrow> nat" where
  "skip_spaces mem name eq =
     (if mem ! name = CHR '' '' \<and> name < eq then skip_spaces mem (name + 1) eq else name)"
  by auto
termination by (relation "measure (\<lambda>(mem, name, eq). eq - name)") auto

declare skip_spaces.simps [simp del]

text \<open>\<open>lua_pushlstring(L, p, n)\<close>: copies \<open>n\<close> characters from the offset \<open>p\<close>.\<close>

definition read_chars :: "string \<Rightarrow> nat \<Rightarrow> nat \<Rightarrow> string result" where
  "read_chars mem p n = (if p + n \<le> length mem then Inr (take n (drop p mem)) else Inl Bad_access)"

text \<open>One pass of the loop: \<open>mem\<close> holds the cookies and the NUL, \<open>str\<close> and \<open>len\<close> are the part.\<close>

definition push_cookie :: "string \<Rightarrow> lua_table \<Rightarrow> nat \<times> nat \<Rightarrow> lua_table result" where
  "push_cookie mem t part =
     (let (str, len) = part;
          it = str + index_of (CHR ''='') (take len (drop str mem)) in
      if it \<noteq> str + len \<and> it \<noteq> str then
        (let eq = it; val = eq + 1; name = skip_spaces mem str eq;
             name_len = eq - name; val_len = len - name_len - 1 in
         if name_len > 0 then
           (case read_chars mem name name_len of Inl e \<Rightarrow> Inl e
            | Inr n \<Rightarrow>
           (case read_chars mem val val_len of Inl e \<Rightarrow> Inl e
            | Inr v \<Rightarrow> Inr (raw_set (Str n) (Str v) t)))
         else Inr t)
      else Inr t)"

definition push_cookies :: "string \<Rightarrow> lua_stack \<Rightarrow> lua_stack result" where
  "push_cookies cookies st =
     (case fold_result (push_cookie (cookies @ [CHR 0x00])) [] (cookie_parts 0 0 cookies) of
        Inl e \<Rightarrow> Inl e
      | Inr t \<Rightarrow> Inr (Table t # st))"

section \<open>The tables a handler gets\<close>

text \<open>
  \<open>std::for_each\<close> between two header iterators; the fuel bounds the passes and \<open>None\<close> is running
  out of it.
\<close>

fun for_each :: "nat \<Rightarrow> request \<Rightarrow> header_iterator \<Rightarrow> header_iterator \<Rightarrow>
    (string \<Rightarrow> string \<Rightarrow> 's \<Rightarrow> 's) \<Rightarrow> 's \<Rightarrow> 's result option" where
  "for_each 0 r i e f s = None"
| "for_each (Suc n) r i e f s =
     (case hi_neq i e of
        Inl x \<Rightarrow> Some (Inl x)
      | Inr False \<Rightarrow> Some (Inr s)
      | Inr True \<Rightarrow>
          (case hi_second r i of Inl x \<Rightarrow> Some (Inl x)
           | Inr v \<Rightarrow>
          (case hi_first r i of Inl x \<Rightarrow> Some (Inl x)
           | Inr k \<Rightarrow> for_each n r (hi_next i) e f (f k v s))))"

definition lua_pushstring :: "string \<Rightarrow> lua_stack \<Rightarrow> lua_stack" where
  "lua_pushstring s st = Str (c_str s) # st"

definition push_header :: "string \<Rightarrow> string \<Rightarrow> lua_stack \<Rightarrow> lua_stack" where
  "push_header k v st = lua_setfield (c_str k) (lua_pushstring v st)"

text \<open>The fields before the headers and after them.\<close>

definition push_request_line :: "int \<Rightarrow> request \<Rightarrow> lua_stack \<Rightarrow> lua_stack" where
  "push_request_line now r st =
     (let st = Table [] # st;
          st = lua_setfield ''timestamp'' (Number (of_int now) # st);
          st = lua_setfield ''method'' (lua_pushstring (method_string r) st);
          st = lua_setfield ''proto'' (lua_pushstring (proto r) st);
          st = lua_setfield ''host'' (lua_pushstring (host r) st) in
      lua_setfield ''path'' (lua_pushstring (path r) st))"

definition push_request_rest :: "request \<Rightarrow> lua_stack \<Rightarrow> lua_stack result" where
  "push_request_rest r st =
     (let st = lua_setfield ''headers'' st;
          ep = remote_endpoint r;
          st = lua_setfield ''remote_addr_str'' (lua_pushstring (ep_address ep) st);
          st = lua_setfield ''remote_addr_ip_ver'' (Number (if ep_is_v4 ep then 4 else 6) # st) in
      case (if header_exists ''cookie'' r then
              map_sum id (lua_setfield ''cookies'') (push_cookies (header ''cookie'' r) st)
            else Inr st) of
        Inl e \<Rightarrow> Inl e
      | Inr st \<Rightarrow>
          Inr (if m_method r = POST then lua_setfield ''content'' (Str (content r) # st) else st))"

definition push_request :: "nat \<Rightarrow> int \<Rightarrow> request \<Rightarrow> lua_stack \<Rightarrow> lua_stack result option" where
  "push_request fuel now r st =
     (case for_each fuel r (headers_begin r) (headers_end r) push_header
             (Table [] # push_request_line now r st) of
        None \<Rightarrow> None
      | Some (Inl e) \<Rightarrow> Some (Inl e)
      | Some (Inr st) \<Rightarrow> Some (push_request_rest r st))"

definition push_response :: "lua_stack \<Rightarrow> lua_stack" where
  "push_response st =
     (let st = Table [] # st;
          st = lua_setfield ''status'' (Number 200 # st);
          st = lua_setfield ''content'' (lua_pushstring '''' st) in
      lua_setfield ''headers'' (Table [] # st))"

section \<open>Handling a request\<close>

text \<open>The exception of \<open>log_throw\<close>: the parts of the message, each with a blank after it.\<close>

definition log_throw :: "string list \<Rightarrow> cpp_error" where
  "log_throw msg = Runtime_error (concat (map (\<lambda>s. s @ '' '') msg))"

text \<open>
  What a step leaves: the request, whose response may have been changed also when an exception
  is thrown, and the stack or the exception. Steps follow each other unless one throws.
\<close>

type_synonym outcome = "(request \<times> lua_stack result) option"

definition and_then :: "outcome \<Rightarrow> (request \<Rightarrow> lua_stack \<Rightarrow> outcome) \<Rightarrow> outcome" where
  "and_then x f =
     (case x of
        None \<Rightarrow> None
      | Some (r, Inl e) \<Rightarrow> Some (r, Inl e)
      | Some (r, Inr st) \<Rightarrow> f r st)"

text \<open>From \<open>lua_getglobal\<close> to the call: it replaces the function and its arguments by one value.\<close>

definition call_handler :: "lua_script \<Rightarrow> nat \<Rightarrow> int \<Rightarrow> string \<Rightarrow> request \<Rightarrow> lua_stack \<Rightarrow> outcome" where
  "call_handler L fuel now fn r st =
     (let f = global L (c_str fn) in
      if \<not> lua_isfunction f then
        Some (r, Inl (log_throw [''handler function'', fn, ''not defined'']))
      else
        (case push_request fuel now r (f # st) of
           None \<Rightarrow> None
         | Some (Inl e) \<Rightarrow> Some (r, Inl e)
         | Some (Inr st1) \<Rightarrow>
             (case lua_pcall L f (rev (take 2 (push_response st1))) of
                Inr res \<Rightarrow> Some (r, Inr (res # drop 3 (push_response st1)))
              | Inl err \<Rightarrow>
                  (case lua_tolstring L err of
                     None \<Rightarrow> Some (r, Inl Null_dereference)
                   | Some msg \<Rightarrow> Some (r, Inl (log_throw [''lua_pcall failed:'', c_str msg]))))))"

text \<open>The status, read and popped.\<close>

definition read_status :: "lua_script \<Rightarrow> lua_stack \<Rightarrow> (int \<times> lua_stack) result" where
  "read_status L st =
     (if \<not> lua_istable (hd st) then Inl (log_throw [''repsonse is no table''])
      else
        (let st = lua_getfield ''status'' st in
         if \<not> lua_isnumber L (hd st) then Inl (log_throw [''response.status is no number''])
         else Inr (to_c_int (lua_tointeger L (hd st)), drop 1 st)))"

text \<open>
  The loop over the response headers. The key on the stack is what \<open>lua_tostring\<close> has made of it
  when the next round looks it up.
\<close>

fun header_loop :: "nat \<Rightarrow> lua_script \<Rightarrow> lua_table \<Rightarrow> lua_value \<Rightarrow> request \<Rightarrow> (request \<times> unit result) option" where
  "header_loop 0 L t key r = None"
| "header_loop (Suc n) L t key r =
     (case lua_next t key of
        Inl e \<Rightarrow> Some (r, Inl e)
      | Inr None \<Rightarrow> Some (r, Inr ())
      | Inr (Some (k, v)) \<Rightarrow>
          (if lua_isstring v \<and> lua_isstring k then
             (case (lua_tolstring L k, lua_tolstring L v) of
                (Some name, Some val) \<Rightarrow>
                  header_loop n L t (converted L k) (add_header (c_str name) (c_str val) r)
              | _ \<Rightarrow> Some (r, Inl Null_dereference))
           else header_loop n L t k r))"

definition read_headers :: "nat \<Rightarrow> lua_script \<Rightarrow> request \<Rightarrow> lua_stack \<Rightarrow> outcome" where
  "read_headers fuel L r st =
     (case lua_getfield ''headers'' st of
        Table t # st' \<Rightarrow>
          (case header_loop fuel L t Nil r of
             None \<Rightarrow> None
           | Some (r, Inl e) \<Rightarrow> Some (r, Inl e)
           | Some (r, Inr _) \<Rightarrow> Some (r, Inr st'))
      | _ \<Rightarrow> Some (r, Inl (log_throw [''repsonse.headers is no table''])))"

text \<open>The content, the response, and the clean-up of two values.\<close>

definition send_content :: "lua_script \<Rightarrow> int \<Rightarrow> request \<Rightarrow> lua_stack \<Rightarrow> outcome" where
  "send_content L status r st =
     (let st = lua_getfield ''content'' st in
      if \<not> lua_isstring (hd st) then Some (r, Inl (log_throw [''response.content is no string'']))
      else
        (case lua_tolstring L (hd st) of
           None \<Rightarrow> Some (r, Inl Null_dereference)
         | Some cont \<Rightarrow>
             (case send_response status cont r of
                Inl e \<Rightarrow> Some (r, Inl e)
              | Inr r' \<Rightarrow> Some (r', Inr (drop 2 st)))))"

definition run_handler :: "lua_script \<Rightarrow> nat \<Rightarrow> int \<Rightarrow> string \<Rightarrow> request \<Rightarrow> lua_stack \<Rightarrow> outcome" where
  "run_handler L fuel now fn r st =
     and_then (call_handler L fuel now fn r st) (\<lambda>r st.
       case read_status L st of
         Inl e \<Rightarrow> Some (r, Inl e)
       | Inr (status, st) \<Rightarrow> and_then (read_headers fuel L r st) (send_content L status))"

text \<open>
  \<open>handle_request\<close>, with the state it takes from the manager for the thread \<open>w\<close>: the state goes
  back only when nothing was thrown. The stacks of the states are kept beside the manager.
\<close>

definition handle_request ::
    "lua_env \<Rightarrow> (nat \<Rightarrow> lua_script) \<Rightarrow> nat \<Rightarrow> int \<Rightarrow> nat \<Rightarrow> string \<Rightarrow> request \<Rightarrow>
     state_manager \<Rightarrow> (nat \<Rightarrow> lua_stack) \<Rightarrow>
     (unit result \<times> request \<times> state_manager \<times> (nat \<Rightarrow> lua_stack)) option" where
  "handle_request env scripts fuel now w fn r m stacks =
     (case get_state env w m of
        (Inl e, m) \<Rightarrow> Some (Inl e, r, m, stacks)
      | (Inr a, m) \<Rightarrow>
          (case run_handler (scripts a) fuel now fn r (stacks a) of
             None \<Rightarrow> None
           | Some (r, Inl e) \<Rightarrow> Some (Inl e, r, m, stacks)
           | Some (r, Inr st) \<Rightarrow> Some (Inr (), r, free_state w a m, stacks(a := st))))"

section \<open>Bootstrap\<close>

text \<open>
  \<open>bootstrap\<close>: the scripts' function runs in a state of its own, which is destroyed only when
  nothing was thrown; a null error message is a \<open>std::logic_error\<close> of the string's constructor.
\<close>

definition bootstrap :: "lua_env \<Rightarrow> (nat \<Rightarrow> lua_script) \<Rightarrow> state_manager \<Rightarrow> unit result \<times> state_manager" where
  "bootstrap env scripts m =
     (case create_state env m of
        (Inl e, m) \<Rightarrow> (Inl e, m)
      | (Inr a, m) \<Rightarrow>
          (let L = scripts a; f = global L ''bootstrap'' in
           if \<not> lua_isfunction f then (Inl (Runtime_error ''No bootstrap function defined''), m)
           else
             (case lua_pcall L f [] of
                Inl err \<Rightarrow>
                  (case lua_tolstring L err of
                     None \<Rightarrow> (Inl (Logic_error ''basic_string: construction from null''), m)
                   | Some msg \<Rightarrow> (Inl (Runtime_error (''bootstrap call failed: '' @ c_str msg)), m))
              | Inr _ \<Rightarrow> (Inr (), destroy_state (Some a) m))))"

section \<open>What the cookie table holds\<close>

text \<open>The parts as strings, each with the memory behind it.\<close>

fun parts_after :: "string \<Rightarrow> string \<Rightarrow> (string \<times> string) list" where
  "parts_after acc [] = [(acc, [CHR 0x00])]"
| "parts_after acc (c # cs) =
     (if c = CHR '';'' then (acc, c # cs @ [CHR 0x00]) # parts_after [] cs
      else parts_after (acc @ [c]) cs)"

text \<open>
  One part: the name without its leading blanks, and a value that runs on behind the part by as
  many characters as blanks were skipped.
\<close>

definition cookie_step :: "lua_table \<Rightarrow> string \<times> string \<Rightarrow> lua_table result" where
  "cookie_step t pa =
     (let (part, behind) = pa; eq = index_of (CHR ''='') part;
          name = dropWhile (\<lambda>c. c = CHR '' '') (take eq part); skipped = eq - length name in
      if eq = length part \<or> name = [] then Inr t
      else if skipped \<le> length behind
      then Inr (raw_set (Str name) (Str (drop (eq + 1) part @ take skipped behind)) t)
      else Inl Bad_access)"

lemma skip_spaces_eq:
  assumes "length pre = b" "n \<le> length xs" "n < length (xs @ ys)"
  shows "skip_spaces (pre @ xs @ ys) (b + n) (b + length xs) =
     b + length xs - length (dropWhile (\<lambda>c. c = CHR '' '') (drop n xs))"
  using assms(2,3)
proof (induction "length xs - n" arbitrary: n)
  case 0
  then have "n = length xs" by simp
  then show ?case by (simp add: skip_spaces.simps)
next
  case (Suc k)
  then have n: "n < length xs" by simp
  then have nth: "(pre @ xs @ ys) ! (b + n) = xs ! n" using assms(1) by (simp add: nth_append)
  have d: "drop n xs = xs ! n # drop (n + 1) xs" using n by (simp add: Cons_nth_drop_Suc)
  show ?case
  proof (cases "xs ! n = CHR '' ''")
    case True
    from Suc(1) [of "n + 1"] Suc.hyps(2) n
    have "skip_spaces (pre @ xs @ ys) (b + (n + 1)) (b + length xs) =
        b + length xs - length (dropWhile (\<lambda>c. c = CHR '' '') (drop (n + 1) xs))"
      using Suc.prems by (cases "n + 1 < length xs") (auto simp: not_less le_Suc_eq skip_spaces.simps)
    with True nth n show ?thesis by (subst skip_spaces.simps) (simp add: d)
  next
    case False
    with nth n show ?thesis by (subst skip_spaces.simps) (simp add: d)
  qed
qed

lemma take_drop_middle:
  "s = A @ N @ R \<Longrightarrow> length A = n \<Longrightarrow> take (length N) (drop n s) = N"
  by simp

lemma push_cookie_step:
  assumes "length pre = b" "behind \<noteq> []"
  shows "push_cookie (pre @ part @ behind) t (b, length part) = cookie_step t (part, behind)"
proof -
  let ?eq = "index_of (CHR ''='') part"
  let ?name = "dropWhile (\<lambda>c. c = CHR '' '') (take ?eq part)"
  have it: "index_of (CHR ''='') (take (length part) (drop b (pre @ part @ behind))) = ?eq"
    using assms(1) by simp
  have le: "length ?name \<le> ?eq"
    using length_dropWhile_le [of "\<lambda>c. c = CHR '' ''" "take ?eq part"] by simp
  have split: "part = take ?eq part @ drop ?eq part" by simp
  show ?thesis
  proof (cases "?eq = length part \<or> ?eq = 0")
    case True
    then show ?thesis
      by (elim disjE) (simp_all only: push_cookie_def cookie_step_def Let_def prod.case it simp_thms
          if_True if_False take_0 dropWhile.simps add_0_right)
  next
    case False
    then have lt: "?eq < length part" "0 < ?eq" by (auto simp: le_neq_implies_less)
    have whole: "pre @ take ?eq part @ drop ?eq part @ behind = pre @ part @ behind"
      by (metis append_assoc append_take_drop_id)
    have len: "length (take ?eq part) = ?eq" by (simp add: min.absorb2)
    have "skip_spaces (pre @ take ?eq part @ drop ?eq part @ behind) (b + 0) (b + length (take ?eq part)) =
        b + length (take ?eq part) - length (dropWhile (\<lambda>c. c = CHR '' '') (drop 0 (take ?eq part)))"
      using assms lt by (intro skip_spaces_eq) auto
    then have sk: "skip_spaces (pre @ part @ behind) b (b + ?eq) = b + ?eq - length ?name"
      by (simp only: whole len drop_0 add_0_right)
    let ?sp = "takeWhile (\<lambda>c. c = CHR '' '') (take ?eq part)"
    have "?sp @ ?name @ drop ?eq part = take ?eq part @ drop ?eq part"
      by (simp only: append_assoc [symmetric] takeWhile_dropWhile_id)
    then have p: "pre @ part @ behind = (pre @ ?sp) @ ?name @ (drop ?eq part @ behind)" by simp
    have "length ?sp + length ?name = ?eq"
      by (metis len length_append takeWhile_dropWhile_id)
    then have "length (pre @ ?sp) = b + ?eq - length ?name" using assms(1) by (simp only: length_append)
    then have nm: "take (length ?name) (drop (b + ?eq - length ?name) (pre @ part @ behind)) = ?name"
      by (rule take_drop_middle [OF p])
    have vl: "take (length part - length ?name - 1) (drop (b + ?eq + 1) (pre @ part @ behind)) =
        drop (?eq + 1) part @ take (?eq - length ?name) behind"
    proof -
      have "length part - length ?name - 1 = length (drop (?eq + 1) part) + (?eq - length ?name)"
        using lt le by simp
      with assms(1) lt show ?thesis by simp
    qed
    have rd: "read_chars (pre @ part @ behind) (b + ?eq + 1) (length part - length ?name - 1) =
        (if ?eq - length ?name \<le> length behind
         then Inr (drop (?eq + 1) part @ take (?eq - length ?name) behind) else Inl Bad_access)"
      using vl assms(1) lt le by (auto simp: read_chars_def)
    have rn: "read_chars (pre @ part @ behind) (b + ?eq - length ?name) (length ?name) = Inr ?name"
      using nm assms(1) lt le by (simp add: read_chars_def)
    have ar: "b + ?eq - (b + ?eq - length ?name) = length ?name" using le by simp
    have "b + ?eq \<noteq> b + length part" "b + ?eq \<noteq> b" "?eq \<noteq> length part" using lt by auto
    then have 1: "push_cookie (pre @ part @ behind) t (b, length part) =
        (if length ?name > 0 then
          (if ?eq - length ?name \<le> length behind
           then Inr (raw_set (Str ?name) (Str (drop (?eq + 1) part @ take (?eq - length ?name) behind)) t)
           else Inl Bad_access)
         else Inr t)"
      unfolding push_cookie_def Let_def prod.case it sk ar rn rd
      by (simp only: simp_thms if_True sum.case if_distrib [where f = "case_sum _ _"])
    show ?thesis unfolding 1 cookie_step_def Let_def prod.case using lt by simp
  qed
qed

lemma fold_cookie_parts:
  "fold_result (push_cookie (pre @ acc @ s @ [CHR 0x00])) t (cookie_parts (length pre) (length acc) s) =
   fold_result cookie_step t (parts_after acc s)"
proof (induction s arbitrary: pre acc t)
  case Nil
  from push_cookie_step [of pre "length pre" "[CHR 0x00]" acc t] show ?case by (simp split: sum.split)
next
  case (Cons c s)
  show ?case
  proof (cases "c = CHR '';''")
    case True
    from push_cookie_step [of pre "length pre" "c # s @ [CHR 0x00]" acc t] Cons [of "pre @ acc @ [c]" "[]"] True
    show ?thesis by (simp split: sum.split)
  next
    case False
    with Cons [of pre "acc @ [c]" t] show ?thesis by simp
  qed
qed

lemma push_cookies_steps:
  "push_cookies cookies st =
     map_sum id (\<lambda>t. Table t # st) (fold_result cookie_step [] (parts_after [] cookies))"
  using fold_cookie_parts [of "[]" "[]" cookies "[]"]
  by (simp add: push_cookies_def split: sum.split)

lemma parts_after_prefix:
  "CHR '';'' \<notin> set s \<Longrightarrow> parts_after acc (s @ r) = parts_after (acc @ s) r"
  by (induction s arbitrary: acc) auto

text \<open>Cookies as clients write them: no blank in a name, nothing of the syntax in names and values.\<close>

definition plain_cookie :: "string \<times> string \<Rightarrow> bool" where
  "plain_cookie nv \<longleftrightarrow> fst nv \<noteq> [] \<and> set (fst nv) \<inter> set ''=; '' = {} \<and> CHR '';'' \<notin> set (snd nv)"

fun join_cookies :: "string \<Rightarrow> (string \<times> string) list \<Rightarrow> string" where
  "join_cookies sep [] = ''''"
| "join_cookies sep [(n, v)] = n @ ''='' @ v"
| "join_cookies sep ((n, v) # nvs) = n @ ''='' @ v @ sep @ join_cookies sep nvs"

text \<open>The values the code reads behind a blank: with the semicolon or the final NUL.\<close>

fun overread :: "(string \<times> string) list \<Rightarrow> (string \<times> string) list" where
  "overread [] = []"
| "overread [(n, v)] = [(n, v @ [CHR 0x00])]"
| "overread ((n, v) # nvs) = (n, v @ '';'') # overread nvs"

definition set_cookies :: "(string \<times> string) list \<Rightarrow> lua_table \<Rightarrow> lua_table" where
  "set_cookies nvs t = fold (\<lambda>(n, v). raw_set (Str n) (Str v)) nvs t"

lemma index_of_skip: "x \<notin> set s \<Longrightarrow> index_of x (s @ r) = length s + index_of x r"
  by (induction s) auto

lemma dropWhile_none: "s \<noteq> [] \<Longrightarrow> \<forall>x\<in>set s. \<not> P x \<Longrightarrow> dropWhile P s = s"
  by (cases s) auto

lemma cookie_step_plain:
  assumes "plain_cookie (n, v)"
  shows "cookie_step t (n @ ''='' @ v, behind) = Inr (raw_set (Str n) (Str v) t)"
    and "cookie_step t ('' '' @ n @ ''='' @ v, x # behind) = Inr (raw_set (Str n) (Str (v @ [x])) t)"
proof -
  from assms have n: "n \<noteq> []" "CHR ''='' \<notin> set n" "\<forall>x\<in>set n. x \<noteq> CHR '' ''"
    by (auto simp: plain_cookie_def)
  then have d: "dropWhile (\<lambda>c. c = CHR '' '') n = n" by (intro dropWhile_none) auto
  show "cookie_step t (n @ ''='' @ v, behind) = Inr (raw_set (Str n) (Str v) t)"
    using n d by (simp add: cookie_step_def index_of_skip)
  show "cookie_step t ('' '' @ n @ ''='' @ v, x # behind) = Inr (raw_set (Str n) (Str (v @ [x])) t)"
    using n d by (simp add: cookie_step_def index_of_skip)
qed

lemma parts_after_cookie:
  assumes "plain_cookie (n, v)"
  shows "parts_after acc (n @ ''='' @ v) = [(acc @ n @ ''='' @ v, [CHR 0x00])]"
    and "parts_after acc (n @ ''='' @ v @ '';'' @ r) =
      (acc @ n @ ''='' @ v, '';'' @ r @ [CHR 0x00]) # parts_after [] r"
proof -
  from assms have *: "CHR '';'' \<notin> set (n @ ''='' @ v)" by (auto simp: plain_cookie_def)
  show "parts_after acc (n @ ''='' @ v) = [(acc @ n @ ''='' @ v, [CHR 0x00])]"
    using parts_after_prefix [OF *, of acc "[]"] by simp
  show "parts_after acc (n @ ''='' @ v @ '';'' @ r) =
      (acc @ n @ ''='' @ v, '';'' @ r @ [CHR 0x00]) # parts_after [] r"
    using parts_after_prefix [OF *, of acc "'';'' @ r"] by simp
qed

lemma fold_tight:
  "\<forall>nv\<in>set nvs. plain_cookie nv \<Longrightarrow> nvs \<noteq> [] \<Longrightarrow>
   fold_result cookie_step t (parts_after [] (join_cookies '';'' nvs)) = Inr (set_cookies nvs t)"
proof (induction nvs arbitrary: t rule: overread.induct)
  case (2 n v)
  then show ?case
    using cookie_step_plain(1) [of n v t] parts_after_cookie(1) [of n v "[]"] by (simp add: set_cookies_def)
next
  case (3 n v nv nvs)
  then have "plain_cookie (n, v)" by simp
  from 3 cookie_step_plain(1) [OF this] parts_after_cookie(2) [OF this, of "[]"]
  show ?case by (simp add: set_cookies_def)
qed simp

lemma fold_spaced:
  "\<forall>nv\<in>set nvs. plain_cookie nv \<Longrightarrow> nvs \<noteq> [] \<Longrightarrow>
   fold_result cookie_step t (parts_after [] ('' '' @ join_cookies ''; '' nvs)) =
     Inr (set_cookies (overread nvs) t)"
proof (induction nvs arbitrary: t rule: overread.induct)
  case (2 n v)
  then show ?case
    using cookie_step_plain(2) [of n v t] parts_after_cookie(1) [of n v "'' ''"] by (simp add: set_cookies_def)
next
  case (3 n v nv nvs)
  then have "plain_cookie (n, v)" by simp
  from 3 cookie_step_plain(2) [OF this] parts_after_cookie(2) [OF this, of "'' ''"]
  show ?case by (simp add: set_cookies_def)
qed simp

text \<open>
  C31. For cookies separated by \<open>;\<close> alone the table holds the names with their values, the last
  one of a name. Separated by \<open>; \<close>, as clients send them, only the first value is right: every
  other one has the following semicolon, and the last the terminating NUL, at its end.
\<close>
theorem cookies_read:
  assumes "plain_cookie (n, v)" "\<forall>nv\<in>set nvs. plain_cookie nv"
  shows "push_cookies (join_cookies '';'' ((n, v) # nvs)) st = Inr (Table (set_cookies ((n, v) # nvs) []) # st) \<and>
    push_cookies (join_cookies ''; '' ((n, v) # nvs)) st =
      Inr (Table (set_cookies ((n, v) # overread nvs) []) # st)"
proof
  show "push_cookies (join_cookies '';'' ((n, v) # nvs)) st = Inr (Table (set_cookies ((n, v) # nvs) []) # st)"
    using fold_tight [of "(n, v) # nvs" "[]"] assms by (simp add: push_cookies_steps)
  show "push_cookies (join_cookies ''; '' ((n, v) # nvs)) st =
      Inr (Table (set_cookies ((n, v) # overread nvs) []) # st)"
  proof (cases nvs)
    case Nil
    then show ?thesis using cookie_step_plain(1) [OF assms(1)] parts_after_cookie(1) [OF assms(1), of "[]"]
      by (simp add: push_cookies_steps set_cookies_def)
  next
    case (Cons nv nvs')
    with assms fold_spaced [of nvs "raw_set (Str n) (Str v) []"]
      cookie_step_plain(1) [OF assms(1)] parts_after_cookie(2) [OF assms(1), of "[]"]
    show ?thesis by (simp add: push_cookies_steps set_cookies_def)
  qed
qed

theorem cookies_read_witness:
  "push_cookies ''a=1; b=2; c=3'' [] =
     Inr [Table [(Str ''a'', Str ''1''), (Str ''b'', Str ''2;''), (Str ''c'', Str (''3'' @ [CHR 0x00]))]]"
proof -
  have "plain_cookie (''a'', ''1'')" "\<forall>nv\<in>set [(''b'', ''2''), (''c'', ''3'')]. plain_cookie nv"
    by (simp_all add: plain_cookie_def)
  from cookies_read [OF this, of "[]"] show ?thesis by (simp add: set_cookies_def)
qed

section \<open>What a handler is given\<close>

lemma raw_get_set: "raw_get (raw_set k v t) k' = (if k' = k then v else raw_get t k')"
proof -
  have "map_of (raw_set k v t) k' = (if k' = k then Some v else map_of t k')"
    by (induction t) auto
  then show ?thesis by (simp add: raw_get_def)
qed

lemma for_each_from:
  assumes "i \<le> headers_size r" "headers_size r - i < fuel"
  shows "for_each fuel r \<lparr>hi_mode = m_mode r, hi_pos = i\<rparr> (headers_end r) f s =
     Some (Inr (fold (\<lambda>(k, v). f k v) (drop i (request_headers r)) s))"
  using assms
proof (induction fuel arbitrary: i s)
  case (Suc n)
  show ?case
  proof (cases "i = headers_size r")
    case True
    then show ?thesis by (simp add: headers_end_def hi_neq_def)
  next
    case False
    with Suc.prems have i: "i < headers_size r" by simp
    then have "drop i (request_headers r) = request_headers r ! i # drop (i + 1) (request_headers r)"
      by (simp add: Cons_nth_drop_Suc)
    with i Suc.IH [of "i + 1"] Suc.prems show ?thesis
      by (simp add: headers_end_def hi_neq_def hi_first_def hi_second_def hi_deref_at hi_next_def split_beta)
  qed
qed simp

lemma for_each_headers:
  "headers_size r < fuel \<Longrightarrow>
   for_each fuel r (headers_begin r) (headers_end r) f s =
     Some (Inr (fold (\<lambda>(k, v). f k v) (request_headers r) s))"
  using for_each_from [of 0 r fuel f s] by (simp add: headers_begin_def)

definition header_table :: "(string \<times> string) list \<Rightarrow> lua_table" where
  "header_table hs = fold (\<lambda>(k, v). raw_set (Str (c_str k)) (Str (c_str v))) hs []"

lemma fold_push_header:
  "fold (\<lambda>(k, v). push_header k v) hs (Table t # st) =
     Table (fold (\<lambda>(k, v). raw_set (Str (c_str k)) (Str (c_str v))) hs t) # st"
  by (induction hs arbitrary: t) (auto simp: push_header_def lua_pushstring_def)

lemma header_table_get:
  "raw_get (header_table hs) (Str k) =
     (case map_of (rev (map (\<lambda>(k, v). (c_str k, c_str v)) hs)) k of Some v \<Rightarrow> Str v | None \<Rightarrow> Nil)"
proof (induction hs rule: rev_induct)
  case Nil
  then show ?case by (simp add: header_table_def raw_get_def)
next
  case (snoc e hs)
  then show ?case by (cases e) (simp add: header_table_def raw_get_set)
qed

text \<open>The cookies of a request, as far as they can be read.\<close>

definition cookie_table :: "request \<Rightarrow> lua_table option result" where
  "cookie_table r =
     (if header_exists ''cookie'' r
      then map_sum id Some (fold_result cookie_step [] (parts_after [] (header ''cookie'' r)))
      else Inr None)"

definition request_table :: "int \<Rightarrow> request \<Rightarrow> lua_table option \<Rightarrow> lua_table" where
  "request_table now r cookies =
     (let t = [(Str ''timestamp'', Number (of_int now)), (Str ''method'', Str (c_str (method_string r))),
               (Str ''proto'', Str (c_str (proto r))), (Str ''host'', Str (c_str (host r))),
               (Str ''path'', Str (c_str (path r))),
               (Str ''headers'', Table (header_table (request_headers r))),
               (Str ''remote_addr_str'', Str (c_str (ep_address (remote_endpoint r)))),
               (Str ''remote_addr_ip_ver'', Number (if ep_is_v4 (remote_endpoint r) then 4 else 6))];
          t = (case cookies of None \<Rightarrow> t | Some c \<Rightarrow> t @ [(Str ''cookies'', Table c)]) in
      if m_method r = POST then t @ [(Str ''content'', Str (content r))] else t)"

lemma push_request_table:
  assumes "headers_size r < fuel"
  shows "push_request fuel now r st =
     Some (case cookie_table r of Inl e \<Rightarrow> Inl e | Inr c \<Rightarrow> Inr (Table (request_table now r c) # st))"
proof -
  have "for_each fuel r (headers_begin r) (headers_end r) push_header (Table [] # push_request_line now r st) =
      Some (Inr (Table (header_table (request_headers r)) # push_request_line now r st))"
    by (simp add: for_each_headers [OF assms] fold_push_header header_table_def)
  then have *: "push_request fuel now r st =
      Some (push_request_rest r (Table (header_table (request_headers r)) # push_request_line now r st))"
    by (simp add: push_request_def)
  show ?thesis
  proof (cases "header_exists ''cookie'' r")
    case True
    then show ?thesis
      by (cases "fold_result cookie_step [] (parts_after [] (header ''cookie'' r))")
         (simp_all add: * push_request_line_def push_request_rest_def lua_pushstring_def Let_def
           cookie_table_def push_cookies_steps request_table_def)
  next
    case False
    then show ?thesis
      by (simp add: * push_request_line_def push_request_rest_def lua_pushstring_def Let_def
          cookie_table_def request_table_def)
  qed
qed

lemma cookie_table_None: "cookie_table r = Inr c \<Longrightarrow> c = None \<longleftrightarrow> \<not> header_exists ''cookie'' r"
  by (cases "fold_result cookie_step [] (parts_after [] (header ''cookie'' r))")
     (auto simp: cookie_table_def split: if_splits)

lemma request_table_get:
  "raw_get (request_table now r c) (Str ''method'') = Str (c_str (method_string r))"
  "raw_get (request_table now r c) (Str ''path'') = Str (c_str (path r))"
  "raw_get (request_table now r c) (Str ''host'') = Str (c_str (host r))"
  "raw_get (request_table now r c) (Str ''proto'') = Str (c_str (proto r))"
  "raw_get (request_table now r c) (Str ''remote_addr_str'') = Str (c_str (ep_address (remote_endpoint r)))"
  "raw_get (request_table now r c) (Str ''headers'') = Table (header_table (request_headers r))"
  "raw_get (request_table now r c) (Str ''cookies'') = (case c of Some c \<Rightarrow> Table c | None \<Rightarrow> Nil)"
  "raw_get (request_table now r c) (Str ''content'') = (if m_method r = POST then Str (content r) else Nil)"
  by (cases c; simp add: request_table_def raw_get_def Let_def)+

text \<open>
  C30. With fuel for every header, \<open>push_request\<close> returns, and unless a cookie is read past the
  end of the header it pushes one table: it holds the request line, the peer, every header's last
  value, the cookies if and only if there is a cookie header, and the content of a POST only.
\<close>
theorem push_request_fields:
  assumes "headers_size r < fuel" "cookie_table r = Inr cookies"
  shows "\<exists>t h. push_request fuel now r st = Some (Inr (Table t # st)) \<and>
     raw_get t (Str ''method'') = Str (c_str (method_string r)) \<and>
     raw_get t (Str ''path'') = Str (c_str (path r)) \<and>
     raw_get t (Str ''host'') = Str (c_str (host r)) \<and>
     raw_get t (Str ''proto'') = Str (c_str (proto r)) \<and>
     raw_get t (Str ''remote_addr_str'') = Str (c_str (ep_address (remote_endpoint r))) \<and>
     raw_get t (Str ''headers'') = Table h \<and>
     raw_get h (Str k) =
       (case map_of (rev (map (\<lambda>(k, v). (c_str k, c_str v)) (request_headers r))) k of
          Some v \<Rightarrow> Str v | None \<Rightarrow> Nil) \<and>
     raw_get t (Str ''cookies'') = (case cookies of Some c \<Rightarrow> Table c | None \<Rightarrow> Nil) \<and>
     (cookies = None \<longleftrightarrow> \<not> header_exists ''cookie'' r) \<and>
     raw_get t (Str ''content'') = (if m_method r = POST then Str (content r) else Nil)"
proof -
  have "push_request fuel now r st = Some (Inr (Table (request_table now r cookies) # st))"
    by (simp add: push_request_table [OF assms(1)] assms(2))
  then show ?thesis
    using request_table_get [of now r cookies] header_table_get [of "request_headers r" k]
      cookie_table_None [OF assms(2)]
    by (intro exI conjI) assumption+
qed

definition cookie_request :: request where
  "cookie_request = fst (make_http2_request
     \<lparr>h2_method = ''GET'', h2_scheme = ''https'', h2_host = ''h'', h2_raw_path = ''/p'', h2_raw_query = ''q'',
      h2_header = [(''cookie'', \<lparr>hv_value = ''a=1'', hv_sensitive = False\<rparr>)],
      h2_remote_endpoint = \<lparr>ep_address = ''::1'', ep_is_v4 = False\<rparr>\<rparr> None (new_sched 0 :: nat sched))"

theorem push_request_fields_witness:
  "\<exists>t. push_request 2 0 cookie_request [] = Some (Inr [Table t]) \<and> raw_get t (Str ''path'') = Str ''/p?q'' \<and>
     raw_get t (Str ''cookies'') = Table [(Str ''a'', Str ''1'')]"
proof -
  have d: "req_data cookie_request = Http2_data
     \<lparr>hd_request = \<lparr>h2_method = ''GET'', h2_scheme = ''https'', h2_host = ''h'', h2_raw_path = ''/p'', h2_raw_query = ''q'',
      h2_header = [(''cookie'', \<lparr>hv_value = ''a=1'', hv_sensitive = False\<rparr>)],
      h2_remote_endpoint = \<lparr>ep_address = ''::1'', ep_is_v4 = False\<rparr>\<rparr>,
      hd_response = [], hd_headers = [], hd_content = None, hd_path = ''/p?q''\<rparr>"
    by (simp add: cookie_request_def http2_path_def)
  have "headers_size cookie_request < 2" by (simp add: headers_size_def d)
  moreover have "cookie_table cookie_request = Inr (Some [(Str ''a'', Str ''1'')])"
    by (simp add: cookie_table_def header_exists_def header_def d find_key_def cookie_step_def)
  ultimately show ?thesis using push_request_fields [of cookie_request 2 _ 0 "[]" undefined]
    by (fastforce simp: path_def d c_str_def)
qed

section \<open>The response of a handler\<close>

text \<open>
  Header tables the loop can walk: different keys, none of them nil, and no numeric key with a
  value that counts as a string.
\<close>

definition walkable :: "lua_table \<Rightarrow> bool" where
  "walkable t \<longleftrightarrow> distinct (map fst t) \<and> Nil \<notin> fst ` set t \<and>
     (\<forall>(k, v)\<in>set t. lua_isstring v \<longrightarrow> (\<forall>x. k \<noteq> Number x))"

definition string_headers :: "lua_script \<Rightarrow> lua_table \<Rightarrow> (string \<times> string) list" where
  "string_headers L t = List.map_filter (\<lambda>(k, v).
     if lua_isstring v \<and> lua_isstring k
     then Some (c_str (the (lua_tolstring L k)), c_str (the (lua_tolstring L v))) else None) t"

definition add_headers :: "(string \<times> string) list \<Rightarrow> request \<Rightarrow> request" where
  "add_headers hs r = fold (\<lambda>(k, v). add_header k v) hs r"

lemma add_headers_adds:
  "response_headers (add_headers hs r) = response_headers r + mset hs"
  "response_body (add_headers hs r) = response_body r"
  "unanswered (add_headers hs r) = unanswered r"
  "m_mode (add_headers hs r) = m_mode r" "m_method (add_headers hs r) = m_method r"
  by (induction hs arbitrary: r) (auto simp: add_headers_def add_header_adds)

lemma lua_isstring_tolstring: "lua_isstring v \<longleftrightarrow> (\<exists>s. lua_tolstring L v = Some s)"
  by (cases v) auto

lemma lua_next_at:
  assumes "distinct (map fst (us @ e # vs))" "fst e \<noteq> Nil"
  shows "lua_next (us @ e # vs) (fst e) = Inr (case vs of [] \<Rightarrow> None | f # fs \<Rightarrow> Some f)"
proof -
  have "dropWhile (\<lambda>f. fst f \<noteq> fst e) (us @ e # vs) = e # vs"
    using assms(1) by (subst dropWhile_append2) (auto simp: rev_image_eqI)
  with assms(2) show ?thesis by (cases "fst e") (auto split: list.split)
qed

lemma header_loop_rest:
  assumes "walkable (us @ vs)"
    and "us = [] \<and> key = Nil \<or> (\<exists>us' e. us = us' @ [e] \<and> key = fst e)" "length vs < fuel"
  shows "header_loop fuel L (us @ vs) key r = Some (add_headers (string_headers L vs) r, Inr ())"
  using assms
proof (induction vs arbitrary: us key r fuel)
  case Nil
  then obtain n where n: "fuel = Suc n" by (cases fuel) auto
  have "lua_next us key = Inr None"
    using Nil lua_next_at [of _ _ "[]"] by (auto simp: walkable_def)
  with n show ?case by (simp add: string_headers_def add_headers_def map_filter_simps)
next
  case (Cons f vs)
  obtain n where n: "fuel = Suc n" "length vs < n" using Cons.prems(3) by (cases fuel) auto
  obtain k v where f: "f = (k, v)" by (cases f)
  have nx: "lua_next (us @ f # vs) key = Inr (Some f)"
    using Cons.prems(1,2) lua_next_at [of _ _ "f # vs"] by (auto simp: walkable_def)
  have w: "walkable ((us @ [f]) @ vs)" using Cons.prems(1) by simp
  note IH = Cons.IH [OF w disjI2 n(2)]
  show ?case
  proof (cases "lua_isstring v \<and> lua_isstring k")
    case True
    with Cons.prems(1) f have "\<forall>x. k \<noteq> Number x" by (auto simp: walkable_def)
    then have "converted L k = k" by (cases k) auto
    moreover from True obtain a b where "lua_tolstring L k = Some a" "lua_tolstring L v = Some b"
      by (auto simp: lua_isstring_tolstring [where L = L])
    ultimately show ?thesis using True n(1) nx IH [of k] f
      by (simp add: string_headers_def add_headers_def map_filter_simps)
  next
    case False
    with n(1) nx IH [of k] f show ?thesis
      by (auto simp: string_headers_def add_headers_def map_filter_simps)
  qed
qed

lemma header_loop_all:
  "walkable t \<Longrightarrow> length t < fuel \<Longrightarrow>
   header_loop fuel L t Nil r = Some (add_headers (string_headers L t) r, Inr ())"
  using header_loop_rest [of "[]" t Nil fuel L r] by simp

text \<open>
  A numeric key with a string value ends the loop with an error that is no exception of the
  server: the loop turns the key on the stack into a string, which is no key of the table.
\<close>
theorem numeric_header_key_fails:
  assumes "walkable us" "distinct (map fst (us @ (Number x, v) # vs))" "Nil \<notin> fst ` set vs" "lua_isstring v"
    and "Str (number_string L x) \<notin> fst ` set (us @ vs)" "length us + 1 < fuel"
  shows "\<exists>r'. header_loop fuel L (us @ (Number x, v) # vs) Nil r =
     Some (r', Inl (Lua_error ''invalid key to next''))"
proof -
  let ?t = "us @ (Number x, v) # vs"
  obtain s where s: "lua_tolstring L v = Some s"
    using assms(4) by (auto simp: lua_isstring_tolstring [where L = L])
  have miss: "lua_next ?t (Str (number_string L x)) = Inl (Lua_error ''invalid key to next'')"
  proof -
    have "dropWhile (\<lambda>e. fst e \<noteq> Str (number_string L x)) ?t = []"
      using assms(5) by (force simp: dropWhile_eq_Nil_conv)
    then show ?thesis by (simp only: lua_next.simps list.case)
  qed
  have "\<exists>r'. header_loop n L ?t key q = Some (r', Inl (Lua_error ''invalid key to next''))"
    if "us = ws @ ys" "ws = [] \<and> key = Nil \<or> (\<exists>ws' e. ws = ws' @ [e] \<and> key = fst e)" "length ys + 1 < n"
    for n ws ys key q
    using that
  proof (induction ys arbitrary: ws key q n)
    case Nil
    then obtain m where m: "n = Suc (Suc m)" by (cases n; cases "n - 1") auto
    have "lua_next ?t key = Inr (Some (Number x, v))"
      using Nil assms(1,2) lua_next_at [of _ _ "(Number x, v) # vs"] by (auto simp: walkable_def)
    with m s miss show ?case by (cases v) auto
  next
    case (Cons f ys)
    then obtain m where m: "n = Suc m" "length ys + 1 < m" by (cases n) auto
    obtain k w where f: "f = (k, w)" by (cases f)
    have nx: "lua_next ?t key = Inr (Some f)"
      using Cons.prems(1,2) assms(1,2) lua_next_at [of _ _ "f # ys @ (Number x, v) # vs"]
      by (auto simp: walkable_def)
    note IH = Cons.IH [of "ws @ [f]", OF _ disjI2 m(2)]
    show ?case
    proof (cases "lua_isstring w \<and> lua_isstring k")
      case True
      with assms(1) Cons.prems(1) f have "\<forall>x. k \<noteq> Number x" by (auto simp: walkable_def)
      then have "converted L k = k" by (cases k) auto
      moreover from True obtain a b where "lua_tolstring L k = Some a" "lua_tolstring L w = Some b"
        by (auto simp: lua_isstring_tolstring [where L = L])
      ultimately show ?thesis using True m(1) nx IH [of k] f Cons.prems(1) by simp
    next
      case False
      with m(1) nx IH [of k] f Cons.prems(1) show ?thesis by auto
    qed
  qed
  from this [of "[]" us Nil fuel r] assms(6) show ?thesis by simp
qed

definition array_script :: lua_script where
  "array_script = \<lparr>global = (\<lambda>f. Function 0), call = (\<lambda>f args. Inr Nil), string_number = (\<lambda>s. None),
     number_string = (\<lambda>x. ''1''), add_traceback = (\<lambda>s. s), call_tostring = (\<lambda>v. None)\<rparr>"

theorem numeric_header_key_fails_witness:
  "\<exists>r'. header_loop 2 array_script [(Number 1, Str ''x'')] Nil sample_request =
     Some (r', Inl (Lua_error ''invalid key to next''))"
  using numeric_header_key_fails [of "[]" 1 "Str ''x''" "[]" array_script 2 sample_request]
  by (simp add: walkable_def)

section \<open>Handling a request\<close>

definition default_response :: lua_value where
  "default_response =
     Table [(Str ''status'', Number 200), (Str ''content'', Str ''''), (Str ''headers'', Table [])]"

lemma push_response_default: "push_response st = default_response # st"
  by (simp add: push_response_def default_response_def lua_pushstring_def c_str_def Let_def)

lemma map_sum_Inr: "map_sum f id x = Inr y \<longleftrightarrow> x = Inr y"
  by (cases x) simp_all

lemma call_handler_returns:
  assumes "headers_size r < fuel" "cookie_table r = Inr c" "lua_isfunction (global L (c_str fn))"
    and "call L (global L (c_str fn)) [Table (request_table now r c), default_response] = Inr v"
  shows "call_handler L fuel now fn r st = Some (r, Inr (v # st))"
  using assms by (simp add: call_handler_def push_request_table push_response_default lua_pcall_def Let_def)

text \<open>A response the engine can use: what it reads as status, headers and content.\<close>

definition usable :: "lua_script \<Rightarrow> lua_table \<Rightarrow> int \<Rightarrow> (string \<times> string) list \<Rightarrow> string \<Rightarrow> bool" where
  "usable L t status hs cont \<longleftrightarrow>
     (\<exists>x h. lua_tonumber L (raw_get t (Str ''status'')) = Some x \<and> status = to_c_int (trunc x) \<and>
        raw_get t (Str ''headers'') = Table h \<and> walkable h \<and> hs = string_headers L h \<and>
        lua_tolstring L (raw_get t (Str ''content'')) = Some cont)"

definition header_count :: "lua_table \<Rightarrow> nat" where
  "header_count t = (case raw_get t (Str ''headers'') of Table h \<Rightarrow> length h | _ \<Rightarrow> 0)"

lemma run_handler_usable:
  assumes c: "headers_size r < fuel" "cookie_table r = Inr c" "lua_isfunction (global L (c_str fn))"
      "call L (global L (c_str fn)) [Table (request_table now r c), default_response] = Inr (Table t)"
    and u: "usable L t status hs cont" "header_count t < fuel"
    and s: "send_response status cont (add_headers hs r) = Inr r'"
  shows "run_handler L fuel now fn r st = Some (r', Inr st)"
proof -
  from u(1) obtain x h where
    x: "lua_tonumber L (raw_get t (Str ''status'')) = Some x" "status = to_c_int (trunc x)" and
    h: "raw_get t (Str ''headers'') = Table h" "walkable h" "hs = string_headers L h" and
    cn: "lua_tolstring L (raw_get t (Str ''content'')) = Some cont"
    unfolding usable_def by (elim exE conjE)
  have "read_status L (Table t # st) = Inr (status, Table t # st)"
    using x by (simp add: read_status_def lua_isnumber_def lua_tointeger_def Let_def)
  moreover have "read_headers fuel L r (Table t # st) = Some (add_headers hs r, Inr (Table t # st))"
    using h u(2) by (simp add: read_headers_def header_loop_all header_count_def)
  moreover have "send_content L status (add_headers hs r) (Table t # st) = Some (r', Inr st)"
    using cn s by (simp add: send_content_def lua_isstring_tolstring [where L = L] Let_def)
  ultimately show ?thesis
    by (simp add: run_handler_def call_handler_returns [OF c] and_then_def)
qed

lemma to_c_int_less: "to_c_int i < 2 ^ 32"
  using sint_lt [of "word_of_int i :: 32 word"] by (simp add: to_c_int_def)

lemma handle_request_usable:
  assumes "get_state env w m = (Inr a, m1)" "unanswered r"
    and "headers_size r < fuel" "cookie_table r = Inr c" "lua_isfunction (global (scripts a) (c_str fn))"
    and "call (scripts a) (global (scripts a) (c_str fn)) [Table (request_table now r c), default_response] =
      Inr (Table t)"
    and "usable (scripts a) t status hs cont" "header_count t < fuel" "0 \<le> status"
  shows "\<exists>r'.
     handle_request env scripts fuel now w fn r m stacks = Some (Inr (), r', free_state w a m1, stacks) \<and>
     answer r' = Some (status, final_headers (m_mode r) (response_headers r + mset hs) cont, response_body r @ cont)"
proof -
  have "status < 2 ^ 32"
    using assms(7) to_c_int_less unfolding usable_def by (elim exE conjE) simp
  then obtain r' where r': "send_response status cont (add_headers hs r) = Inr r'"
    "answer r' = Some (status, final_headers (m_mode (add_headers hs r)) (response_headers (add_headers hs r)) cont,
       response_body (add_headers hs r) @ cont)"
    using send_answers [of "add_headers hs r" status cont] assms(2,9) by (auto simp: add_headers_adds)
  with run_handler_usable [OF assms(3-8) r'(1), of "stacks a"] assms(1) show ?thesis
    by (intro exI [of _ r']) (simp add: handle_request_def add_headers_adds)
qed

text \<open>
  When the handler of the route is a function whose response has a numeric status, a header
  table and a string as content, the request is answered with that status, those headers whose
  names and values are strings, and that content; the state goes back to its cache with the
  stack it was taken with.
\<close>
theorem handle_request_answers:
  assumes "get_state env w m = (Inr a, m1)" "unanswered r"
    and "headers_size r < fuel" "cookie_table r = Inr c" "lua_isfunction (global (scripts a) (c_str fn))"
    and "call (scripts a) (global (scripts a) (c_str fn)) [Table (request_table now r c), default_response] =
      Inr (Table t)"
    and "usable (scripts a) t status hs cont" "header_count t < fuel" "0 \<le> status"
  shows "\<exists>r'.
     handle_request env scripts fuel now w fn r m stacks = Some (Inr (), r', free_state w a m1, stacks) \<and>
     answer r' = Some (status, final_headers (m_mode r) (response_headers r + mset hs) cont, response_body r @ cont)"
  by (rule handle_request_usable) (fact assms)+

definition sample_script :: lua_script where
  "sample_script = \<lparr>global = (\<lambda>f. Function 0),
     call = (\<lambda>f args. Inr (Table
       [(Str ''status'', Number 201), (Str ''content'', Str ''hi''), (Str ''headers'', Table [(Str ''k'', Str ''v'')])])),
     string_number = (\<lambda>s. None), number_string = (\<lambda>x. ''''), add_traceback = (\<lambda>s. s),
     call_tostring = (\<lambda>v. None)\<rparr>"

theorem handle_request_answers_witness:
  "\<exists>r' m'. handle_request sample_env (\<lambda>a. sample_script) 2 0 0 ''f'' sample_request
       (new_state_manager False [] []) (\<lambda>a. []) = Some (Inr (), r', m', \<lambda>a. []) \<and>
     answer r' = Some (201, {#(''x-a'', ''1''), (''k'', ''v''), (''server'', ''petrel'')#}, ''hi'')"
proof -
  have r: "req_data sample_request = Http_data \<lparr>sr_method = '''', sr_path = '''', sr_proto = ''http'',
      sr_message = \<lparr>msg_headers = [], msg_body = ''''\<rparr>, sr_remote_endpoint = \<lparr>ep_address = ''::1'', ep_is_v4 = False\<rparr>,
      sr_response = \<lparr>res_status = 200, res_message = \<lparr>msg_headers = [(''x-a'', ''1'')], msg_body = ''''\<rparr>\<rparr>,
      ready = False\<rparr>"
    by (simp add: sample_request_def add_header_def new_session_request_def new_response_def Let_def)
  let ?t = "[(Str ''status'', Number 201), (Str ''content'', Str ''hi''), (Str ''headers'', Table [(Str ''k'', Str ''v'')])]"
  obtain a m1 where g: "get_state sample_env 0 (new_state_manager False [] []) = (Inr a, m1)"
    by (simp add: get_state_def take_state_def vector_take_def new_state_manager_def create_state_def
        sample_env_def Let_def load_code_from_scripts_def load_code_from_strings_def)
  have u: "unanswered sample_request" "headers_size sample_request < 2" "cookie_table sample_request = Inr None"
    by (simp_all add: unanswered_def headers_size_def cookie_table_def header_exists_def find_key_def r)
  have c: "lua_isfunction (global sample_script (c_str ''f''))"
    "call sample_script (global sample_script (c_str ''f'')) args = Inr (Table ?t)" for args
    by (simp_all add: sample_script_def)
  have us: "usable sample_script ?t 201 [(''k'', ''v'')] ''hi''" "header_count ?t < 2"
    by (simp_all add: usable_def header_count_def raw_get_def sample_script_def to_c_int_def trunc_def
        walkable_def string_headers_def map_filter_simps c_str_def)
  have "(0::int) \<le> 201" by simp
  from handle_request_answers [OF g u c us this, where stacks = "\<lambda>a. []" and now = 0]
  obtain r' where r': "handle_request sample_env (\<lambda>a. sample_script) 2 0 0 ''f'' sample_request
       (new_state_manager False [] []) (\<lambda>a. []) = Some (Inr (), r', free_state 0 a m1, \<lambda>a. [])"
    "answer r' = Some (201, final_headers (m_mode sample_request)
       (response_headers sample_request + mset [(''k'', ''v'')]) ''hi'', response_body sample_request @ ''hi'')"
    by auto
  have "answer r' = Some (201, {#(''x-a'', ''1''), (''k'', ''v''), (''server'', ''petrel'')#}, ''hi'')"
    using r'(2) by (simp add: final_headers_def m_mode_def response_headers_def response_body_def r add_mset_commute)
  with r'(1) show ?thesis by (intro exI [of _ r'] exI [of _ "free_state 0 a m1"] conjI)
qed

section \<open>Failing handlers\<close>

lemma fold_cookie_step_fails: "fold_result cookie_step t ps = Inl e \<Longrightarrow> e = Bad_access"
proof (induction ps arbitrary: t)
  case (Cons p ps)
  then show ?case by (auto simp: cookie_step_def Let_def split: sum.splits if_splits prod.splits)
qed simp

lemma cookie_table_fails: "cookie_table r = Inl e \<Longrightarrow> e = Bad_access"
  by (cases "fold_result cookie_step [] (parts_after [] (header ''cookie'' r))")
     (auto simp: cookie_table_def dest: fold_cookie_step_fails split: if_splits)

definition handler_error :: "cpp_error \<Rightarrow> bool" where
  "handler_error e \<longleftrightarrow> (\<exists>msg. e = Runtime_error msg) \<or>
     e \<in> {Null_dereference, Bad_access, Lua_error ''invalid key to next''}"

lemma handler_error_simps [simp]:
  "handler_error (Runtime_error msg)" "handler_error (log_throw msgs)" "handler_error Null_dereference"
  "handler_error Bad_access" "handler_error (Lua_error ''invalid key to next'')"
  by (simp_all add: handler_error_def log_throw_def)

lemma call_handler_fails:
  assumes "headers_size r < fuel" "call_handler L fuel now fn r st = Some (r', x)"
  shows "r' = r \<and> (\<forall>e. x = Inl e \<longrightarrow> handler_error e)"
  using assms(2) cookie_table_fails [of r]
  by (auto simp: call_handler_def push_request_table [OF assms(1)] Let_def split: if_splits sum.splits option.splits)

lemma read_status_fails: "read_status L st = Inl e \<Longrightarrow> handler_error e"
  by (auto simp: read_status_def Let_def split: if_splits)

lemma lua_next_fails: "lua_next t k = Inl e \<Longrightarrow> e = Lua_error ''invalid key to next''"
  by (cases k) (auto split: list.splits)

text \<open>Whatever happens, the loop only adds headers.\<close>

lemma header_loop_adds:
  "header_loop fuel L t key r = Some (r', x) \<Longrightarrow>
   (\<exists>hs. r' = add_headers hs r) \<and> (\<forall>e. x = Inl e \<longrightarrow> handler_error e)"
proof (induction fuel arbitrary: key r)
  case (Suc n)
  show ?case
  proof (cases "lua_next t key")
    case (Inl e)
    with Suc.prems lua_next_fails [OF Inl] show ?thesis by (auto intro: exI [of _ "[]"] simp: add_headers_def)
  next
    case (Inr o')
    show ?thesis
    proof (cases o')
      case None
      with Suc.prems Inr show ?thesis by (auto intro: exI [of _ "[]"] simp: add_headers_def)
    next
      case (Some kv)
      obtain k v where kv: "kv = (k, v)" by (cases kv)
      show ?thesis
      proof (cases "lua_isstring v \<and> lua_isstring k")
        case True
        then obtain a b where ab: "lua_tolstring L k = Some a" "lua_tolstring L v = Some b"
          by (auto simp: lua_isstring_tolstring [where L = L])
        with Suc.prems Inr Some kv True have "header_loop n L t (converted L k) (add_header (c_str a) (c_str b) r) = Some (r', x)"
          by simp
        from Suc.IH [OF this] obtain hs where
          "r' = add_headers hs (add_header (c_str a) (c_str b) r)" "\<forall>e. x = Inl e \<longrightarrow> handler_error e"
          by auto
        then show ?thesis by (auto intro: exI [of _ "(c_str a, c_str b) # hs"] simp: add_headers_def)
      next
        case False
        with Suc.prems Inr Some kv have "header_loop n L t k r = Some (r', x)" by auto
        from Suc.IH [OF this] show ?thesis .
      qed
    qed
  qed
qed simp

lemma send_content_fails:
  assumes "unanswered r" "send_content L status r st = Some (r', Inl e)"
  shows "handler_error e \<and> r' = r"
proof -
  have "send_response status cont r \<noteq> Inl e'" for cont e'
    using send_succeeds [OF assms(1), of status cont] by auto
  with assms(2) show ?thesis
    by (auto simp: send_content_def Let_def split: if_splits option.splits sum.splits)
qed

lemma run_handler_fails:
  assumes "headers_size r < fuel" "unanswered r" "run_handler L fuel now fn r st = Some (r', Inl e)"
  shows "handler_error e \<and> (\<exists>hs. r' = add_headers hs r)"
proof -
  have none: "r = add_headers [] r" by (simp add: add_headers_def)
  obtain r1 x where 1: "call_handler L fuel now fn r st = Some (r1, x)"
    using assms(3) by (auto simp: run_handler_def and_then_def split: option.splits)
  from call_handler_fails [OF assms(1) 1] have r1: "r1 = r" "\<And>e. x = Inl e \<Longrightarrow> handler_error e" by auto
  show ?thesis
  proof (cases x)
    case (Inl e')
    with assms(3) 1 r1 none show ?thesis by (auto simp: run_handler_def and_then_def)
  next
    case (Inr st1)
    show ?thesis
    proof (cases "read_status L st1")
      case (Inl e')
      with assms(3) 1 Inr r1 none read_status_fails [OF Inl] show ?thesis
        by (auto simp: run_handler_def and_then_def)
    next
      case st2: (Inr p)
      obtain status st2 where p: "p = (status, st2)" by (cases p)
      with assms(3) 1 Inr r1 st2 have
        3: "and_then (read_headers fuel L r st2) (send_content L status) = Some (r', Inl e)"
        by (simp add: run_handler_def and_then_def)
      then obtain r3 y where y: "read_headers fuel L r st2 = Some (r3, y)"
        by (auto simp: and_then_def split: option.splits)
      then have hs: "(\<exists>hs. r3 = add_headers hs r) \<and> (\<forall>e. y = Inl e \<longrightarrow> handler_error e)"
        using none header_loop_adds [of fuel L _ Nil r]
        by (fastforce simp: read_headers_def split: list.splits lua_value.splits option.splits sum.splits)
      show ?thesis
      proof (cases y)
        case (Inl e')
        with 3 y hs show ?thesis by (auto simp: and_then_def)
      next
        case (Inr st3)
        with 3 y have "send_content L status r3 st3 = Some (r', Inl e)" by (simp add: and_then_def)
        moreover from hs assms(2) have "unanswered r3" by (auto simp: add_headers_adds)
        ultimately have "handler_error e \<and> r' = r3" by (intro send_content_fails)
        with hs show ?thesis by simp
      qed
    qed
  qed
qed

text \<open>Whatever fails, the request has at most gained headers.\<close>

lemma call_handler_keeps: "call_handler L fuel now fn r st = Some (r', x) \<Longrightarrow> r' = r"
  by (auto simp: call_handler_def Let_def split: if_splits option.splits sum.splits)

lemma read_headers_adds: "read_headers fuel L r st = Some (r', x) \<Longrightarrow> \<exists>hs. r' = add_headers hs r"
  using header_loop_adds [of fuel L _ Nil r] exI [of "\<lambda>hs. r = add_headers hs r" "[]"]
  by (fastforce simp: read_headers_def add_headers_def split: list.splits lua_value.splits option.splits sum.splits)

lemma run_handler_error_request:
  assumes "unanswered r" "run_handler L fuel now fn r st = Some (r', Inl e)"
  shows "\<exists>hs. r' = add_headers hs r"
proof -
  have none: "\<exists>hs. r = add_headers hs r" by (rule exI [of _ "[]"]) (simp add: add_headers_def)
  from assms(2) obtain x where x: "call_handler L fuel now fn r st = Some (r, x)"
    by (auto simp: run_handler_def and_then_def dest: call_handler_keeps split: option.splits)
  show ?thesis
  proof (cases "\<exists>st1 p. x = Inr st1 \<and> read_status L st1 = Inr p")
    case False
    with assms(2) x none show ?thesis
      by (auto simp: run_handler_def and_then_def split: sum.splits)
  next
    case True
    with assms(2) x obtain status st2 where
      a: "and_then (read_headers fuel L r st2) (send_content L status) = Some (r', Inl e)"
      by (auto simp: run_handler_def and_then_def)
    then obtain r3 y where y: "read_headers fuel L r st2 = Some (r3, y)"
      by (auto simp: and_then_def split: option.splits)
    from read_headers_adds [OF y] obtain hs where hs: "r3 = add_headers hs r" ..
    with assms(1) have "unanswered r3" by (simp add: add_headers_adds)
    with a y have "r' = r3" by (cases y) (auto simp: and_then_def dest: send_content_fails)
    with hs show ?thesis by blast
  qed
qed

lemma handle_request_error_request:
  assumes "unanswered r"
    and "handle_request env scripts fuel now w fn r m stacks = Some (Inl e, r', m', stacks')"
  shows "\<exists>hs. r' = add_headers hs r"
proof (cases "get_state env w m")
  case (Pair x m1)
  show ?thesis
  proof (cases x)
    case (Inl e')
    with Pair assms(2) have "r' = add_headers [] r" by (simp add: handle_request_def add_headers_def)
    then show ?thesis ..
  next
    case (Inr a)
    with Pair assms(2) have "run_handler (scripts a) fuel now fn r (stacks a) = Some (r', Inl e)"
      by (auto simp: handle_request_def split: option.splits sum.splits)
    from run_handler_error_request [OF assms(1) this] show ?thesis .
  qed
qed

text \<open>
  C4. When handling a request that has not been answered fails after a state was taken, the
  request is still unanswered, its body empty of content and its headers only added to, so that
  the server can answer it with an error; but the Lua state is lost: it stays open, nobody uses
  it, and it is in no cache.
\<close>
theorem handle_request_fails:
  assumes "state_reachable (m, used, n)" "get_state env w m = (Inr a, m1)" "unanswered r" "headers_size r < fuel"
    and "handle_request env scripts fuel now w fn r m stacks = Some (Inl e, r', m', stacks')"
  shows "handler_error e \<and> unanswered r' \<and> response_body r' = response_body r \<and>
     response_headers r \<subseteq># response_headers r' \<and> m_mode r' = m_mode r \<and>
     state_reachable (m', add_mset a used, n) \<and> states m' a \<noteq> None \<and> a \<notin># cached m' \<and> a \<notin># used"
proof -
  from assms(2,5) have "run_handler (scripts a) fuel now fn r (stacks a) = Some (r', Inl e)" "m' = m1"
    by (auto simp: handle_request_def split: option.splits sum.splits)
  moreover from run_handler_fails [OF assms(4,3) this(1)] obtain hs where
    "handler_error e" "r' = add_headers hs r" by auto
  ultimately show ?thesis
    using assms(3) got_exclusive [OF assms(1,2)] state_reachable.get_state [OF assms(1,2)]
    by (simp add: add_headers_adds)
qed

theorem handle_request_fails_witness:
  "\<exists>m m' r'. state_reachable (m, {#}, 0) \<and>
     handle_request sample_env (\<lambda>a. array_script) 2 0 0 ''f'' sample_request m (\<lambda>a. []) =
       Some (Inl (Runtime_error ''repsonse is no table ''), r', m', \<lambda>a. []) \<and>
     state_reachable (m', {#0#}, 0) \<and> 0 \<notin># cached m' \<and> states m' 0 \<noteq> None"
proof -
  let ?m = "new_state_manager False [] []"
  have m: "state_reachable (?m, {#}, 0)" by (rule state_reachable.init)
  obtain m1 where g: "get_state sample_env 0 ?m = (Inr 0, m1)"
    by (simp add: get_state_def take_state_def vector_take_def new_state_manager_def create_state_def
        sample_env_def Let_def load_code_from_scripts_def load_code_from_strings_def)
  have r: "unanswered sample_request" "headers_size sample_request < 2" "cookie_table sample_request = Inr None"
    by (simp_all add: unanswered_def headers_size_def cookie_table_def header_exists_def find_key_def
        sample_request_def add_header_def new_session_request_def new_response_def Let_def)
  have "call_handler array_script 2 0 ''f'' sample_request [] = Some (sample_request, Inr [Nil])"
    by (intro call_handler_returns [OF r(2,3)]) (simp_all add: array_script_def)
  then have h: "handle_request sample_env (\<lambda>a. array_script) 2 0 0 ''f'' sample_request ?m (\<lambda>a. []) =
      Some (Inl (Runtime_error ''repsonse is no table ''), sample_request, m1, \<lambda>a. [])"
    by (simp add: handle_request_def g run_handler_def and_then_def read_status_def log_throw_def)
  from handle_request_fails [OF m g r(1,2) h] m h show ?thesis by auto
qed

text \<open>
  C20. Handling a request returns: with fuel for the request's headers and for the header table of
  every response the scripts can give, as long as those tables can be walked.
\<close>
theorem handle_request_returns:
  assumes "headers_size r < fuel"
    and "\<And>a f args t h. call (scripts a) f args = Inr (Table t) \<Longrightarrow> raw_get t (Str ''headers'') = Table h \<Longrightarrow>
      walkable h \<and> length h < fuel"
  shows "handle_request env scripts fuel now w fn r m stacks \<noteq> None"
proof -
  have "run_handler (scripts a) fuel now fn r st \<noteq> None" for a st
  proof -
    let ?L = "scripts a"
    have "call_handler ?L fuel now fn r st \<noteq> None"
      by (simp add: call_handler_def push_request_table [OF assms(1)] Let_def split: sum.split option.split)
    then obtain r1 x where 1: "call_handler ?L fuel now fn r st = Some (r1, x)" by auto
    show ?thesis
    proof (cases "\<exists>st1 status st2. x = Inr st1 \<and> read_status ?L st1 = Inr (status, st2)")
      case False
      with 1 show ?thesis by (auto simp: run_handler_def and_then_def split: sum.splits)
    next
      case True
      then obtain st1 status st2 where 2: "x = Inr st1" "read_status ?L st1 = Inr (status, st2)" by blast
      from 2(2) obtain t where t: "hd st1 = Table t" by (cases "hd st1") (auto simp: read_status_def)
      from 1 2(1) obtain args where "call ?L (global ?L (c_str fn)) args = Inr (hd st1)" "st1 \<noteq> []"
        by (auto simp: call_handler_def push_request_table [OF assms(1)] lua_pcall_def Let_def map_sum_Inr
            split: if_splits sum.splits option.splits)
      then have h: "walkable h \<and> length h < fuel" if "raw_get t (Str ''headers'') = Table h" for h
        using assms(2) t that by simp
      from 2(2) t \<open>st1 \<noteq> []\<close> have "st2 = st1" "st1 = Table t # tl st1"
        by (auto simp: read_status_def Let_def split: if_splits) (cases st1; simp)+
      then have "read_headers fuel ?L r1 st2 \<noteq> None"
        using h by (cases st1) (auto simp: read_headers_def header_loop_all split: lua_value.split)
      then have "and_then (read_headers fuel ?L r1 st2) (send_content ?L status) \<noteq> None"
        by (auto simp: and_then_def send_content_def Let_def split: sum.splits option.splits)
      with 1 2 show ?thesis by (simp add: run_handler_def and_then_def)
    qed
  qed
  then have "\<exists>q. run_handler (scripts a) fuel now fn r st = Some q" for a st by blast
  then show ?thesis by (auto simp: handle_request_def split: sum.split option.split prod.split) (metis option.distinct(1))
qed

theorem handle_request_returns_witness:
  "handle_request sample_env (\<lambda>a. sample_script) 2 0 0 ''f'' sample_request
     (new_state_manager False [] []) (\<lambda>a. []) \<noteq> None"
  by (rule handle_request_returns)
     (auto simp: sample_script_def raw_get_def walkable_def headers_size_def sample_request_def add_header_def
       new_session_request_def Let_def)

section \<open>Successful handlers\<close>

text \<open>A handler that returns has sent the request's response.\<close>

lemma run_handler_sends:
  assumes "run_handler L fuel now fn r st = Some (r', Inr st')"
  shows "\<exists>hs status cont. send_response status cont (add_headers hs r) = Inr r'"
proof -
  from assms obtain st1 where 1: "call_handler L fuel now fn r st = Some (r, Inr st1)"
    by (auto simp: run_handler_def and_then_def dest: call_handler_keeps split: option.splits sum.splits)
  from assms 1 obtain status st2 where 2: "read_status L st1 = Inr (status, st2)"
    "and_then (read_headers fuel L r st2) (send_content L status) = Some (r', Inr st')"
    by (auto simp: run_handler_def and_then_def split: sum.splits)
  then obtain r3 st3 where 3: "read_headers fuel L r st2 = Some (r3, Inr st3)"
    "send_content L status r3 st3 = Some (r', Inr st')"
    by (auto simp: and_then_def split: option.splits sum.splits)
  from 3(2) obtain cont where "send_response status cont r3 = Inr r'"
    by (auto simp: send_content_def Let_def split: if_splits option.splits sum.splits)
  with read_headers_adds [OF 3(1)] show ?thesis by blast
qed

lemma handle_request_sends:
  assumes "handle_request env scripts fuel now w fn r m stacks = Some (Inr u, r', m', stacks')" "m_mode r = HTTP"
  shows "m_mode r' = HTTP \<and> answer r' \<noteq> None"
proof -
  from assms(1) obtain a st where "run_handler (scripts a) fuel now fn r (stacks a) = Some (r', Inr st)"
    by (auto simp: handle_request_def split: prod.splits sum.splits option.splits)
  from run_handler_sends [OF this] obtain hs status cont where
    "send_response status cont (add_headers hs r) = Inr r'" by blast
  from send_response_mode [OF this] assms(2) show ?thesis by (simp add: add_headers_adds)
qed

text \<open>A request uses the manager as its clients do: the state it takes is returned or remains in use.\<close>

lemma handle_request_states:
  assumes "state_reachable (m, used, n)"
    and "handle_request env scripts fuel now w fn r m stacks = Some (x, r', m', stacks')"
  shows "\<exists>used n. state_reachable (m', used, n)"
proof (cases "get_state env w m")
  case (Pair y m1)
  show ?thesis
  proof (cases y)
    case (Inl e)
    with Pair assms(2) have "m' = m1" by (simp add: handle_request_def)
    with state_reachable.get_failed [OF assms(1)] Pair Inl show ?thesis by blast
  next
    case (Inr a)
    note g = state_reachable.get_state [OF assms(1) Pair [unfolded Inr]]
    from Pair Inr assms(2) have "m' = m1 \<or> m' = free_state w a m1"
      by (auto simp: handle_request_def split: option.splits sum.splits)
    with g state_reachable.free [OF g, of a w] show ?thesis by auto
  qed
qed

end
