(* ===== verification/Router.thy ===== *)
theory Router
  imports Prelude
begin

text \<open>
  The router (\<open>src/core/router.h\<close>): \<open>path_set\<close> is a trie over bytes, an array of 256 nodes per
  level, and \<open>router\<close> maps a request path to the handler of the longest registered prefix, or
  to the default (404) handler. The interface the router relies on is the locale
  \<open>prefix_table\<close>; the trie interprets it.
\<close>

section \<open>The trie\<close>

text \<open>
  \<open>path_node\<close>: an array of 256 nodes indexed by an unsigned byte is a function on bytes, a
  null \<open>next\<close> pointer is \<open>None\<close>.
\<close>

datatype 'f path_node =
  Path_node (node_term: bool) (node_func: "'f std_function")
    (node_next: "(uint8 \<Rightarrow> 'f path_node) option")

type_synonym 'f path_array = "uint8 \<Rightarrow> 'f path_node"

text \<open>\<open>new node_type[256]\<close>, and the member \<open>root\<close> of a fresh set.\<close>

definition new_path_array :: "'f path_array" where
  "new_path_array = (\<lambda>_. Path_node False None None)"

text \<open>
  \<open>path_set::insert\<close>. The loop variable \<open>i\<close> is the position in the path; the recursion is on
  what is left of the path, and \<open>i == path.length() - 1\<close> is the case of one character left.
\<close>

fun path_set_insert :: "'f path_array \<Rightarrow> string \<Rightarrow> 'f std_function \<Rightarrow> 'f path_array result" where
  "path_set_insert next [] func = Inl (Runtime_error ''insert failed'')"
| "path_set_insert next (ch # rest) func =
     (let c = to_uint8 ch; node = next c in
      if rest = [] then
        Inr (next(c := Path_node True func (node_next node)))
      else
        (let nx = (case node_next node of None \<Rightarrow> new_path_array | Some a \<Rightarrow> a) in
         case path_set_insert nx rest func of
           Inl e \<Rightarrow> Inl e
         | Inr nx' \<Rightarrow> Inr (next(c := Path_node (node_term node) (node_func node) (Some nx')))))"

text \<open>\<open>path_set::find\<close>: the loop with \<open>found\<close> as its accumulator, then the test after it.\<close>

fun path_set_find_loop :: "'f path_array \<Rightarrow> 'f path_node option \<Rightarrow> string \<Rightarrow> 'f path_node option" where
  "path_set_find_loop next found [] = found"
| "path_set_find_loop next found (ch # rest) =
     (let node = next (to_uint8 ch);
          found' = (if node_term node then Some node else found) in
      case node_next node of
        None \<Rightarrow> found'
      | Some nx \<Rightarrow> path_set_find_loop nx found' rest)"

definition path_set_find :: "'f path_array \<Rightarrow> string \<Rightarrow> 'f std_function result" where
  "path_set_find root path =
     (case path_set_find_loop root None path of
        Some found \<Rightarrow> Inr (node_func found)
      | None \<Rightarrow> Inl (Runtime_error ''find failed''))"

section \<open>The router\<close>

record 'f router =
  m_set :: "'f path_array"
  m_default_func :: "'f std_function"

text \<open>The constructor; \<open>not_found\<close> is the lambda that answers 404.\<close>

definition new_router :: "'f \<Rightarrow> 'f router" where
  "new_router not_found = \<lparr>m_set = new_path_array, m_default_func = Some not_found\<rparr>"

definition add_route :: "'f router \<Rightarrow> string \<Rightarrow> 'f std_function \<Rightarrow> 'f router result" where
  "add_route r path func =
     (case path_set_insert (m_set r) path func of
        Inl e \<Rightarrow> Inl e
      | Inr s \<Rightarrow> Inr (r\<lparr>m_set := s\<rparr>))"

text \<open>\<open>find_route\<close> catches the \<open>runtime_error\<close> of \<open>find\<close> and returns the default.\<close>

definition find_route :: "'f router \<Rightarrow> string \<Rightarrow> 'f std_function" where
  "find_route r path =
     (case path_set_find (m_set r) path of Inr f \<Rightarrow> f | Inl _ \<Rightarrow> m_default_func r)"

text \<open>A bootstrap function registers its routes one after the other.\<close>

definition add_routes :: "'f router \<Rightarrow> (string \<times> 'f std_function) list \<Rightarrow> 'f router result" where
  "add_routes = fold_result (\<lambda>r (p, f). add_route r p f)"

section \<open>What a prefix table promises\<close>

text \<open>
  The abstract table is a map from non-empty paths. A lookup answers with the entry of the
  longest non-empty prefix that has one.
\<close>

fun longest_match :: "(string \<rightharpoonup> 'v) \<Rightarrow> string \<Rightarrow> 'v option" where
  "longest_match m [] = None"
| "longest_match m (c # cs) =
     (case longest_match (\<lambda>q. m (c # q)) cs of Some v \<Rightarrow> Some v | None \<Rightarrow> m [c])"

lemma longest_match_None_iff:
  "longest_match m p = None \<longleftrightarrow> (\<forall>q. q \<noteq> [] \<and> prefix q p \<longrightarrow> m q = None)"
proof (induction m p rule: longest_match.induct)
  case (1 m)
  then show ?case by simp
next
  case (2 m c cs)
  have "(\<forall>q. q \<noteq> [] \<and> prefix q (c # cs) \<longrightarrow> m q = None) \<longleftrightarrow>
          m [c] = None \<and> (\<forall>q. q \<noteq> [] \<and> prefix q cs \<longrightarrow> m (c # q) = None)"
  proof -
    have "(\<forall>q. q \<noteq> [] \<and> prefix q (c # cs) \<longrightarrow> m q = None) \<longleftrightarrow> (\<forall>q. prefix q cs \<longrightarrow> m (c # q) = None)"
      by (auto simp: prefix_Cons)
    also have "\<dots> \<longleftrightarrow> m [c] = None \<and> (\<forall>q. q \<noteq> [] \<and> prefix q cs \<longrightarrow> m (c # q) = None)"
      by (rule iffI, simp, intro allI impI, case_tac "q = []", simp_all)
    finally show ?thesis .
  qed
  with "2.IH" show ?case by (auto split: option.splits)
qed

lemma longest_match_SomeD:
  "longest_match m p = Some v \<Longrightarrow>
     \<exists>q. q \<noteq> [] \<and> prefix q p \<and> m q = Some v \<and>
         (\<forall>q'. q' \<noteq> [] \<and> prefix q' p \<and> m q' \<noteq> None \<longrightarrow> length q' \<le> length q)"
proof (induction m p rule: longest_match.induct)
  case (1 m)
  then show ?case by simp
next
  case (2 m c cs)
  show ?case
  proof (cases "longest_match (\<lambda>q. m (c # q)) cs")
    case None
    with "2.prems" have "m [c] = Some v" by simp
    moreover have "length q \<le> 1" if "q \<noteq> []" "prefix q (c # cs)" "m q \<noteq> None" for q
      using that None by (auto simp: longest_match_None_iff prefix_Cons)
    ultimately show ?thesis
      by (intro exI [of _ "[c]"]) auto
  next
    case (Some w)
    with "2.prems" have "w = v" by simp
    with "2.IH" Some obtain q where q: "q \<noteq> []" "prefix q cs" "m (c # q) = Some v"
      and max: "\<And>q'. q' \<noteq> [] \<Longrightarrow> prefix q' cs \<Longrightarrow> m (c # q') \<noteq> None \<Longrightarrow> length q' \<le> length q"
      by blast
    have "length q' \<le> length (c # q)"
      if "q' \<noteq> []" "prefix q' (c # cs)" "m q' \<noteq> None" for q'
      using that max by (cases q'; cases "tl q'") fastforce+
    with q show ?thesis
      by (intro exI [of _ "c # q"]) auto
  qed
qed

lemma longest_match_map_option:
  "longest_match (\<lambda>q. map_option g (m q)) p = map_option g (longest_match m p)"
  by (induction m p rule: longest_match.induct) (auto split: option.splits)

text \<open>
  The contract: an insertion at a non-empty path succeeds and updates the table there, an
  insertion at the empty path throws, and a lookup answers with the longest match.
\<close>

locale prefix_table =
  fixes empty_table :: 't
    and ins :: "'t \<Rightarrow> string \<Rightarrow> 'v \<Rightarrow> 't result"
    and fnd :: "'t \<Rightarrow> string \<Rightarrow> 'v result"
    and entries :: "'t \<Rightarrow> string \<rightharpoonup> 'v"
  assumes entries_empty: "entries empty_table = Map.empty"
    and ins_entries: "p \<noteq> [] \<Longrightarrow> \<exists>t'. ins t p v = Inr t' \<and> entries t' = (entries t)(p \<mapsto> v)"
    and ins_empty_path: "\<not> is_ok (ins t [] v)"
    and fnd_entries: "fnd t p = Inr v \<longleftrightarrow> longest_match (entries t) p = Some v"
begin

lemma ins_all:
  assumes "\<forall>(p, v) \<in> set regs. p \<noteq> []"
  shows "\<exists>t'. fold_result (\<lambda>t (p, v). ins t p v) t regs = Inr t' \<and>
              entries t' = entries t ++ map_of (rev regs)"
  using assms
proof (induction regs arbitrary: t)
  case Nil
  then show ?case by simp
next
  case (Cons r regs)
  obtain p v where r: "r = (p, v)" by (cases r)
  with Cons.prems ins_entries [of p t v] obtain t1
    where t1: "ins t p v = Inr t1" "entries t1 = (entries t)(p \<mapsto> v)"
    by auto
  from Cons.prems have "\<forall>(p, v) \<in> set regs. p \<noteq> []" by simp
  from Cons.IH [OF this, of t1] obtain t2
    where t2: "fold_result (\<lambda>t (p, v). ins t p v) t1 regs = Inr t2"
      "entries t2 = entries t1 ++ map_of (rev regs)"
    by blast
  have "fold_result (\<lambda>t (p, v). ins t p v) t (r # regs) = Inr t2"
    using r t1(1) t2(1) by simp
  moreover have "entries t2 = entries t ++ map_of (rev (r # regs))"
    using r t1(2) t2(2) by (simp add: map_add_upd_left fun_eq_iff map_add_def split: option.splits)
  ultimately show ?case by blast
qed

text \<open>A table built by insertions answers a lookup from the longest registered prefix.\<close>

lemma fnd_after_ins_all:
  assumes "fold_result (\<lambda>t (p, v). ins t p v) empty_table regs = Inr t"
    and "\<forall>(p, v) \<in> set regs. p \<noteq> []"
  shows "fnd t p = Inr v \<longleftrightarrow> longest_match (map_of (rev regs)) p = Some v"
  using ins_all [OF assms(2), of empty_table] assms(1) by (simp add: fnd_entries entries_empty)

end

section \<open>The trie is a prefix table\<close>

text \<open>The entry stored at exactly one path: the abstraction of a trie.\<close>

fun path_set_node :: "'f path_array \<Rightarrow> string \<Rightarrow> 'f path_node option" where
  "path_set_node next [] = None"
| "path_set_node next (ch # rest) =
     (let node = next (to_uint8 ch) in
      if rest = [] then (if node_term node then Some node else None)
      else (case node_next node of None \<Rightarrow> None | Some nx \<Rightarrow> path_set_node nx rest))"

definition path_set_entry :: "'f path_array \<Rightarrow> string \<Rightarrow> 'f std_function option" where
  "path_set_entry next path = map_option node_func (path_set_node next path)"

lemma path_set_entry_new: "path_set_entry new_path_array = Map.empty"
proof
  fix p
  show "path_set_entry (new_path_array :: 'a path_array) p = None"
    by (cases p) (simp_all add: path_set_entry_def new_path_array_def Let_def)
qed

lemma path_set_entry_Nil [simp]: "path_set_entry next [] = None"
  by (simp add: path_set_entry_def)

lemma path_set_entry_Cons:
  "path_set_entry next (ch # rest) =
     (let node = next (to_uint8 ch) in
      if rest = [] then (if node_term node then Some (node_func node) else None)
      else path_set_entry (case node_next node of None \<Rightarrow> new_path_array | Some a \<Rightarrow> a) rest)"
  using fun_cong [OF path_set_entry_new, of rest]
  by (auto simp: path_set_entry_def Let_def split: option.splits)

lemma path_set_insert_entry:
  "p \<noteq> [] \<Longrightarrow> \<exists>next'. path_set_insert next p f = Inr next' \<and>
     path_set_entry next' = (path_set_entry next)(p \<mapsto> f)"
proof (induction p arbitrary: "next")
  case Nil
  then show ?case by simp
next
  case (Cons ch rest)
  let ?c = "to_uint8 ch" and ?node = "next (to_uint8 ch)"
  show ?case
  proof (cases "rest = []")
    case True
    let ?n = "next(?c := Path_node True f (node_next ?node))"
    have "path_set_entry ?n q = ((path_set_entry next)([ch] \<mapsto> f)) q" for q
      by (cases q) (auto simp: path_set_entry_Cons Let_def)
    then have "path_set_entry ?n = (path_set_entry next)([ch] \<mapsto> f)" by (rule ext)
    moreover have "path_set_insert next (ch # rest) f = Inr ?n"
      using True by (simp add: Let_def)
    ultimately show ?thesis using True by blast
  next
    case False
    define nx where "nx = (case node_next ?node of None \<Rightarrow> new_path_array | Some a \<Rightarrow> a)"
    from Cons.IH [OF False, of nx] obtain nx' where nx': "path_set_insert nx rest f = Inr nx'"
      and entry: "path_set_entry nx' = (path_set_entry nx)(rest \<mapsto> f)" by blast
    let ?n = "next(?c := Path_node (node_term ?node) (node_func ?node) (Some nx'))"
    have "path_set_entry ?n q = ((path_set_entry next)(ch # rest \<mapsto> f)) q" for q
      using False by (cases q) (auto simp: path_set_entry_Cons Let_def entry nx_def)
    then have "path_set_entry ?n = (path_set_entry next)(ch # rest \<mapsto> f)" by (rule ext)
    moreover have "path_set_insert next (ch # rest) f = Inr ?n"
      using False nx' by (simp add: Let_def nx_def)
    ultimately show ?thesis by blast
  qed
qed

lemma path_set_find_loop_longest:
  "path_set_find_loop next found p =
     (case longest_match (path_set_node next) p of Some n \<Rightarrow> Some n | None \<Rightarrow> found)"
proof (induction "next" found p rule: path_set_find_loop.induct)
  case (1 "next" found)
  then show ?case by simp
next
  case (2 "next" found ch rest)
  let ?node = "next (to_uint8 ch)"
  have below: "longest_match (\<lambda>q. path_set_node next (ch # q)) rest =
      (case node_next ?node of None \<Rightarrow> None | Some nx \<Rightarrow> longest_match (path_set_node nx) rest)"
  proof (cases rest)
    case (Cons d ds)
    have "longest_match (\<lambda>q. if q = [] then x else m q) (d # ds) = longest_match m (d # ds)"
      for x and m :: "string \<Rightarrow> 'a path_node option"
      by simp
    moreover have "longest_match (\<lambda>_. None) (d # ds) = (None :: 'a path_node option)"
      by (simp add: longest_match_None_iff del: longest_match.simps)
    ultimately show ?thesis using Cons
      by (cases "node_next ?node") (simp_all add: Let_def del: longest_match.simps)
  qed (simp split: option.split)
  have top: "longest_match (path_set_node next) (ch # rest) =
      (case (case node_next ?node of None \<Rightarrow> None | Some nx \<Rightarrow> longest_match (path_set_node nx) rest) of
         Some n \<Rightarrow> Some n | None \<Rightarrow> if node_term ?node then Some ?node else None)"
    by (simp only: longest_match.simps below) (simp add: Let_def split: option.splits)
  show ?case
  proof (cases "node_next ?node")
    case None
    then show ?thesis by (simp only: top) (simp add: Let_def)
  next
    case (Some nx)
    then show ?thesis
      using "2.IH" [OF refl refl Some] by (simp only: top) (simp add: Let_def split: option.splits)
  qed
qed

interpretation trie: prefix_table new_path_array path_set_insert path_set_find path_set_entry
proof unfold_locales
  fix t :: "'a path_array" and p :: string and v :: "'a std_function"
  show "path_set_find t p = Inr v \<longleftrightarrow> longest_match (path_set_entry t) p = Some v"
    by (auto simp: path_set_find_def path_set_find_loop_longest path_set_entry_def [abs_def]
        longest_match_map_option split: option.splits)
qed (simp_all add: path_set_entry_new path_set_insert_entry)

text \<open>The same over the entries of any router.\<close>

lemma find_route_entry:
  "find_route r path =
     (case longest_match (path_set_entry (m_set r)) path of Some f \<Rightarrow> f | None \<Rightarrow> m_default_func r)"
proof (cases "path_set_find (m_set r) path")
  case (Inl e)
  then have "longest_match (path_set_entry (m_set r)) path = None"
    using trie.fnd_entries [of "m_set r" path] by (cases "longest_match (path_set_entry (m_set r)) path") auto
  with Inl show ?thesis by (simp add: find_route_def)
next
  case (Inr f)
  then show ?thesis using trie.fnd_entries [of "m_set r" path f] by (simp add: find_route_def)
qed

lemma find_route_cases:
  "find_route r path = m_default_func r \<or>
   (\<exists>q f. prefix q path \<and> path_set_entry (m_set r) q = Some f \<and> find_route r path = f)"
  using longest_match_SomeD [of "path_set_entry (m_set r)" path]
  by (auto simp: find_route_entry split: option.split)

lemma add_route_entry:
  assumes "add_route r p f = Inr r'"
  shows "p \<noteq> [] \<and> path_set_entry (m_set r') = (path_set_entry (m_set r))(p \<mapsto> f) \<and>
    m_default_func r' = m_default_func r"
proof -
  have "p \<noteq> []" using assms by (cases p) (auto simp: add_route_def)
  with path_set_insert_entry [OF this, of "m_set r" f] assms show ?thesis by (auto simp: add_route_def)
qed

lemma find_route_after_add:
  assumes "add_route r p f = Inr r'"
    and "prefix p path" "\<And>q. prefix q path \<Longrightarrow> path_set_entry (m_set r) q \<noteq> None \<Longrightarrow> length q \<le> length p"
  shows "find_route r' path = f"
proof -
  from add_route_entry [OF assms(1)] have p: "p \<noteq> []"
    and e: "path_set_entry (m_set r') = (path_set_entry (m_set r))(p \<mapsto> f)" by auto
  from e assms(2) p have "longest_match (path_set_entry (m_set r')) path \<noteq> None"
    by (auto simp: longest_match_None_iff)
  then obtain g where g: "longest_match (path_set_entry (m_set r')) path = Some g" by auto
  from longest_match_SomeD [OF this] obtain q where q: "prefix q path"
    "path_set_entry (m_set r') q = Some g" "length p \<le> length q"
    using e p assms(2) by auto
  have "q = p"
  proof (rule ccontr)
    assume "q \<noteq> p"
    with q e have "length q \<le> length p" by (intro assms(3)) auto
    with q(3) have "length q = length p" by simp
    with q(1) assms(2) \<open>q \<noteq> p\<close> show False by (metis prefix_length_prefix prefix_order.antisym order_refl)
  qed
  with q e g show ?thesis by (simp add: find_route_entry)
qed

section \<open>Properties of the router\<close>

lemma add_routes_simps [simp]:
  "add_routes r [] = Inr r"
  "add_routes r ((p, f) # regs) =
     (case add_route r p f of Inl e \<Rightarrow> Inl e | Inr r' \<Rightarrow> add_routes r' regs)"
  unfolding add_routes_def by simp_all

lemma add_routes_m_set:
  "add_routes r regs =
     (case fold_result (\<lambda>t (p, v). path_set_insert t p v) (m_set r) regs of
        Inl e \<Rightarrow> Inl e | Inr s \<Rightarrow> Inr (r\<lparr>m_set := s\<rparr>))"
proof (induction regs arbitrary: r)
  case Nil
  then show ?case by simp
next
  case (Cons reg regs)
  obtain p v where reg: "reg = (p, v)" by (cases reg)
  show ?case
  proof (cases "path_set_insert (m_set r) p v")
    case (Inl e)
    then show ?thesis by (simp add: reg add_route_def)
  next
    case (Inr s)
    then show ?thesis by (simp add: reg add_route_def Cons.IH split: sum.split)
  qed
qed

lemma find_route_add_routes:
  assumes "\<forall>(p, f) \<in> set regs. p \<noteq> []" and "add_routes (new_router d) regs = Inr r"
  shows "find_route r path =
           (case longest_match (map_of (rev regs)) path of Some f \<Rightarrow> f | None \<Rightarrow> Some d)"
proof -
  from assms(2) obtain s where s: "fold_result (\<lambda>t (p, v). path_set_insert t p v) new_path_array regs = Inr s"
    and r: "r = (new_router d)\<lparr>m_set := s\<rparr>"
    by (auto simp: add_routes_m_set new_router_def split: sum.splits)
  show ?thesis
  proof (cases "path_set_find s path")
    case (Inl e)
    then have "longest_match (map_of (rev regs)) path = None"
      using trie.fnd_after_ins_all [OF s assms(1), of path]
      by (cases "longest_match (map_of (rev regs)) path") auto
    with Inl r show ?thesis by (simp add: find_route_def new_router_def)
  next
    case (Inr f)
    then have "longest_match (map_of (rev regs)) path = Some f"
      using trie.fnd_after_ins_all [OF s assms(1), of path f] by simp
    with Inr r show ?thesis by (simp add: find_route_def new_router_def)
  qed
qed

text \<open>
  C8. Routing is by longest registered prefix: after any sequence of \<open>add_route\<close> calls, a
  request path is answered by the function registered last for the longest registered route
  that is a prefix of the path, and by the default (404) function when no registered route is
  a prefix of it.
\<close>
theorem find_route_longest_prefix:
  assumes "\<forall>(p, f) \<in> set regs. p \<noteq> []" and "add_routes (new_router d) regs = Inr r"
  shows "(\<exists>q. prefix q path \<and> map_of (rev regs) q = Some (find_route r path) \<and>
              (\<forall>q' \<in> fst ` set regs. prefix q' path \<longrightarrow> length q' \<le> length q)) \<or>
         ((\<forall>q \<in> fst ` set regs. \<not> prefix q path) \<and> find_route r path = Some d)"
proof (cases "longest_match (map_of (rev regs)) path")
  case None
  have "\<not> prefix q path" if "q \<in> fst ` set regs" for q
  proof -
    from that assms(1) have "q \<noteq> []" and "map_of (rev regs) q \<noteq> None"
      by (auto simp: map_of_eq_None_iff)
    with None show ?thesis by (auto simp: longest_match_None_iff)
  qed
  with None show ?thesis by (simp add: find_route_add_routes [OF assms])
next
  case (Some f)
  from longest_match_SomeD [OF this] obtain q where "prefix q path" "map_of (rev regs) q = Some f"
    and max: "\<And>q'. q' \<noteq> [] \<Longrightarrow> prefix q' path \<Longrightarrow> map_of (rev regs) q' \<noteq> None \<Longrightarrow> length q' \<le> length q"
    by blast
  moreover have "length q' \<le> length q" if "q' \<in> fst ` set regs" "prefix q' path" for q'
    using that assms(1) by (intro max) (auto simp: map_of_eq_None_iff)
  ultimately show ?thesis
    by (intro disjI1 exI [of _ q]) (simp add: find_route_add_routes [OF assms] Some)
qed

definition sample_routes :: "(string \<times> nat std_function) list" where
  "sample_routes = [(''/'', Some 1), (''/test1'', Some 2), (''/test1/test2'', Some 3)]"

lemma sample_routes_nonempty: "\<forall>(p, f) \<in> set sample_routes. p \<noteq> []"
  by (simp add: sample_routes_def)

lemma sample_routes_ok: "\<exists>r. add_routes (new_router (404 :: nat)) sample_routes = Inr r"
proof -
  obtain s where
    "fold_result (\<lambda>t (p, v). path_set_insert t p v) new_path_array sample_routes = Inr s"
    using trie.ins_all [OF sample_routes_nonempty, of new_path_array] by blast
  then show ?thesis by (simp add: add_routes_m_set new_router_def)
qed

theorem find_route_longest_prefix_witness:
  "\<exists>r. add_routes (new_router (404 :: nat)) sample_routes = Inr r \<and>
       find_route r ''/test1/xxx'' = Some 2"
proof -
  obtain r where r: "add_routes (new_router (404 :: nat)) sample_routes = Inr r"
    using sample_routes_ok by blast
  from find_route_longest_prefix [OF sample_routes_nonempty r, of "''/test1/xxx''"]
  have "find_route r ''/test1/xxx'' = Some 2"
    by (auto simp: sample_routes_def split: if_splits)
  with r show ?thesis by blast
qed

text \<open>
  Registering routes succeeds exactly when no route has the empty path: \<open>path_set::insert\<close>
  throws for it, and the exception leaves \<open>add_route\<close>.
\<close>
theorem add_routes_ok_iff:
  "is_ok (add_routes r regs) \<longleftrightarrow> (\<forall>p \<in> set (map fst regs). p \<noteq> [])"
proof (induction regs arbitrary: r)
  case Nil
  then show ?case by simp
next
  case (Cons reg regs)
  obtain p f where reg: "reg = (p, f)" by (cases reg)
  show ?case
  proof (cases "p = []")
    case True
    then show ?thesis by (simp add: reg add_route_def)
  next
    case False
    from trie.ins_entries [OF this] obtain s where "path_set_insert (m_set r) p f = Inr s" by blast
    then show ?thesis
      using Cons.IH [of "r\<lparr>m_set := s\<rparr>"] False by (simp add: reg add_route_def)
  qed
qed

theorem add_routes_ok_iff_witness:
  "is_ok (add_routes (new_router (404 :: nat)) sample_routes) \<and>
   \<not> is_ok (add_routes (new_router (404 :: nat)) [([], Some 1)])"
  unfolding add_routes_ok_iff by (simp add: sample_routes_def)

end
