(* ===== verification/Session.thy ===== *)
theory Session
  imports Router Request
begin

text \<open>
  A client's session over HTTP/1 (\<open>src/core/session.cpp\<close>): the loop that reads a request from the
  socket, routes it, waits for its response and writes it. The socket is the HTTP library's: its
  operations are the parameter \<open>socket_ops\<close>, functions on a socket state, and the calls made
  on it are recorded in order. A fiber that waits for ever is one that does not end.
\<close>

section \<open>The socket\<close>

text \<open>\<open>http::read_state\<close>; the code tells three of its values from all others.\<close>

datatype read_state = Rs_empty | Rs_message_ready | Rs_body_ready | Rs_other

datatype socket_call =
    Read_request
  | Write_continue
  | Read_some
  | Read_trailers
  | Write_response uint64 string http_message
  | Close

text \<open>
  Every operation that can throw yields \<open>Inl\<close> the exception or \<open>Inr\<close> its result, with the socket
  afterwards. The last three are the error codes the session does not log.
\<close>

record 's socket_ops =
  so_is_open :: "'s \<Rightarrow> bool"
  so_remote_endpoint :: "'s \<Rightarrow> endpoint result"
  so_read_request :: "'s \<Rightarrow> (string \<times> string \<times> http_message) result \<times> 's"
  so_write_continue :: "'s \<Rightarrow> unit result \<times> 's"
  so_read_state :: "'s \<Rightarrow> read_state"
  so_read_some :: "http_message \<Rightarrow> 's \<Rightarrow> http_message result \<times> 's"
  so_read_trailers :: "http_message \<Rightarrow> 's \<Rightarrow> http_message result \<times> 's"
  so_write_response :: "uint64 \<Rightarrow> string \<Rightarrow> http_message \<Rightarrow> 's \<Rightarrow> unit result \<times> 's"
  so_close :: "'s \<Rightarrow> 's"
  so_continue_required :: "http_message \<Rightarrow> bool"
  so_status_text :: "uint64 \<Rightarrow> string"
  err_eof :: nat
  err_operation_aborted :: nat
  err_connection_reset :: nat

text \<open>The session's state: the socket, the calls made on it, and the errors logged.\<close>

record 's session =
  m_socket :: 's
  socket_calls :: "socket_call list"
  errors_logged :: "nat list"

definition new_session :: "'s \<Rightarrow> 's session" where
  "new_session k = \<lparr>m_socket = k, socket_calls = [], errors_logged = []\<rparr>"

definition called :: "socket_call \<Rightarrow> 's \<Rightarrow> 's session \<Rightarrow> 's session" where
  "called c k s = s\<lparr>m_socket := k, socket_calls := socket_calls s @ [c]\<rparr>"

definition log_error :: "nat \<Rightarrow> 's session \<Rightarrow> 's session" where
  "log_error c s = s\<lparr>errors_logged := errors_logged s @ [c]\<rparr>"

section \<open>Reading\<close>

text \<open>
  The inner loop. \<open>None\<close> as the outcome of a step is a fiber still at work; the fuel bounds the
  passes.
\<close>

type_synonym ('a, 's) progress = "'a result option \<times> 's session"

fun read_rest :: "nat \<Rightarrow> 's socket_ops \<Rightarrow> http_message \<Rightarrow> 's session \<Rightarrow> (http_message, 's) progress" where
  "read_rest 0 ops msg s = (None, s)"
| "read_rest (Suc n) ops msg s =
     (case so_read_state ops (m_socket s) of
        Rs_empty \<Rightarrow> (Some (Inr msg), s)
      | Rs_message_ready \<Rightarrow>
          (case so_read_some ops msg (m_socket s) of
             (Inl e, k) \<Rightarrow> (Some (Inl e), called Read_some k s)
           | (Inr msg', k) \<Rightarrow> read_rest n ops msg' (called Read_some k s))
      | Rs_body_ready \<Rightarrow>
          (case so_read_trailers ops msg (m_socket s) of
             (Inl e, k) \<Rightarrow> (Some (Inl e), called Read_trailers k s)
           | (Inr msg', k) \<Rightarrow> read_rest n ops msg' (called Read_trailers k s))
      | Rs_other \<Rightarrow> read_rest n ops msg s)"

definition session_continue :: "'s socket_ops \<Rightarrow> http_message \<Rightarrow> 's session \<Rightarrow> unit result \<times> 's session" where
  "session_continue ops msg s =
     (if so_continue_required ops msg then
        (case so_write_continue ops (m_socket s) of (x, k) \<Rightarrow> (x, called Write_continue k s))
      else (Inr (), s))"

text \<open>From the new request object to its complete message.\<close>

definition session_read :: "nat \<Rightarrow> 's socket_ops \<Rightarrow> 's session \<Rightarrow> (session_request, 's) progress" where
  "session_read fuel ops s =
     (case so_remote_endpoint ops (m_socket s) of
        Inl e \<Rightarrow> (Some (Inl e), s)
      | Inr ep \<Rightarrow>
          (case so_read_request ops (m_socket s) of
             (Inl e, k) \<Rightarrow> (Some (Inl e), called Read_request k s)
           | (Inr (meth, target, msg), k) \<Rightarrow>
               (case session_continue ops msg (called Read_request k s) of
                  (Inl e, s) \<Rightarrow> (Some (Inl e), s)
                | (Inr _, s) \<Rightarrow>
                    (case read_rest fuel ops msg s of
                       (None, s) \<Rightarrow> (None, s)
                     | (Some (Inl e), s) \<Rightarrow> (Some (Inl e), s)
                     | (Some (Inr msg), s) \<Rightarrow>
                         (Some (Inr ((new_session_request ep)
                            \<lparr>sr_method := meth, sr_path := target, sr_message := msg\<rparr>)), s)))))"

section \<open>Answering\<close>

text \<open>\<open>session::send_response\<close>: a failed write is logged and closes the socket.\<close>

definition session_write :: "'s socket_ops \<Rightarrow> response_t \<Rightarrow> 's session \<Rightarrow> unit result \<times> 's session" where
  "session_write ops res s =
     (let status = res_status res; reason = so_status_text ops status; msg = res_message res in
      case so_write_response ops status reason msg (m_socket s) of
        (Inr _, k) \<Rightarrow> (Inr (), called (Write_response status reason msg) k s)
      | (Inl (System_error c), k) \<Rightarrow>
          (Inr (), (let s = log_error c (called (Write_response status reason msg) k s) in
             called Close (so_close ops (m_socket s)) s))
      | (Inl e, k) \<Rightarrow> (Inl e, called (Write_response status reason msg) k s))"

text \<open>
  Route, call, wait, write. \<open>'w\<close> is what the session shares with the rest of the server: the
  router is read from it, and a handler, the parameter \<open>hnd\<close>, works on it until the request is
  answered. \<open>None\<close>, or a request that is left unanswered, keeps \<open>wait\<close> waiting.
\<close>

type_synonym ('f, 'w) handler = "'f \<Rightarrow> request \<Rightarrow> 'w \<Rightarrow> request result option \<times> 'w"

definition session_respond :: "'s socket_ops \<Rightarrow> ('w \<Rightarrow> 'f router) \<Rightarrow> ('f, 'w) handler \<Rightarrow>
    session_request \<Rightarrow> 's session \<Rightarrow> 'w \<Rightarrow> (unit, 's) progress \<times> 'w" where
  "session_respond ops rt hnd req s w =
     (case find_route (rt w) (sr_path req) of
        None \<Rightarrow> ((Some (Inl Bad_function_call), s), w)
      | Some f \<Rightarrow>
          (case hnd f (fst (make_http_request req (new_sched 0 :: nat sched))) w of
             (None, w) \<Rightarrow> ((None, s), w)
           | (Some (Inl e), w) \<Rightarrow> ((Some (Inl e), s), w)
           | (Some (Inr r), w) \<Rightarrow>
               (case req_data r of
                  Http_data d \<Rightarrow>
                    ((if ready d then (case session_write ops (sr_response d) s of (x, s) \<Rightarrow> (Some x, s))
                      else (None, s)), w)
                | Http2_data d \<Rightarrow> ((None, s), w))))"

text \<open>The handler of \<open>start\<close>: a system error ends the loop, every other exception leaves it.\<close>

definition session_catch :: "'s socket_ops \<Rightarrow> cpp_error \<Rightarrow> 's session \<Rightarrow> (unit, 's) progress" where
  "session_catch ops e s =
     (case e of
        System_error c \<Rightarrow>
          (Some (Inr ()),
           if c \<noteq> err_eof ops \<and> c \<noteq> err_operation_aborted ops \<and> c \<noteq> err_connection_reset ops
           then log_error c s else s)
      | _ \<Rightarrow> (Some (Inl e), s))"

fun session_start :: "nat \<Rightarrow> 's socket_ops \<Rightarrow> ('w \<Rightarrow> 'f router) \<Rightarrow> ('f, 'w) handler \<Rightarrow>
    's session \<Rightarrow> 'w \<Rightarrow> (unit, 's) progress \<times> 'w" where
  "session_start 0 ops rt hnd s w = ((None, s), w)"
| "session_start (Suc n) ops rt hnd s w =
     (if \<not> so_is_open ops (m_socket s) then ((Some (Inr ()), s), w)
      else
        (case session_read n ops s of
           (None, s) \<Rightarrow> ((None, s), w)
         | (Some (Inl e), s) \<Rightarrow> (session_catch ops e s, w)
         | (Some (Inr req), s) \<Rightarrow>
             (case session_respond ops rt hnd req s w of
                ((None, s), w) \<Rightarrow> ((None, s), w)
              | ((Some (Inl e), s), w) \<Rightarrow> (session_catch ops e s, w)
              | ((Some (Inr _), s), w) \<Rightarrow> session_start n ops rt hnd s w)))"

section \<open>Requests and responses alternate\<close>

text \<open>
  The library allows no second request before the response to the first: in the order of the
  calls, requests and responses must alternate.
\<close>

fun exchange :: "socket_call \<Rightarrow> bool" where
  "exchange Read_request = True"
| "exchange (Write_response s r m) = True"
| "exchange _ = False"

fun alternating :: "socket_call list \<Rightarrow> bool" where
  "alternating [] = True"
| "alternating [c] = (c = Read_request)"
| "alternating (c # d # cs) = (c = Read_request \<and> d \<noteq> Read_request \<and> alternating cs)"

definition exchanges :: "'s session \<Rightarrow> socket_call list" where
  "exchanges s = filter exchange (socket_calls s)"

lemma alternating_append:
  "even (length cs) \<Longrightarrow> alternating (cs @ ds) \<longleftrightarrow> alternating cs \<and> alternating ds"
  by (induction cs rule: alternating.induct) auto

text \<open>After a complete exchange, and after a request.\<close>

definition answered :: "'s session \<Rightarrow> bool" where
  "answered s \<longleftrightarrow> alternating (exchanges s) \<and> even (length (exchanges s))"

definition asked :: "'s session \<Rightarrow> bool" where
  "asked s \<longleftrightarrow> (\<exists>cs. exchanges s = cs @ [Read_request] \<and> alternating cs \<and> even (length cs))"

lemma asked_alternating: "asked s \<Longrightarrow> alternating (exchanges s)"
  by (auto simp: asked_def alternating_append)

lemma exchanges_called [simp]:
  "exchanges (called c k s) = exchanges s @ (if exchange c then [c] else [])"
  "exchanges (log_error e s) = exchanges s" "exchanges (new_session k) = []"
  by (simp_all add: exchanges_def called_def log_error_def new_session_def)

lemma asked_read: "answered s \<Longrightarrow> asked (called Read_request k s)"
  by (auto simp: answered_def asked_def)

lemma asked_other: "\<not> exchange c \<Longrightarrow> asked (called c k s) = asked s"
  by (simp add: asked_def)

lemma answered_write: "asked s \<Longrightarrow> answered (called (Write_response st re msg) k s)"
  by (auto simp: answered_def asked_def alternating_append)

lemma answered_other:
  "\<not> exchange c \<Longrightarrow> answered (called c k s) = answered s" "answered (log_error e s) = answered s"
  by (simp_all add: answered_def)

lemma read_rest_asked: "asked s \<Longrightarrow> asked (snd (read_rest n ops msg s))"
proof (induction n arbitrary: msg s)
  case (Suc n)
  then show ?case
    by (auto simp: asked_other split: read_state.split prod.split sum.split)
qed simp

lemma session_continue_asked: "asked s \<Longrightarrow> asked (snd (session_continue ops msg s))"
  by (auto simp: session_continue_def asked_other split: prod.split)

lemma session_read_asked:
  assumes "answered s" "session_read n ops s = (x, s')"
  shows "asked s' \<or> s' = s \<and> (\<exists>e. x = Some (Inl e))"
proof -
  have "asked (snd (read_rest n ops msg t))" if "session_continue ops msg (called Read_request k s) = (y, t)" for msg k y t
    using session_continue_asked [OF asked_read [OF assms(1)], of ops msg k] that
    by (intro read_rest_asked) simp
  then have r: "asked t'" if "session_continue ops msg (called Read_request k s) = (y, t)"
    "read_rest n ops msg t = (z, t')" for msg k y t z t'
    using that by (metis snd_conv)
  have c: "asked t" if "session_continue ops msg (called Read_request k s) = (y, t)" for msg k y t
    using session_continue_asked [OF asked_read [OF assms(1)], of ops msg k] that by simp
  show ?thesis using assms(2) asked_read [OF assms(1)]
    by (auto simp: session_read_def dest: r c split: sum.splits prod.splits option.splits)
qed

lemma session_write_answered: "asked s \<Longrightarrow> session_write ops res s = (x, s') \<Longrightarrow> answered s'"
  by (auto simp: session_write_def Let_def answered_write answered_other
      split: sum.splits prod.splits cpp_error.splits)

lemma session_respond_answered:
  "asked s \<Longrightarrow> session_respond ops rt hnd req s w = ((x, s'), w') \<Longrightarrow> answered s' \<or> s' = s \<and> x \<noteq> Some (Inr ())"
  by (auto simp: session_respond_def dest: session_write_answered
      split: sum.splits prod.splits option.splits request_data.splits if_splits)

lemma session_catch_exchanges [simp]: "exchanges (snd (session_catch ops e s)) = exchanges s"
  by (simp add: session_catch_def split: cpp_error.split)

lemma session_start_alternating:
  assumes "answered s"
  shows "alternating (exchanges (snd (fst (session_start n ops rt hnd s w))))"
  using assms
proof (induction n arbitrary: s w)
  case 0
  then show ?case by (simp add: answered_def)
next
  case (Suc n)
  obtain x s1 where r: "session_read n ops s = (x, s1)" by fastforce
  from session_read_asked [OF Suc.prems r] have s1: "alternating (exchanges s1)"
    using Suc.prems by (auto simp: answered_def asked_alternating)
  show ?case
  proof (cases "so_is_open ops (m_socket s) \<and> (\<exists>req. x = Some (Inr req))")
    case False
    with r s1 Suc.prems show ?thesis
      by (auto simp: answered_def split: option.split sum.split)
  next
    case True
    then obtain req where x: "x = Some (Inr req)" by blast
    with session_read_asked [OF Suc.prems r] have a: "asked s1" by auto
    obtain y s2 w2 where w: "session_respond ops rt hnd req s1 w = ((y, s2), w2)" by (metis prod.exhaust)
    from session_respond_answered [OF a w] have s2: "answered s2 \<or> s2 = s1 \<and> y \<noteq> Some (Inr ())" .
    then have "alternating (exchanges s2)" using s1 by (auto simp: answered_def)
    with True r x w s2 Suc.IH [of s2] show ?thesis
      by (auto split: option.split sum.split)
  qed
qed

text \<open>
  C10. Whatever the socket, the router and the handlers do, a session never reads a request
  before it has answered the one before: in the order of the calls on the socket, requests and
  responses alternate, beginning with a request.
\<close>
theorem session_alternates:
  "alternating (filter exchange (socket_calls (snd (fst (session_start fuel ops rt hnd (new_session k) w)))))"
  using session_start_alternating [of "new_session k" fuel ops rt hnd w]
  by (simp add: answered_def flip: exchanges_def)

end
