(* ===== verification/Worker.thy ===== *)
theory Worker
  imports Options "HOL-Library.Multiset"
begin

text \<open>
  The workers of an HTTP/1 server (\<open>src/core/worker.cpp\<close>) and the round robin over them
  (\<open>server_impl::get_worker\<close>). An accept fiber adds a new session to the vector of a worker and
  then notifies the worker's fiber, which waits on a condition variable and starts the sessions
  of the vector. Sessions are \<open>'s\<close>; the operating system's answers are parameters.
\<close>

section \<open>The state\<close>

text \<open>
  Where the fiber of \<open>run\<close> is: at the test of \<open>m_stop\<close>, in \<open>wait\<close>, woken, or gone; \<open>Not_running\<close>
  before \<open>run\<close>.
\<close>

datatype fiber_position = Not_running | Testing | Waiting | Woken | Gone

record 's worker =
  w_stop :: bool
  m_new_sessions :: "'s list"
  position :: fiber_position
  started :: "'s list"
  m_acceptors :: "bool list"
  w_io_stopped :: bool

definition new_worker :: "'s worker" where
  "new_worker = \<lparr>w_stop = False, m_new_sessions = [], position = Not_running, started = [],
     m_acceptors = [], w_io_stopped = False\<rparr>"

section \<open>Accepting\<close>

text \<open>
  \<open>add_endpoint\<close>: opening, binding and listening may throw a system error, whose code is the
  result; a backlog of 0 stands for the library's maximum. An acceptor is whether it is open.
\<close>

record endpoint_ops =
  eo_open :: "unit result"
  eo_set_option :: "unit result"
  eo_bind :: "unit result"
  eo_listen :: "int \<Rightarrow> unit result"
  max_connections :: int

definition listen_steps :: "endpoint_ops \<Rightarrow> variables_map \<Rightarrow> unit result" where
  "listen_steps eo opts =
     (case eo_open eo of Inl e \<Rightarrow> Inl e | Inr _ \<Rightarrow>
     (case eo_set_option eo of Inl e \<Rightarrow> Inl e | Inr _ \<Rightarrow>
     (case eo_bind eo of Inl e \<Rightarrow> Inl e | Inr _ \<Rightarrow>
     (case as_int opts ''server.backlog'' of Inl e \<Rightarrow> Inl e | Inr backlog \<Rightarrow>
        eo_listen eo (if backlog = 0 then max_connections eo else backlog)))))"

definition add_endpoint :: "endpoint_ops \<Rightarrow> variables_map \<Rightarrow> 's worker \<Rightarrow> (nat option \<times> 's worker) result" where
  "add_endpoint eo opts w =
     (case listen_steps eo opts of
        Inr _ \<Rightarrow> Inr (None, w\<lparr>m_acceptors := m_acceptors w @ [True]\<rparr>)
      | Inl (System_error c) \<Rightarrow> Inr (Some c, w)
      | Inl e \<Rightarrow> Inl e)"

text \<open>\<open>add_session\<close> under the mutex; \<open>notify_one\<close> wakes the fiber if it waits.\<close>

definition add_session :: "'s \<Rightarrow> 's worker \<Rightarrow> 's worker" where
  "add_session s w = w\<lparr>m_new_sessions := m_new_sessions w @ [s]\<rparr>"

definition notify_one :: "'s worker \<Rightarrow> 's worker" where
  "notify_one w = (if position w = Waiting then w\<lparr>position := Woken\<rparr> else w)"

section \<open>The fiber\<close>

text \<open>\<open>run\<close> creates the fiber.\<close>

definition worker_run :: "'s worker \<Rightarrow> 's worker" where
  "worker_run w = w\<lparr>position := Testing\<rparr>"

text \<open>\<open>while (!m_stop)\<close>, the lock and the start of \<open>wait\<close>, which releases it.\<close>

definition loop_test :: "'s worker \<Rightarrow> 's worker" where
  "loop_test w = (if \<not> w_stop w then w\<lparr>position := Waiting\<rparr> else w\<lparr>position := Gone\<rparr>)"

text \<open>After \<open>wait\<close>: a fiber for every new session, in order, and the vector is cleared.\<close>

definition start_sessions :: "'s worker \<Rightarrow> 's worker" where
  "start_sessions w =
     w\<lparr>started := started w @ m_new_sessions w, m_new_sessions := [], position := Testing\<rparr>"

text \<open>\<open>stop\<close>, up to the wait for the acceptors and after it.\<close>

definition worker_stop_begin :: "'s worker \<Rightarrow> 's worker" where
  "worker_stop_begin w =
     (if \<not> w_stop w then
        (let w = notify_one (w\<lparr>w_stop := True\<rparr>) in w\<lparr>m_acceptors := map (\<lambda>_. False) (m_acceptors w)\<rparr>)
      else w)"

definition worker_stop_end :: "'s worker \<Rightarrow> 's worker" where
  "worker_stop_end w = w\<lparr>w_io_stopped := True\<rparr>"

definition worker_stop :: "'s worker \<Rightarrow> 's worker" where
  "worker_stop w = (if \<not> w_stop w then worker_stop_end (worker_stop_begin w) else w)"

section \<open>Interleavings\<close>

text \<open>
  The steps of one worker's fiber with the accept fibers of other threads: \<open>added\<close> is what was
  accepted so far in order, and \<open>owed\<close> counts the accept fibers between \<open>add_session\<close> and
  \<open>notify_one\<close>. The library may also wake the fiber without a notification.
\<close>

type_synonym 's accepting = "'s worker \<times> 's list \<times> nat"

inductive worker_step :: "'s accepting \<Rightarrow> 's accepting \<Rightarrow> bool" where
  run: "position w = Not_running \<Longrightarrow> worker_step (w, added, owed) (worker_run w, added, owed)"
| add: "worker_step (w, added, owed) (add_session s w, added @ [s], owed + 1)"
| notify: "owed > 0 \<Longrightarrow> worker_step (w, added, owed) (notify_one w, added, owed - 1)"
| spurious: "position w = Waiting \<Longrightarrow> worker_step (w, added, owed) (notify_one w, added, owed)"
| test: "position w = Testing \<Longrightarrow> worker_step (w, added, owed) (loop_test w, added, owed)"
| start: "position w = Woken \<Longrightarrow> worker_step (w, added, owed) (start_sessions w, added, owed)"
| stop: "worker_step (w, added, owed) (worker_stop w, added, owed)"

inductive_cases worker_stepE: "worker_step c c'"

inductive worker_reachable :: "'s accepting \<Rightarrow> bool" where
  init: "worker_reachable (new_worker, [], 0)"
| step: "worker_reachable c \<Longrightarrow> worker_step c c' \<Longrightarrow> worker_reachable c'"

lemmas worker_ops =
  worker_run_def add_session_def notify_one_def loop_test_def start_sessions_def worker_stop_begin_def
  worker_stop_end_def worker_stop_def Let_def

definition all_there :: "'s accepting \<Rightarrow> bool" where
  "all_there c \<longleftrightarrow> (case c of (w, added, owed) \<Rightarrow> started w @ m_new_sessions w = added)"

lemma all_there_init: "all_there (new_worker, [], 0)"
  by (simp add: all_there_def new_worker_def)

lemma all_there_step: "all_there c \<Longrightarrow> worker_step c c' \<Longrightarrow> all_there c'"
  by (erule worker_stepE) (auto simp: all_there_def worker_ops)

text \<open>
  C13. Every accepted session is either still in the worker's vector or has been started, once
  and in the order of acceptance, for every interleaving of accepting, waking and stopping.
\<close>
theorem sessions_started_once:
  assumes "worker_reachable (w, added, owed)"
  shows "started w @ m_new_sessions w = added"
proof -
  have "all_there c" if "worker_reachable c" for c
    using that by induction (simp_all only: all_there_init all_there_step)
  with assms show ?thesis by (auto simp: all_there_def)
qed

lemma sample_accepting:
  "worker_reachable (\<lparr>w_stop = False, m_new_sessions = [1], position = Waiting, started = [],
     m_acceptors = [], w_io_stopped = False\<rparr>, [1::int], 0)"
proof -
  have "worker_reachable (add_session 1 (worker_run new_worker), [1::int], 1)"
    using worker_reachable.step [OF worker_reachable.step [OF worker_reachable.init worker_step.run] worker_step.add, of 1]
    by (simp add: new_worker_def)
  from worker_reachable.step [OF worker_reachable.step [OF this worker_step.notify] worker_step.test]
  show ?thesis by (simp add: worker_ops new_worker_def)
qed

theorem sessions_started_once_witness:
  "\<exists>w. worker_reachable (w, [1::int], 0) \<and> started w @ m_new_sessions w = [1]"
  using sessions_started_once [OF sample_accepting] sample_accepting by blast



section \<open>Round robin\<close>

text \<open>\<open>get_worker\<close>: the counter is a \<open>size_t\<close>; a remainder by 0 is undefined.\<close>

definition get_worker :: "uint64 \<Rightarrow> 'w list \<Rightarrow> 'w result \<times> uint64" where
  "get_worker next ws =
     (if length ws = 0 then (Inl Bad_access, next + 1)
      else (Inr (ws ! (unat next mod length ws)), next + 1))"

text \<open>
  One pass of an accept fiber: the worker is picked before the client arrives, and an error of
  \<open>async_accept\<close> (\<open>ec\<close>) drops the session.
\<close>

definition accept_pass :: "uint64 \<Rightarrow> nat option \<Rightarrow> 's \<Rightarrow> 's worker list \<Rightarrow> ('s worker list \<times> uint64) result" where
  "accept_pass next ec s ws =
     (case get_worker next [0..<length ws] of
        (Inl e, next) \<Rightarrow> Inl e
      | (Inr i, next) \<Rightarrow>
          Inr (if ec = None then ws[i := notify_one (add_session s (ws ! i))] else ws, next))"

text \<open>Clients that arrive one after the other, all accepted without error.\<close>

fun accept_all :: "uint64 \<Rightarrow> 's list \<Rightarrow> 's worker list \<Rightarrow> ('s worker list \<times> uint64) result" where
  "accept_all next [] ws = Inr (ws, next)"
| "accept_all next (s # ss) ws =
     bind_result (accept_pass next None s ws) (\<lambda>(ws, next). accept_all next ss ws)"

lemma new_sessions_notified [simp]:
  "m_new_sessions (notify_one w) = m_new_sessions w" "m_new_sessions (add_session s w) = m_new_sessions w @ [s]"
  by (simp_all add: notify_one_def add_session_def)

lemma accept_pass_ok:
  "ws \<noteq> [] \<Longrightarrow> accept_pass next None s ws =
     (let i = unat next mod length ws in Inr (ws[i := notify_one (add_session s (ws ! i))], next + 1))"
  by (simp add: accept_pass_def get_worker_def Let_def)

lemma dealt_Cons:
  "[(s # ss) ! k. k \<leftarrow> [0..<length (s # ss)], (n + k) mod m = i] =
   (if n mod m = i then [s] else []) @ [ss ! k. k \<leftarrow> [0..<length ss], (n + 1 + k) mod m = i]"
  unfolding length_Cons upt_conv_Cons [OF zero_less_Suc] map_Suc_upt [symmetric] by (simp add: o_def cong: if_cong)



end
