(* ===== verification/Counter.thy ===== *)
theory Counter
  imports Prelude
begin

text \<open>
  Counters (\<open>src/metrics/counter.h\<close>) on the metric base class
  (\<open>src/metrics/basic_metric.h\<close>). A counter is one atomic 64-bit value; its operations are
  single atomic read-modify-write steps, so threads interleave them as a sequence.
\<close>

section \<open>The base class\<close>

text \<open>A subclass is a record extension, as its object is.\<close>

record basic_metric =
  m_log_visible :: bool

definition hide_from_log :: "'a basic_metric_scheme \<Rightarrow> 'a basic_metric_scheme" where
  "hide_from_log m = m\<lparr>m_log_visible := False\<rparr>"

definition visible_in_log :: "'a basic_metric_scheme \<Rightarrow> bool" where
  "visible_in_log m = m_log_visible m"

section \<open>Counters\<close>

record counter = basic_metric +
  m_val :: uint64

definition new_counter :: counter where
  "new_counter = \<lparr>m_log_visible = True, m_val = 0\<rparr>"

text \<open>Each operation returns the value the source returns and the counter after it.\<close>

definition increment :: "uint64 \<Rightarrow> counter \<Rightarrow> uint64 \<times> counter" where
  "increment i c = (m_val c + i, c\<lparr>m_val := m_val c + i\<rparr>)"

definition decrement :: "uint64 \<Rightarrow> counter \<Rightarrow> uint64 \<times> counter" where
  "decrement i c = (m_val c - i, c\<lparr>m_val := m_val c - i\<rparr>)"

definition exchange :: "uint64 \<Rightarrow> counter \<Rightarrow> uint64 \<times> counter" where
  "exchange i c = (m_val c, c\<lparr>m_val := i\<rparr>)"

definition get_and_reset :: "counter \<Rightarrow> uint64 \<times> counter" where
  "get_and_reset c = (m_val c, c\<lparr>m_val := 0\<rparr>)"

definition get :: "counter \<Rightarrow> uint64" where
  "get c = m_val c"

text \<open>Decimal output of an unsigned value, and the line sent to graphite.\<close>

fun dec_string :: "nat \<Rightarrow> string" where
  "dec_string n =
     (if n < 10 then [char_of (48 + n)] else dec_string (n div 10) @ [char_of (48 + n mod 10)])"

declare dec_string.simps [simp del]

definition counter_log :: "counter \<Rightarrow> string" where
  "counter_log c = dec_string (unat (m_val c))"

definition counter_graphite :: "string \<Rightarrow> nat \<Rightarrow> counter \<Rightarrow> string" where
  "counter_graphite name ts c =
     name @ '' '' @ dec_string (unat (m_val c)) @ '' '' @ dec_string ts @ [CHR 0x0A]"

lemmas counter_defs [model_defs] =
  new_counter_def increment_def decrement_def exchange_def get_and_reset_def get_def

section \<open>Interleaved operations\<close>

datatype counter_op = Increment uint64 | Decrement uint64 | Exchange uint64 | Get_and_reset | Get

fun counter_step :: "counter_op \<Rightarrow> counter \<Rightarrow> uint64 \<times> counter" where
  "counter_step (Increment i) c = increment i c"
| "counter_step (Decrement i) c = decrement i c"
| "counter_step (Exchange i) c = exchange i c"
| "counter_step Get_and_reset c = get_and_reset c"
| "counter_step Get c = (get c, c)"

text \<open>A run returns the results of its operations in order, and the counter at the end.\<close>

fun counter_run :: "counter_op list \<Rightarrow> counter \<Rightarrow> uint64 list \<times> counter" where
  "counter_run [] c = ([], c)"
| "counter_run (oper # ops) c =
     (let (r, c') = counter_step oper c; (rs, c'') = counter_run ops c' in (r # rs, c''))"

text \<open>What an operation adds to the value, and what it takes out and hands to its caller.\<close>

fun counter_added :: "counter_op \<Rightarrow> uint64" where
  "counter_added (Increment i) = i"
| "counter_added (Decrement i) = - i"
| "counter_added (Exchange i) = i"
| "counter_added _ = 0"

fun counter_taken :: "counter_op \<Rightarrow> uint64 \<Rightarrow> uint64" where
  "counter_taken (Exchange i) r = r"
| "counter_taken Get_and_reset r = r"
| "counter_taken _ r = 0"

lemma counter_step_balance:
  "counter_step oper c = (r, c') \<Longrightarrow> counter_taken oper r + m_val c' = m_val c + counter_added oper"
  by (cases oper) (auto simp: counter_defs)

text \<open>
  No count is lost or seen twice: over any interleaving of the atomic operations, the
  values handed out by \<open>exchange\<close> and \<open>get_and_reset\<close> plus the value left in the counter are
  the initial value plus everything added, modulo 2^64.
\<close>
theorem counter_conservation:
  "counter_run ops c = (rs, c') \<Longrightarrow>
     sum_list (map2 counter_taken ops rs) + get c' = get c + sum_list (map counter_added ops)"
proof (induction ops arbitrary: c rs)
  case Nil
  then show ?case by (simp add: get_def)
next
  case (Cons oper ops)
  obtain r c1 where step: "counter_step oper c = (r, c1)" by force
  obtain rs1 c2 where run: "counter_run ops c1 = (rs1, c2)" by force
  from Cons.prems step run have rs: "rs = r # rs1" and run': "counter_run ops c1 = (rs1, c')"
    by auto
  have "sum_list (map2 counter_taken (oper # ops) rs) + get c' =
        counter_taken oper r + (get c1 + sum_list (map counter_added ops))"
    using Cons.IH [OF run'] by (simp add: rs add.assoc)
  also have "\<dots> = (counter_taken oper r + m_val c1) + sum_list (map counter_added ops)"
    by (simp add: get_def)
  also have "\<dots> = get c + sum_list (map counter_added (oper # ops))"
    by (simp add: counter_step_balance [OF step] get_def)
  finally show ?case .
qed

theorem counter_conservation_witness:
  "sum_list (map2 counter_taken [Increment 9, Get_and_reset, Decrement 1] [9, 9, - 1]) +
     get \<lparr>m_log_visible = True, m_val = - 1\<rparr> = 8"
proof -
  have "counter_run [Increment 9, Get_and_reset, Decrement 1] new_counter =
      ([9, 9, - 1], \<lparr>m_log_visible = True, m_val = - 1\<rparr>)"
    by (simp add: counter_defs)
  from counter_conservation [OF this] show ?thesis
    by (simp add: counter_defs)
qed

end
