(* ===== verification/Meter.thy ===== *)
theory Meter
  imports Counter Complex_Main
begin

text \<open>
  Meters (\<open>src/metrics/meter.h\<close>): a counter of the current second, a running total, and four
  exponentially weighted moving averages. \<open>double\<close> arithmetic is modelled by exact reals:
  rounding is not modelled. The averages share one contract, the locale \<open>ewma\<close>.
\<close>

section \<open>The meter\<close>

record meter = basic_metric +
  m_counter_1s :: counter
  m_counter_total :: uint64
  m_rate_1min :: real
  m_rate_5min :: real
  m_rate_15min :: real
  m_rate_1hr :: real
  ALPHA_1min :: real
  ALPHA_5min :: real
  ALPHA_15min :: real
  ALPHA_1hr :: real

definition alpha :: "int \<Rightarrow> real" where
  "alpha secs = 1 - exp (ln 0.005 / of_int secs)"

definition new_meter :: meter where
  "new_meter =
     \<lparr>m_log_visible = True, m_counter_1s = new_counter, m_counter_total = 0,
      m_rate_1min = 0, m_rate_5min = 0, m_rate_15min = 0, m_rate_1hr = 0,
      ALPHA_1min = alpha 60, ALPHA_5min = alpha (5 * 60),
      ALPHA_15min = alpha (15 * 60), ALPHA_1hr = alpha (60 * 60)\<rparr>"

definition meter_aggregate :: "meter \<Rightarrow> meter" where
  "meter_aggregate m =
     (let (c, counter_1s) = get_and_reset (m_counter_1s m);
          d = real (unat c) in
      m\<lparr>m_counter_1s := counter_1s,
        m_counter_total := m_counter_total m + c,
        m_rate_1min := m_rate_1min m * (1 - ALPHA_1min m) + d * ALPHA_1min m,
        m_rate_5min := m_rate_5min m * (1 - ALPHA_5min m) + d * ALPHA_5min m,
        m_rate_15min := m_rate_15min m * (1 - ALPHA_15min m) + d * ALPHA_15min m,
        m_rate_1hr := m_rate_1hr m * (1 - ALPHA_1hr m) + d * ALPHA_1hr m\<rparr>)"

definition meter_increment :: "uint64 \<Rightarrow> meter \<Rightarrow> uint64 \<times> meter" where
  "meter_increment i m =
     (let (r, counter_1s) = increment i (m_counter_1s m) in (r, m\<lparr>m_counter_1s := counter_1s\<rparr>))"

definition total :: "meter \<Rightarrow> uint64" where
  "total m = m_counter_total m"

lemmas meter_defs [model_defs] = new_meter_def meter_aggregate_def meter_increment_def total_def
lemmas meter_eval = meter_defs counter_defs Let_def

section \<open>Runs of a meter\<close>

text \<open>
  Request threads increment while the registry's fiber aggregates once a second: an
  interleaving is a list of the two steps.
\<close>

datatype meter_op = Meter_increment uint64 | Meter_aggregate

fun meter_step :: "meter_op \<Rightarrow> meter \<Rightarrow> meter" where
  "meter_step (Meter_increment i) m = snd (meter_increment i m)"
| "meter_step Meter_aggregate m = meter_aggregate m"

definition meter_run :: "meter_op list \<Rightarrow> meter \<Rightarrow> meter" where
  "meter_run ops m = fold meter_step ops m"

fun meter_counted :: "meter_op \<Rightarrow> uint64" where
  "meter_counted (Meter_increment i) = i"
| "meter_counted Meter_aggregate = 0"

definition meter_consts :: "meter \<Rightarrow> bool" where
  "meter_consts m \<longleftrightarrow> ALPHA_1min m = alpha 60 \<and> ALPHA_5min m = alpha (5 * 60) \<and>
     ALPHA_15min m = alpha (15 * 60) \<and> ALPHA_1hr m = alpha (60 * 60)"

lemma meter_consts_run [inv_intros]: "meter_consts m \<Longrightarrow> meter_consts (meter_run ops m)"
proof (induction ops arbitrary: m)
  case Nil
  then show ?case by (simp add: meter_run_def)
next
  case (Cons oper ops)
  have "meter_consts (meter_step oper m)"
    using Cons.prems by (cases oper) (simp_all add: meter_eval meter_consts_def)
  with Cons.IH show ?case by (simp add: meter_run_def)
qed

lemma meter_consts_new [simp]: "meter_consts new_meter"
  by (simp add: meter_consts_def new_meter_def)

lemma meter_balance:
  "total (meter_run ops m) + get (m_counter_1s (meter_run ops m)) =
     total m + get (m_counter_1s m) + sum_list (map meter_counted ops)"
proof (induction ops arbitrary: m)
  case Nil
  then show ?case by (simp add: meter_run_def)
next
  case (Cons oper ops)
  have "total (meter_step oper m) + get (m_counter_1s (meter_step oper m)) =
        total m + get (m_counter_1s m) + meter_counted oper"
    by (cases oper) (simp_all add: meter_eval algebra_simps)
  with Cons.IH [of "meter_step oper m"] show ?case
    by (simp add: meter_run_def algebra_simps)
qed

text \<open>
  Whatever the interleaving of request threads and the aggregating fiber, the total of a
  new meter plus what is still pending in its one-second counter is the number of events
  counted, modulo 2^64; and right after an aggregation nothing is pending.
\<close>
theorem meter_total:
  "total (meter_run ops new_meter) + get (m_counter_1s (meter_run ops new_meter)) =
     sum_list (map meter_counted ops) \<and>
   total (meter_aggregate (meter_run ops new_meter)) = sum_list (map meter_counted ops)"
proof -
  have "total (meter_run (ops @ [Meter_aggregate]) new_meter) = sum_list (map meter_counted ops)"
    using meter_balance [of "ops @ [Meter_aggregate]" new_meter]
    by (simp add: meter_run_def meter_eval)
  with meter_balance [of ops new_meter] show ?thesis
    by (simp add: meter_run_def new_meter_def total_def get_def new_counter_def)
qed

section \<open>Moving averages\<close>

locale ewma =
  fixes a :: real
  assumes a_pos: "0 < a" and a_less: "a < 1"
begin

text \<open>Each step is a convex combination of the rate and the new count.\<close>

lemma step_bounds:
  assumes "r \<in> {0..M}" "c \<in> {0..M}"
  shows "r * (1 - a) + c * a \<in> {0..M}"
proof -
  have "0 \<le> r * (1 - a) + c * a" using assms a_pos a_less by simp
  moreover have "r * (1 - a) + c * a \<le> M * (1 - a) + M * a"
    using assms a_pos a_less by (intro add_mono mult_right_mono) auto
  ultimately show ?thesis by (simp add: algebra_simps)
qed

end

lemma alpha_bounds: "0 < secs \<Longrightarrow> 0 < alpha secs \<and> alpha secs < 1"
  by (auto simp: alpha_def divide_neg_pos)

interpretation rate_1min: ewma "alpha 60" by unfold_locales (use alpha_bounds in auto)
interpretation rate_5min: ewma "alpha 300" by unfold_locales (use alpha_bounds in auto)
interpretation rate_15min: ewma "alpha 900" by unfold_locales (use alpha_bounds in auto)
interpretation rate_1hr: ewma "alpha 3600" by unfold_locales (use alpha_bounds in auto)

lemma alpha_decay: "0 < n \<Longrightarrow> (1 - alpha (int n)) ^ n = 0.005"
  by (simp add: alpha_def exp_of_nat_mult [symmetric])

definition rates_within :: "real \<Rightarrow> meter \<Rightarrow> bool" where
  "rates_within M m \<longleftrightarrow>
     m_rate_1min m \<in> {0..M} \<and> m_rate_5min m \<in> {0..M} \<and>
     m_rate_15min m \<in> {0..M} \<and> m_rate_1hr m \<in> {0..M}"

lemma rates_within_aggregate:
  assumes "meter_consts m" "rates_within M m" "real (unat (get (m_counter_1s m))) \<le> M"
  shows "rates_within M (meter_aggregate m)"
proof -
  define d where "d = real (unat (get (m_counter_1s m)))"
  have d: "d \<in> {0..M}"
    using assms(3) unfolding d_def atLeastAtMost_iff by (simp only: of_nat_0_le_iff)
  have "m_rate_1min (meter_aggregate m) = m_rate_1min m * (1 - alpha 60) + d * alpha 60"
    "m_rate_5min (meter_aggregate m) = m_rate_5min m * (1 - alpha 300) + d * alpha 300"
    "m_rate_15min (meter_aggregate m) = m_rate_15min m * (1 - alpha 900) + d * alpha 900"
    "m_rate_1hr (meter_aggregate m) = m_rate_1hr m * (1 - alpha 3600) + d * alpha 3600"
    using assms(1)
    by (simp_all add: meter_aggregate_def get_and_reset_def get_def meter_consts_def Let_def d_def)
  with assms(2) d show ?thesis
    unfolding rates_within_def
    using rate_1min.step_bounds rate_5min.step_bounds rate_15min.step_bounds rate_1hr.step_bounds
    by metis
qed

text \<open>Seconds of traffic: in each one the given number of events is counted, then aggregated.\<close>

fun run_seconds :: "uint64 list \<Rightarrow> meter \<Rightarrow> meter" where
  "run_seconds [] m = m"
| "run_seconds (c # cs) m = run_seconds cs (meter_aggregate (snd (meter_increment c m)))"

lemma run_seconds_rates_within:
  assumes "meter_consts m" "rates_within M m" "get (m_counter_1s m) = 0"
    "\<forall>c \<in> set cs. real (unat c) \<le> M"
  shows "rates_within M (run_seconds cs m)"
  using assms
proof (induction cs arbitrary: m)
  case Nil
  then show ?case by simp
next
  case (Cons c cs)
  let ?m = "snd (meter_increment c m)"
  have "meter_consts ?m" "rates_within M ?m" "get (m_counter_1s ?m) = c"
    using Cons.prems
    by (simp_all add: meter_increment_def increment_def get_def meter_consts_def rates_within_def Let_def)
  moreover have "meter_consts (meter_aggregate ?m)" "get (m_counter_1s (meter_aggregate ?m)) = 0"
    using \<open>meter_consts ?m\<close> by (simp_all add: meter_consts_def meter_eval)
  ultimately show ?case
    using Cons.IH [of "meter_aggregate ?m"] Cons.prems(4) rates_within_aggregate by simp
qed

text \<open>
  The rates are averages of what was counted: when no second sees more than \<open>M\<close> events,
  all four rates of a meter stay between 0 and \<open>M\<close>.
\<close>
theorem meter_rates_bounded:
  assumes "\<forall>c \<in> set cs. real (unat c) \<le> M" and "0 \<le> M"
  shows "rates_within M (run_seconds cs new_meter)"
  using assms by (intro run_seconds_rates_within)
    (simp_all add: rates_within_def new_meter_def get_def new_counter_def meter_consts_def)

theorem meter_rates_bounded_witness: "rates_within 100 (run_seconds [100, 0, 7] new_meter)"
  by (rule meter_rates_bounded) simp_all

text \<open>Without traffic each rate is multiplied by its \<open>1 - alpha\<close> every second.\<close>

lemma meter_idle:
  assumes "meter_consts m" "get (m_counter_1s m) = 0"
  shows "m_rate_1min ((meter_aggregate ^^ n) m) = (1 - alpha 60) ^ n * m_rate_1min m \<and>
         m_rate_5min ((meter_aggregate ^^ n) m) = (1 - alpha (5 * 60)) ^ n * m_rate_5min m \<and>
         m_rate_15min ((meter_aggregate ^^ n) m) = (1 - alpha (15 * 60)) ^ n * m_rate_15min m \<and>
         m_rate_1hr ((meter_aggregate ^^ n) m) = (1 - alpha (60 * 60)) ^ n * m_rate_1hr m \<and>
         meter_consts ((meter_aggregate ^^ n) m) \<and> get (m_counter_1s ((meter_aggregate ^^ n) m)) = 0"
proof (induction n)
  case 0
  with assms show ?case by simp
next
  case (Suc n)
  then show ?case
    by (simp add: meter_aggregate_def get_and_reset_def get_def meter_consts_def Let_def)
qed

text \<open>
  What the four rates mean: after any traffic, 60 seconds without events leave 0.5 percent
  of the 1-minute rate; 300, 900 and 3600 idle seconds do the same to the 5-minute, 15-minute
  and 1-hour rates.
\<close>
theorem meter_rate_windows:
  fixes ops :: "meter_op list"
  defines "m \<equiv> meter_aggregate (meter_run ops new_meter)"
  shows "m_rate_1min ((meter_aggregate ^^ 60) m) = 0.005 * m_rate_1min m \<and>
         m_rate_5min ((meter_aggregate ^^ 300) m) = 0.005 * m_rate_5min m \<and>
         m_rate_15min ((meter_aggregate ^^ 900) m) = 0.005 * m_rate_15min m \<and>
         m_rate_1hr ((meter_aggregate ^^ 3600) m) = 0.005 * m_rate_1hr m"
proof -
  have "meter_consts (meter_run (ops @ [Meter_aggregate]) new_meter)"
    by (rule meter_consts_run) simp
  then have mc: "meter_consts m" by (simp add: m_def meter_run_def)
  have zero: "get (m_counter_1s m) = 0"
    by (simp add: m_def meter_eval)
  show ?thesis
    using meter_idle [OF mc zero, of 60] meter_idle [OF mc zero, of 300]
      meter_idle [OF mc zero, of 900] meter_idle [OF mc zero, of 3600]
      alpha_decay [of 60] alpha_decay [of 300] alpha_decay [of 900] alpha_decay [of 3600]
    by simp
qed

end
