(* ===== verification/Timer.thy ===== *)
theory Timer
  imports Counter Complex_Main "HOL-Library.Multiset"
begin

text \<open>
  Timers (\<open>src/metrics/timer.h\<close>): samples go to one of two buffers; every tenth call of
  \<open>aggregate\<close> switches buffers and turns the full one into a histogram, and the last six
  histograms are kept. \<open>double\<close> arithmetic is modelled by exact reals; \<open>size_t\<close> counts of
  elements in memory are \<open>nat\<close>.
\<close>

section \<open>Histograms\<close>

record histogram =
  h_min :: real
  h_max :: real
  h_avg :: real
  h_sum :: real
  h_count :: nat
  h_dist :: "(real \<times> nat) list"

text \<open>The constructor's loop over \<open>num_of_bins + 1\<close> lower bounds.\<close>

fun histogram_bins :: "nat \<Rightarrow> real \<Rightarrow> real \<Rightarrow> (real \<times> nat) list" where
  "histogram_bins 0 lower bin_size = []"
| "histogram_bins (Suc k) lower bin_size = (lower, 0) # histogram_bins k (lower + bin_size) bin_size"

definition new_histogram :: "nat \<Rightarrow> real \<Rightarrow> histogram" where
  "new_histogram num_of_bins bin_size =
     \<lparr>h_min = 0, h_max = 0, h_avg = 0, h_sum = 0, h_count = 0,
      h_dist = histogram_bins (num_of_bins + 1) 0 bin_size\<rparr>"

definition update_bin :: "nat \<Rightarrow> nat \<Rightarrow> histogram \<Rightarrow> histogram result" where
  "update_bin bin cnt h =
     (if bin < length (h_dist h)
      then Inr (h\<lparr>h_dist := (h_dist h)[bin := (fst (h_dist h ! bin), snd (h_dist h ! bin) + cnt)]\<rparr>)
      else Inl Bad_access)"

text \<open>The inner loop: \<open>while (d > upper && i < m_num_of_bins)\<close>.\<close>

function next_bin :: "nat \<Rightarrow> real \<Rightarrow> real \<Rightarrow> nat \<Rightarrow> real \<Rightarrow> nat \<times> real" where
  "next_bin n bin_size d i upper =
     (if d > upper \<and> i < n then next_bin n bin_size d (i + 1) (upper + bin_size) else (i, upper))"
  by pat_completeness auto
termination
  by (relation "measure (\<lambda>(n, bin_size, d, i, upper). n - i)") auto

declare next_bin.simps [simp del]

text \<open>The outer loop over the sorted samples, with its variables \<open>cnt\<close>, \<open>i\<close> and \<open>upper\<close>.\<close>

fun bin_loop :: "nat \<Rightarrow> real \<Rightarrow> real list \<Rightarrow> histogram \<Rightarrow> nat \<Rightarrow> nat \<Rightarrow> real \<Rightarrow>
    (histogram \<times> nat \<times> nat) result" where
  "bin_loop n bin_size [] hist cnt i upper = Inr (hist, cnt, i)"
| "bin_loop n bin_size (d # ds) hist cnt i upper =
     (if d < upper + 1 \<or> i = n then
        bin_loop n bin_size ds hist (cnt + 1) i upper
      else
        (case update_bin i cnt hist of
           Inl e \<Rightarrow> Inl e
         | Inr hist' \<Rightarrow>
             (case next_bin n bin_size d i upper of
                (i', upper') \<Rightarrow> bin_loop n bin_size ds hist' 1 i' upper')))"

text \<open>The histogram that \<open>aggregate\<close> builds from a buffer.\<close>

definition make_histogram :: "nat \<Rightarrow> real \<Rightarrow> real list \<Rightarrow> histogram result" where
  "make_histogram n bin_size data =
     (let hist = new_histogram n bin_size in
      if data = [] then Inr hist
      else
        (let data = sort data;
             s = fold (\<lambda>t s. s + t) data (h_sum hist);
             hist = hist\<lparr>h_min := hd data, h_max := last data, h_count := length data,
                         h_sum := s, h_avg := s / real (length data)\<rparr> in
         case bin_loop n bin_size data hist 0 0 bin_size of
           Inl e \<Rightarrow> Inl e
         | Inr (hist', cnt, i) \<Rightarrow> update_bin i cnt hist'))"

section \<open>Timers\<close>

record timer = basic_metric +
  m_times :: "real list list"
  m_times_idx :: uint8
  m_1min_values :: "histogram list"
  m_num_of_bins :: nat
  m_bin_size :: real
  m_aggregate_counter :: uint8

definition new_timer :: "nat \<Rightarrow> real \<Rightarrow> timer" where
  "new_timer num_of_bins bin_size =
     \<lparr>m_log_visible = True, m_times = [[], []], m_times_idx = 0, m_1min_values = [],
      m_num_of_bins = num_of_bins, m_bin_size = bin_size, m_aggregate_counter = 0\<rparr>"

definition timer_update :: "real \<Rightarrow> timer \<Rightarrow> timer" where
  "timer_update t tm =
     (let i = unat (m_times_idx tm) in tm\<lparr>m_times := (m_times tm)[i := (m_times tm ! i) @ [t]]\<rparr>)"

text \<open>
  \<open>aggregate\<close>, up to the unlock after the buffers are switched: the index of the buffer to
  collect, when the tenth call is reached.
\<close>

definition timer_switch :: "timer \<Rightarrow> nat option \<times> timer" where
  "timer_switch tm =
     (let c = m_aggregate_counter tm + 1 in
      if 10 \<le> c then
        (Some (unat (m_times_idx tm)),
         tm\<lparr>m_aggregate_counter := 0, m_times_idx := (m_times_idx tm + 1) mod 2\<rparr>)
      else (None, tm\<lparr>m_aggregate_counter := c\<rparr>))"

text \<open>The rest of \<open>aggregate\<close>: the histogram of the old buffer joins the window of six.\<close>

definition timer_collect :: "nat \<Rightarrow> timer \<Rightarrow> timer result" where
  "timer_collect idx tm =
     (case make_histogram (m_num_of_bins tm) (m_bin_size tm) (m_times tm ! idx) of
        Inl e \<Rightarrow> Inl e
      | Inr hist \<Rightarrow>
          (let values = m_1min_values tm @ [hist];
               values = (if length values > 6 then tl values else values) in
           Inr (tm\<lparr>m_times := (m_times tm)[idx := []], m_1min_values := values\<rparr>)))"

text \<open>
  A whole call of \<open>aggregate\<close>, with the samples \<open>ts\<close> that other threads add after the buffers
  are switched and before the old one is collected; a call on its own has none.
\<close>

definition timer_aggregate :: "real list \<Rightarrow> timer \<Rightarrow> timer result" where
  "timer_aggregate ts tm =
     (case timer_switch tm of
        (None, tm') \<Rightarrow> Inr (fold timer_update ts tm')
      | (Some idx, tm') \<Rightarrow> timer_collect idx (fold timer_update ts tm'))"

section \<open>The one-minute histogram\<close>

text \<open>\<open>std::numeric_limits<double>::max()\<close>.\<close>

definition double_max :: real where
  "double_max = (2 - 1 / 2 ^ 52) * 2 ^ 1023"

text \<open>The loop over the bins of one histogram of the window.\<close>

definition add_bins :: "nat \<Rightarrow> histogram \<Rightarrow> histogram \<Rightarrow> histogram result" where
  "add_bins n hist agg =
     fold_result (\<lambda>a i. if i < length (h_dist hist) then update_bin i (snd (h_dist hist ! i)) a
                        else Inl Bad_access) agg [0..<n + 1]"

definition merge_histogram :: "nat \<Rightarrow> histogram \<Rightarrow> histogram \<Rightarrow> histogram result" where
  "merge_histogram n agg hist =
     (let agg = agg\<lparr>h_sum := h_sum agg + h_sum hist, h_count := h_count agg + h_count hist\<rparr> in
      case add_bins n hist agg of
        Inl e \<Rightarrow> Inl e
      | Inr agg \<Rightarrow>
          (let agg = (if h_min agg > h_min hist then agg\<lparr>h_min := h_min hist\<rparr> else agg);
               agg = (if h_max agg < h_max hist then agg\<lparr>h_max := h_max hist\<rparr> else agg) in
           Inr agg))"

definition get_1min_histogram :: "timer \<Rightarrow> histogram result" where
  "get_1min_histogram tm =
     (let agg = new_histogram (m_num_of_bins tm) (m_bin_size tm) in
      if length (m_1min_values tm) > 0 then
        (case fold_result (merge_histogram (m_num_of_bins tm)) (agg\<lparr>h_min := double_max\<rparr>)
                (m_1min_values tm) of
           Inl e \<Rightarrow> Inl e
         | Inr agg \<Rightarrow>
             Inr (if h_count agg > 0 then agg\<lparr>h_avg := h_sum agg / real (h_count agg)\<rparr> else agg))
      else Inr agg)"

section \<open>The histogram of a buffer\<close>

definition bin_total :: "histogram \<Rightarrow> nat" where
  "bin_total h = sum_list (map snd (h_dist h))"

lemma length_histogram_bins [simp]: "length (histogram_bins k l b) = k"
  by (induction k arbitrary: l) auto

lemma snd_histogram_bins [simp]: "j < k \<Longrightarrow> snd (histogram_bins k l b ! j) = 0"
  by (induction k arbitrary: l j) (auto simp: nth_Cons split: nat.split)

lemma bin_total_new [simp]: "bin_total (new_histogram n b) = 0"
proof -
  have "map snd (histogram_bins k l b) = replicate k 0" for k l
    by (induction k arbitrary: l) auto
  then show ?thesis by (simp add: bin_total_def new_histogram_def del: histogram_bins.simps)
qed

lemma length_dist_new [simp]: "length (h_dist (new_histogram n b)) = Suc n"
  by (simp add: new_histogram_def)

text \<open>The samples' summary, which the bins do not touch.\<close>

definition summary :: "histogram \<Rightarrow> real \<times> real \<times> real \<times> real \<times> nat" where
  "summary h = (h_min h, h_max h, h_avg h, h_sum h, h_count h)"

lemma update_bin_ok:
  assumes "bin < length (h_dist h)"
  shows "\<exists>h'. update_bin bin c h = Inr h' \<and> length (h_dist h') = length (h_dist h) \<and>
           summary h' = summary h \<and> bin_total h' = bin_total h + c \<and>
           (\<forall>j < length (h_dist h).
              snd (h_dist h' ! j) = snd (h_dist h ! j) + (if j = bin then c else 0))"
proof -
  let ?xs = "h_dist h"
  have "sum_list (map snd (?xs[bin := (fst (?xs ! bin), snd (?xs ! bin) + c)])) =
        sum_list (map snd ?xs) + c"
    using assms elem_le_sum_list [of bin "map snd ?xs"]
    by (simp add: map_update sum_list_update)
  with assms show ?thesis
    by (simp add: update_bin_def summary_def bin_total_def nth_list_update)
qed

lemma next_bin_step:
  "d > upper \<and> i < n \<Longrightarrow> next_bin n b d i upper = next_bin n b d (i + 1) (upper + b)"
  by (subst next_bin.simps) simp

lemma next_bin_stop: "\<not> (d > upper \<and> i < n) \<Longrightarrow> next_bin n b d i upper = (i, upper)"
  by (subst next_bin.simps) auto

lemma next_bin_bounds:
  assumes "next_bin n b d i upper = (i', upper')" "i \<le> n" "upper = real (i + 1) * b"
  shows "i \<le> i' \<and> i' \<le> n \<and> upper' = real (i' + 1) * b \<and>
         (i' = n \<or> d \<le> upper') \<and> (i' = i \<or> real i' * b < d)"
  using assms
proof (induction n b d i upper arbitrary: i' upper' rule: next_bin.induct)
  case (1 n b d i upper)
  show ?case
  proof (cases "d > upper \<and> i < n")
    case True
    with "1.prems"(1) have call: "next_bin n b d (i + 1) (upper + b) = (i', upper')"
      by (simp add: next_bin_step [OF True])
    have up: "upper + b = real (i + 1 + 1) * b"
      using "1.prems"(3) by (simp add: algebra_simps)
    have "i + 1 \<le> n" using True by simp
    note rec = "1.IH" [OF True call this up]
    from rec True "1.prems"(3) have "real i' * b < d" by auto
    moreover from rec have "i \<le> i'" by simp
    ultimately show ?thesis using rec by blast
  next
    case False
    with "1.prems"(1) have "i' = i" "upper' = upper" by (simp_all add: next_bin_stop)
    with False "1.prems"(2,3) show ?thesis by auto
  qed
qed

text \<open>No index runs out of the bins, and every sample is counted exactly once.\<close>

lemma bin_loop_total:
  assumes "i \<le> n" "upper = real (i + 1) * b" "length (h_dist h) = Suc n"
  shows "\<exists>h' c' i'. bin_loop n b ds h c i upper = Inr (h', c', i') \<and> i' \<le> n \<and>
           length (h_dist h') = Suc n \<and> summary h' = summary h \<and>
           bin_total h' + c' = bin_total h + c + length ds"
  using assms
proof (induction ds arbitrary: h c i upper)
  case Nil
  then show ?case by simp
next
  case (Cons d ds)
  show ?case
  proof (cases "d < upper + 1 \<or> i = n")
    case True
    with Cons.IH [OF Cons.prems, of "c + 1"] show ?thesis by simp
  next
    case False
    from Cons.prems update_bin_ok [of i h c] obtain h1 where h1: "update_bin i c h = Inr h1"
      "length (h_dist h1) = Suc n" "summary h1 = summary h" "bin_total h1 = bin_total h + c"
      by auto
    obtain i' upper' where nb: "next_bin n b d i upper = (i', upper')" by force
    from next_bin_bounds [OF nb Cons.prems(1,2)] have "i' \<le> n" "upper' = real (i' + 1) * b"
      by auto
    from Cons.IH [OF this h1(2), of 1] False h1 nb show ?thesis by auto
  qed
qed

lemma fold_sum: "fold (\<lambda>t s. s + t) xs (a :: real) = a + sum_list xs"
  by (induction xs arbitrary: a) (simp_all add: add.assoc)

lemma hd_sort_Min:
  fixes xs :: "real list"
  assumes "xs \<noteq> []"
  shows "hd (sort xs) = Min (set xs)"
proof -
  from assms obtain y ys where ys: "sort xs = y # ys"
    by (metis length_0_conv length_sort list.exhaust)
  with sorted_sort [of xs] have "\<forall>z \<in> set ys. y \<le> z" by simp
  then have "Min (set (y # ys)) = y" by (intro Min_eqI) auto
  moreover have "set (y # ys) = set xs" by (simp add: ys [symmetric] del: list.set)
  ultimately show ?thesis by (simp add: ys del: list.set)
qed

lemma last_sort_Max:
  fixes xs :: "real list"
  assumes "xs \<noteq> []"
  shows "last (sort xs) = Max (set xs)"
proof -
  from assms obtain y ys where ys: "sort xs = ys @ [y]"
    by (metis length_0_conv length_sort rev_exhaust)
  with sorted_sort [of xs] have "\<forall>z \<in> set ys. z \<le> y" by (simp add: sorted_append)
  then have "Max (set (ys @ [y])) = y" by (intro Max_eqI) auto
  moreover have "set (ys @ [y]) = set xs" by (simp only: ys [symmetric] set_sort)
  ultimately show ?thesis by (simp add: ys)
qed

text \<open>The stages of building the histogram of a buffer that is not empty.\<close>

definition filled_histogram :: "nat \<Rightarrow> real \<Rightarrow> real list \<Rightarrow> histogram" where
  "filled_histogram n b data = (new_histogram n b)\<lparr>h_min := hd (sort data), h_max := last (sort data),
     h_count := length data, h_sum := sum_list data, h_avg := sum_list data / real (length data)\<rparr>"

lemma make_histogram_stages:
  assumes "data \<noteq> []"
  obtains h1 c i h where "bin_loop n b (sort data) (filled_histogram n b data) 0 0 b = Inr (h1, c, i)"
    "i \<le> n" "length (h_dist h1) = Suc n" "summary h1 = summary (filled_histogram n b data)"
    "bin_total h1 + c = length data" "update_bin i c h1 = Inr h" "make_histogram n b data = Inr h"
proof -
  let ?data = "sort data" and ?h0 = "filled_histogram n b data"
  have sum: "fold (\<lambda>t s. s + t) ?data (h_sum (new_histogram n b)) = sum_list data"
    by (simp add: fold_sum new_histogram_def del: histogram_bins.simps)
      (metis mset_sort sum_mset_sum_list)
  have h0: "length (h_dist ?h0) = Suc n" "bin_total ?h0 = 0"
    using bin_total_new [of n b] by (simp_all add: filled_histogram_def bin_total_def)
  obtain h1 c i where loop: "bin_loop n b ?data ?h0 0 0 b = Inr (h1, c, i)" and "i \<le> n"
    and h1: "length (h_dist h1) = Suc n" "summary h1 = summary ?h0" "bin_total h1 + c = length data"
    using bin_loop_total [of 0 n b b ?h0 ?data 0] h0 by auto
  then obtain h where upd: "update_bin i c h1 = Inr h"
    using update_bin_ok [of i h1 c] by auto
  have "make_histogram n b data = Inr h"
    using assms loop upd by (simp add: make_histogram_def Let_def sum filled_histogram_def)
  with loop \<open>i \<le> n\<close> h1 upd show ?thesis by (rule that)
qed

lemma make_histogram_facts:
  "\<exists>h. make_histogram n b data = Inr h \<and> h_count h = length data \<and>
       bin_total h = length data \<and> length (h_dist h) = n + 1 \<and>
       (data \<noteq> [] \<longrightarrow> h_min h = Min (set data) \<and> h_max h = Max (set data) \<and>
          h_sum h = sum_list data \<and> h_avg h = sum_list data / real (length data)) \<and>
       (data = [] \<longrightarrow> h = new_histogram n b)"
proof (cases "data = []")
  case True
  then show ?thesis
    by (simp add: make_histogram_def del: histogram_bins.simps) (simp add: new_histogram_def)
next
  case False
  obtain h1 c i h where h: "i \<le> n" "length (h_dist h1) = Suc n"
    "summary h1 = summary (filled_histogram n b data)" "bin_total h1 + c = length data"
    "update_bin i c h1 = Inr h" "make_histogram n b data = Inr h"
    by (rule make_histogram_stages [OF False, of n b])
  then have upd: "length (h_dist h) = Suc n" "summary h = summary h1" "bin_total h = bin_total h1 + c"
    using update_bin_ok [of i h1 c] by auto
  then have "h_count h = length data" "h_min h = hd (sort data)" "h_max h = last (sort data)"
    "h_sum h = sum_list data" "h_avg h = sum_list data / real (length data)"
    using h(3) by (simp_all add: summary_def filled_histogram_def)
  then show ?thesis
    using False upd h(4,6) hd_sort_Min [OF False] last_sort_Max [OF False] by simp
qed

text \<open>
  C33. The histogram of a buffer: building it never indexes outside the bins, its count and the
  sum of its bins are the number of samples, and its minimum, maximum and sum are those of the
  samples.
\<close>
theorem make_histogram_correct:
  assumes "data \<noteq> []"
  shows "\<exists>h. make_histogram n b data = Inr h \<and> h_count h = length data \<and>
       bin_total h = length data \<and> length (h_dist h) = n + 1 \<and>
       h_min h = Min (set data) \<and> h_max h = Max (set data) \<and>
       h_sum h = sum_list data \<and> h_avg h = sum_list data / real (length data)"
  using make_histogram_facts [of n b data] assms by blast

theorem make_histogram_correct_witness:
  "\<exists>h. make_histogram 2 10 [25, 3, 11] = Inr h \<and> h_min h = 3 \<and> h_max h = 25 \<and> h_avg h = 13"
  using make_histogram_correct [of "[25, 3, 11]" 2 10] by auto

section \<open>Which bin a sample is counted in\<close>

text \<open>
  The reference: bin \<open>j\<close> holds the samples in \<open>(j * b, (j + 1) * b]\<close>, the first bin everything up
  to \<open>b\<close>, and the last one everything above \<open>n * b\<close>.
\<close>

definition in_bin :: "nat \<Rightarrow> real \<Rightarrow> nat \<Rightarrow> real \<Rightarrow> bool" where
  "in_bin n b j d \<longleftrightarrow> j \<le> n \<and> (j = 0 \<or> real j * b < d) \<and> (j = n \<or> d \<le> real (j + 1) * b)"

lemma in_bin_unique:
  assumes "0 < b" "in_bin n b i d" "in_bin n b j d"
  shows "i = j"
proof (rule ccontr)
  have False if "i < j" "in_bin n b i d" "in_bin n b j d" for i j
  proof -
    from that have "d \<le> real (i + 1) * b" "real j * b < d" by (auto simp: in_bin_def)
    moreover have "real (i + 1) * b \<le> real j * b"
      using that(1) \<open>0 < b\<close> by (intro mult_right_mono) auto
    ultimately show False by simp
  qed
  moreover assume "i \<noteq> j"
  ultimately show False using assms by (metis nat_neq_iff)
qed

lemma length_filter_sort: "length (filter P (sort xs)) = length (filter P xs)"
  by (metis mset_filter mset_sort size_mset)

lemma Ints_less_add1: "x \<in> \<int> \<Longrightarrow> y \<in> \<int> \<Longrightarrow> x < y + 1 \<longleftrightarrow> x \<le> (y :: real)"
  by (auto elim!: Ints_cases)

lemma bin_loop_bins:
  assumes "i \<le> n" "upper = real (i + 1) * b" "length (h_dist h) = Suc n"
    and "0 < b" "b \<in> \<int>" "set ds \<subseteq> \<int>" "sorted ds" "\<forall>d \<in> set ds. i = 0 \<or> real i * b < d"
    and "bin_loop n b ds h c i upper = Inr (h', c', i')" "j \<le> n"
  shows "snd (h_dist h' ! j) + (if j = i' then c' else 0) =
         snd (h_dist h ! j) + (if j = i then c else 0) + length (filter (in_bin n b j) ds)"
  using assms
proof (induction ds arbitrary: h c i upper)
  case Nil
  then show ?case by auto
next
  case (Cons d ds)
  have b: "0 < b" "b \<in> \<int>" and ints: "set ds \<subseteq> \<int>" "d \<in> \<int>" and "sorted ds"
    and above: "\<forall>e \<in> set ds. d \<le> e" using Cons.prems(4-7) by auto
  show ?case
  proof (cases "d < upper + 1 \<or> i = n")
    case True
    have "upper \<in> \<int>" using Cons.prems(2) b(2) by (simp add: Ints_mult)
    with True ints(2) have "in_bin n b i d"
      using Cons.prems(1,2,8) by (auto simp: in_bin_def Ints_less_add1)
    then have "in_bin n b j d \<longleftrightarrow> j = i" using in_bin_unique [OF b(1)] by blast
    with Cons.IH [OF Cons.prems(1-3) b ints(1) \<open>sorted ds\<close> _ _ Cons.prems(10), of "c + 1"]
      True Cons.prems(8,9) show ?thesis by auto
  next
    case False
    from Cons.prems(1,3) update_bin_ok [of i h c] obtain h1 where h1: "update_bin i c h = Inr h1"
      "length (h_dist h1) = Suc n"
      "snd (h_dist h1 ! j) = snd (h_dist h ! j) + (if j = i then c else 0)"
      using Cons.prems(10) by (metis le_imp_less_Suc)
    obtain k upper' where nb: "next_bin n b d i upper = (k, upper')" by force
    from next_bin_bounds [OF nb Cons.prems(1,2)]
    have k: "k \<le> n" "upper' = real (k + 1) * b" "k = n \<or> d \<le> upper'" "k = i \<or> real k * b < d"
      by auto
    have kd: "k = 0 \<or> real k * b < d" using k(4) Cons.prems(8) by auto
    with k have "in_bin n b k d" by (auto simp: in_bin_def)
    then have bin: "in_bin n b j d \<longleftrightarrow> j = k" using in_bin_unique [OF b(1)] by blast
    have "\<forall>e \<in> set ds. k = 0 \<or> real k * b < e" using kd above by force
    from Cons.IH [OF k(1,2) h1(2) b ints(1) \<open>sorted ds\<close> this _ Cons.prems(10), of 1]
      Cons.prems(9) False h1(1,3) nb bin show ?thesis by auto
  qed
qed

text \<open>
  C34. For whole-nanosecond samples and bin size, which is what durations are measured in,
  the single pass over the sorted buffer computes exactly the reference distribution.
\<close>
theorem make_histogram_reference:
  assumes "0 < b" "b \<in> \<int>" "set data \<subseteq> \<int>"
  shows "\<exists>h. make_histogram n b data = Inr h \<and>
           map snd (h_dist h) = map (\<lambda>j. length (filter (in_bin n b j) data)) [0..<n + 1]"
proof (cases "data = []")
  case True
  then show ?thesis
    by (auto simp: make_histogram_def new_histogram_def intro!: nth_equalityI
        simp del: histogram_bins.simps upt_Suc)
next
  case False
  let ?data = "sort data" and ?h0 = "filled_histogram n b data"
  obtain h1 c i h where loop: "bin_loop n b ?data ?h0 0 0 b = Inr (h1, c, i)"
    and h1: "i \<le> n" "length (h_dist h1) = Suc n" and upd: "update_bin i c h1 = Inr h"
    and h: "make_histogram n b data = Inr h"
    by (rule make_histogram_stages [OF False, of n b])
  have h0: "h_dist ?h0 = h_dist (new_histogram n b)" by (simp add: filled_histogram_def)
  have len: "length (h_dist h) = n + 1" using update_bin_ok [of i h1 c] h1 upd by auto
  have "snd (h_dist h ! j) = length (filter (in_bin n b j) data)" if "j \<le> n" for j
  proof -
    have "snd (h_dist h ! j) = snd (h_dist h1 ! j) + (if j = i then c else 0)"
      using update_bin_ok [of i h1 c] h1 upd that by auto
    also have "\<dots> = snd (h_dist ?h0 ! j) + length (filter (in_bin n b j) ?data)"
      using bin_loop_bins [OF _ _ _ assms(1,2) _ _ _ loop that] h0 assms(3) by simp
    also have "\<dots> = length (filter (in_bin n b j) data)"
      using that h0 by (simp add: new_histogram_def length_filter_sort del: histogram_bins.simps)
    finally show ?thesis .
  qed
  with h len show ?thesis
    by (intro exI [of _ h] conjI nth_equalityI) (simp_all del: upt_Suc)
qed

theorem make_histogram_reference_witness:
  "\<exists>h. make_histogram 2 10 [25, 3, 10, 11] = Inr h \<and> map snd (h_dist h) = [2, 1, 1]"
  using make_histogram_reference [of 10 "[25, 3, 10, 11]" 2]
  by (simp add: in_bin_def upt_rec numeral_2_eq_2)

text \<open>
  Fractional samples are binned by their neighbours: within one nanosecond above a bin's
  upper bound (\<open>d < upper + 1\<close>), the same sample falls in another bin when another sample was
  counted before it. The 20.5 of the two buffers below is in the last bin of one and in the
  middle bin of the other.
\<close>
theorem bin_depends_on_neighbours:
  "(\<exists>h. make_histogram 2 10 [20.5] = Inr h \<and> map snd (h_dist h) = [0, 0, 1]) \<and>
   (\<exists>h. make_histogram 2 10 [15, 20.5] = Inr h \<and> map snd (h_dist h) = [0, 2, 0])"
  by (simp add: make_histogram_def new_histogram_def update_bin_def next_bin.simps
      Let_def numeral_2_eq_2)

section \<open>The window of six histograms\<close>

text \<open>
  The contract of a timer's operations: the samples not yet collected, the calls of
  \<open>aggregate\<close> since the last collection, and the samples of the last six collected buffers.
\<close>

datatype timer_event = Sample real | Aggregate "real list"

fun timer_step :: "timer \<Rightarrow> timer_event \<Rightarrow> timer result" where
  "timer_step tm (Sample t) = Inr (timer_update t tm)"
| "timer_step tm (Aggregate ts) = timer_aggregate ts tm"

record timer_spec =
  s_calls :: nat
  s_pending :: "real list"
  s_window :: "real list list"

fun spec_step :: "timer_spec \<Rightarrow> timer_event \<Rightarrow> timer_spec" where
  "spec_step s (Sample t) = s\<lparr>s_pending := s_pending s @ [t]\<rparr>"
| "spec_step s (Aggregate ts) =
     (if s_calls s = 9
      then \<lparr>s_calls = 0, s_pending = ts,
            s_window = (let w = s_window s @ [s_pending s] in drop (length w - 6) w)\<rparr>
      else s\<lparr>s_calls := s_calls s + 1, s_pending := s_pending s @ ts\<rparr>)"

definition spec_run :: "timer_event list \<Rightarrow> timer_spec" where
  "spec_run evs = fold (\<lambda>e s. spec_step s e) evs \<lparr>s_calls = 0, s_pending = [], s_window = []\<rparr>"

definition timer_rel :: "nat \<Rightarrow> real \<Rightarrow> timer_spec \<Rightarrow> timer \<Rightarrow> bool" where
  "timer_rel n b s tm \<longleftrightarrow>
     m_num_of_bins tm = n \<and> m_bin_size tm = b \<and>
     (m_times_idx tm = 0 \<and> m_times tm = [s_pending s, []] \<or>
      m_times_idx tm = 1 \<and> m_times tm = [[], s_pending s]) \<and>
     unat (m_aggregate_counter tm) = s_calls s \<and> s_calls s \<le> 9 \<and> length (s_window s) \<le> 6 \<and>
     map Inr (m_1min_values tm) = map (make_histogram n b) (s_window s)"

lemma fold_timer_update:
  "unat (m_times_idx tm) < length (m_times tm) \<Longrightarrow>
   fold timer_update ts tm = tm\<lparr>m_times := (m_times tm)[unat (m_times_idx tm) :=
     m_times tm ! unat (m_times_idx tm) @ ts]\<rparr>"
  by (induction ts arbitrary: tm) (simp_all add: timer_update_def Let_def)

lemma timer_rel_samples:
  "timer_rel n b s tm \<Longrightarrow>
   timer_rel n b (s\<lparr>s_pending := s_pending s @ ts\<rparr>) (fold timer_update ts tm)"
  by (auto simp: timer_rel_def fold_timer_update)

lemma timer_rel_calls:
  assumes "timer_rel n b s tm" "s_calls s < 9"
  shows "timer_switch tm = (None, tm\<lparr>m_aggregate_counter := m_aggregate_counter tm + 1\<rparr>)"
    and "timer_rel n b (s\<lparr>s_calls := s_calls s + 1\<rparr>)
           (tm\<lparr>m_aggregate_counter := m_aggregate_counter tm + 1\<rparr>)"
proof -
  have "unat (m_aggregate_counter tm + 1) = s_calls s + 1"
    using assms by (simp add: timer_rel_def unat_word_ariths(1) unat_1)
  then show "timer_switch tm = (None, tm\<lparr>m_aggregate_counter := m_aggregate_counter tm + 1\<rparr>)"
    and "timer_rel n b (s\<lparr>s_calls := s_calls s + 1\<rparr>)
           (tm\<lparr>m_aggregate_counter := m_aggregate_counter tm + 1\<rparr>)"
    using assms by (simp_all add: timer_rel_def timer_switch_def Let_def word_le_nat_alt)
qed

lemma timer_rel_collect:
  assumes rel: "timer_rel n b s tm" and "s_calls s = 9"
  shows "\<exists>tm'. timer_aggregate ts tm = Inr tm' \<and> timer_rel n b (spec_step s (Aggregate ts)) tm'"
proof -
  let ?idx = "unat (m_times_idx tm)"
  let ?tm = "tm\<lparr>m_aggregate_counter := 0, m_times_idx := (m_times_idx tm + 1) mod 2\<rparr>"
  obtain h where h: "make_histogram n b (s_pending s) = Inr h"
    using make_histogram_facts by blast
  have "m_aggregate_counter tm = 9"
    using assms by (simp add: timer_rel_def word_unat_eq_iff)
  then have switch: "timer_switch tm = (Some ?idx, ?tm)"
    by (simp add: timer_switch_def Let_def)
  have pend: "m_times ?tm ! ?idx = s_pending s" using rel by (auto simp: timer_rel_def)
  have len: "length (m_1min_values tm) = length (s_window s)"
    using rel by (metis (no_types) length_map timer_rel_def)
  define w where "w = s_window s @ [s_pending s]"
  define vals where "vals = m_1min_values tm @ [h]"
  have vals: "map Inr vals = map (make_histogram n b) w" "length vals = length w" "length w \<le> 7"
    using rel h len by (simp_all add: timer_rel_def w_def vals_def)
  have drop: "drop (length w - 6) vals = (if length vals > 6 then tl vals else vals)"
    using vals(2,3) by (cases "length w = 7") (auto simp: drop_Suc)
  have win: "map Inr (if length vals > 6 then tl vals else vals) =
    map (make_histogram n b) (drop (length w - 6) w)"
    unfolding drop [symmetric] by (simp only: drop_map [symmetric] vals(1))
  define times where
    "times = (if m_times_idx tm = 0 then [s_pending s, ts] else [ts, s_pending s])"
  have "fold timer_update ts ?tm = ?tm\<lparr>m_times := times\<rparr>"
    using rel by (auto simp: timer_rel_def fold_timer_update times_def)
  then have "timer_aggregate ts tm = timer_collect ?idx (?tm\<lparr>m_times := times\<rparr>)"
    by (simp add: timer_aggregate_def switch)
  moreover have "times ! ?idx = s_pending s" using rel by (auto simp: timer_rel_def times_def)
  ultimately have agg: "timer_aggregate ts tm = Inr (?tm\<lparr>m_times := times[?idx := []],
      m_1min_values := (if length vals > 6 then tl vals else vals)\<rparr>)"
    using rel h by (simp add: timer_collect_def timer_rel_def vals_def Let_def)
  have spec: "spec_step s (Aggregate ts) =
      \<lparr>s_calls = 0, s_pending = ts, s_window = drop (length w - 6) w\<rparr>"
    using assms(2) by (simp add: w_def)
  have bufs: "(m_times_idx tm + 1) mod 2 = 0 \<and> times[?idx := []] = [ts, []] \<or>
      (m_times_idx tm + 1) mod 2 = 1 \<and> times[?idx := []] = [[], ts]"
    using rel by (auto simp: timer_rel_def times_def)
  have "timer_rel n b (spec_step s (Aggregate ts)) (?tm\<lparr>m_times := times[?idx := []],
      m_1min_values := (if length vals > 6 then tl vals else vals)\<rparr>)"
    using rel win bufs vals(3) unfolding timer_rel_def spec by simp
  with agg show ?thesis by blast
qed

lemma timer_rel_step:
  assumes "timer_rel n b s tm"
  shows "\<exists>tm'. timer_step tm e = Inr tm' \<and> timer_rel n b (spec_step s e) tm'"
proof (cases e)
  case (Sample t)
  with timer_rel_samples [OF assms, of "[t]"] show ?thesis by simp
next
  case (Aggregate ts)
  show ?thesis
  proof (cases "s_calls s = 9")
    case True
    with timer_rel_collect [OF assms] Aggregate show ?thesis by simp
  next
    case False
    then have less: "s_calls s < 9" using assms by (auto simp: timer_rel_def)
    from timer_rel_samples [OF timer_rel_calls(2) [OF assms less]] timer_rel_calls(1) [OF assms less]
    show ?thesis using Aggregate False by (simp add: timer_aggregate_def)
  qed
qed

lemma timer_rel_run:
  "timer_rel n b s tm \<Longrightarrow>
   \<exists>tm'. fold_result timer_step tm evs = Inr tm' \<and> timer_rel n b (fold (\<lambda>e s. spec_step s e) evs s) tm'"
proof (induction evs arbitrary: s tm)
  case Nil
  then show ?case by simp
next
  case (Cons e evs)
  from timer_rel_step [OF Cons.prems, of e] obtain tm1 where
    "timer_step tm e = Inr tm1" "timer_rel n b (spec_step s e) tm1" by blast
  with Cons.IH show ?case by simp
qed

lemma timer_rel_init:
  "timer_rel n b \<lparr>s_calls = 0, s_pending = [], s_window = []\<rparr> (new_timer n b)"
  by (simp add: timer_rel_def new_timer_def)

section \<open>Merging the window\<close>

lemma add_bins_ok:
  assumes "length (h_dist a) = n + 1" "length (h_dist h) = n + 1"
  shows "\<exists>a'. add_bins n h a = Inr a' \<and> length (h_dist a') = n + 1 \<and> summary a' = summary a \<and>
           (\<forall>j \<le> n. snd (h_dist a' ! j) = snd (h_dist a ! j) + snd (h_dist h ! j))"
proof -
  let ?f = "\<lambda>a i. if i < length (h_dist h) then update_bin i (snd (h_dist h ! i)) a else Inl Bad_access"
  have "k \<le> n + 1 \<Longrightarrow> \<exists>a'. fold_result ?f a [0..<k] = Inr a' \<and> length (h_dist a') = n + 1 \<and>
     summary a' = summary a \<and> (\<forall>j \<le> n. snd (h_dist a' ! j) =
       snd (h_dist a ! j) + (if j < k then snd (h_dist h ! j) else 0))" for k
  proof (induction k)
    case 0
    then show ?case using assms by simp
  next
    case (Suc k)
    then obtain a1 where a1: "fold_result ?f a [0..<k] = Inr a1" "length (h_dist a1) = n + 1"
      "summary a1 = summary a" "\<forall>j \<le> n. snd (h_dist a1 ! j) =
         snd (h_dist a ! j) + (if j < k then snd (h_dist h ! j) else 0)" by auto
    have "k < length (h_dist a1)" using Suc.prems a1(2) by simp
    from update_bin_ok [OF this, of "snd (h_dist h ! k)"] obtain a2 where
      "update_bin k (snd (h_dist h ! k)) a1 = Inr a2" "length (h_dist a2) = length (h_dist a1)"
      "summary a2 = summary a1" "\<forall>j < length (h_dist a1).
         snd (h_dist a2 ! j) = snd (h_dist a1 ! j) + (if j = k then snd (h_dist h ! k) else 0)"
      by blast
    with a1 Suc.prems assms(2) show ?case
      by (intro exI [of _ a2]) (auto simp: fold_result_append)
  qed
  from this [of "n + 1"] show ?thesis by (auto simp: add_bins_def)
qed

lemma merge_histogram_ok:
  assumes "length (h_dist a) = n + 1" "length (h_dist h) = n + 1"
  shows "\<exists>a'. merge_histogram n a h = Inr a' \<and> length (h_dist a') = n + 1 \<and>
           h_sum a' = h_sum a + h_sum h \<and> h_count a' = h_count a + h_count h \<and>
           h_min a' = min (h_min a) (h_min h) \<and> h_max a' = max (h_max a) (h_max h) \<and>
           (\<forall>j \<le> n. snd (h_dist a' ! j) = snd (h_dist a ! j) + snd (h_dist h ! j))"
proof -
  let ?a = "a\<lparr>h_sum := h_sum a + h_sum h, h_count := h_count a + h_count h\<rparr>"
  from add_bins_ok [of ?a n h] assms obtain a1 where a1: "add_bins n h ?a = Inr a1"
    "length (h_dist a1) = n + 1" "summary a1 = summary ?a"
    "\<forall>j \<le> n. snd (h_dist a1 ! j) = snd (h_dist a ! j) + snd (h_dist h ! j)" by auto
  let ?b = "if h_min a1 > h_min h then a1\<lparr>h_min := h_min h\<rparr> else a1"
  let ?c = "if h_max ?b < h_max h then ?b\<lparr>h_max := h_max h\<rparr> else ?b"
  have "merge_histogram n a h = Inr ?c" by (simp add: merge_histogram_def Let_def a1(1))
  moreover have "h_dist ?c = h_dist a1" "h_sum ?c = h_sum a1" "h_count ?c = h_count a1"
    "h_min ?c = min (h_min a1) (h_min h)" "h_max ?c = max (h_max a1) (h_max h)" by auto
  ultimately show ?thesis using a1 by (simp add: summary_def)
qed

lemma merge_all:
  assumes "length (h_dist a) = n + 1" "\<forall>h \<in> set hs. length (h_dist h) = n + 1"
  shows "\<exists>a'. fold_result (merge_histogram n) a hs = Inr a' \<and> length (h_dist a') = n + 1 \<and>
           h_sum a' = h_sum a + sum_list (map h_sum hs) \<and>
           h_count a' = h_count a + sum_list (map h_count hs) \<and>
           h_min a' = fold min (map h_min hs) (h_min a) \<and>
           h_max a' = fold max (map h_max hs) (h_max a) \<and>
           (\<forall>j \<le> n. snd (h_dist a' ! j) =
              snd (h_dist a ! j) + sum_list (map (\<lambda>h. snd (h_dist h ! j)) hs))"
  using assms
proof (induction hs arbitrary: a)
  case Nil
  then show ?case by simp
next
  case (Cons h hs)
  from Cons.prems merge_histogram_ok [of a n h] obtain a1 where a1: "merge_histogram n a h = Inr a1"
    "length (h_dist a1) = n + 1" "h_sum a1 = h_sum a + h_sum h" "h_count a1 = h_count a + h_count h"
    "h_min a1 = min (h_min a) (h_min h)" "h_max a1 = max (h_max a) (h_max h)"
    "\<forall>j \<le> n. snd (h_dist a1 ! j) = snd (h_dist a ! j) + snd (h_dist h ! j)" by auto
  have "\<forall>h \<in> set hs. length (h_dist h) = n + 1" using Cons.prems by simp
  from Cons.IH [OF a1(2) this] obtain a2 where a2: "fold_result (merge_histogram n) a1 hs = Inr a2"
    "length (h_dist a2) = n + 1" "h_sum a2 = h_sum a1 + sum_list (map h_sum hs)"
    "h_count a2 = h_count a1 + sum_list (map h_count hs)"
    "h_min a2 = fold min (map h_min hs) (h_min a1)" "h_max a2 = fold max (map h_max hs) (h_max a1)"
    "\<forall>j \<le> n. snd (h_dist a2 ! j) = snd (h_dist a1 ! j) + sum_list (map (\<lambda>h. snd (h_dist h ! j)) hs)"
    by blast
  show ?case
    by (rule exI [of _ a2]) (simp add: a1 a2 min.commute max.commute)
qed

text \<open>The one-minute histogram of a timer whose window holds the histograms of \<open>W\<close>.\<close>

lemma window_totals:
  assumes "map Inr hs = map (make_histogram n b) W"
  shows "sum_list (map h_count hs) = length (concat W) \<and>
         sum_list (map h_sum hs) = sum_list (concat W) \<and> (\<forall>h \<in> set hs. length (h_dist h) = n + 1)"
  using assms
proof (induction W arbitrary: hs)
  case Nil
  then show ?case by simp
next
  case (Cons data W)
  then obtain h hs' where hs: "hs = h # hs'" "make_histogram n b data = Inr h"
    "map Inr hs' = map (make_histogram n b) W" by (cases hs) auto
  with make_histogram_facts [of n b data]
  have "h_count h = length data" "h_sum h = sum_list data" "length (h_dist h) = n + 1"
    by (auto simp: new_histogram_def)
  with Cons.IH [OF hs(3)] hs(1) show ?case by simp
qed

lemma one_minute_totals:
  assumes "map Inr (m_1min_values tm) = map (make_histogram (m_num_of_bins tm) (m_bin_size tm)) W"
  shows "\<exists>h. get_1min_histogram tm = Inr h \<and> h_count h = length (concat W) \<and>
           h_sum h = sum_list (concat W) \<and> (concat W \<noteq> [] \<longrightarrow> h_avg h = h_sum h / real (h_count h)) \<and>
           (\<forall>j \<le> m_num_of_bins tm. snd (h_dist h ! j) =
              sum_list (map (\<lambda>h. snd (h_dist h ! j)) (m_1min_values tm))) \<and>
           (W \<noteq> [] \<longrightarrow> h_min h = fold min (map h_min (m_1min_values tm)) double_max \<and>
              h_max h = fold max (map h_max (m_1min_values tm)) 0)"
proof (cases "W = []")
  case True
  with assms have "m_1min_values tm = []" by simp
  with True show ?thesis
    by (simp add: get_1min_histogram_def del: histogram_bins.simps)
      (simp add: new_histogram_def del: histogram_bins.simps)
next
  case False
  let ?n = "m_num_of_bins tm" and ?hs = "m_1min_values tm"
  let ?a = "new_histogram ?n (m_bin_size tm)\<lparr>h_min := double_max\<rparr>"
  have len: "length (h_dist ?a) = ?n + 1" by simp
  note tot = window_totals [OF assms]
  from merge_all [OF len, of ?hs] tot obtain a where
    a: "fold_result (merge_histogram ?n) ?a ?hs = Inr a" "h_sum a = sum_list (concat W)"
    "h_count a = length (concat W)" "h_min a = fold min (map h_min ?hs) double_max"
    "h_max a = fold max (map h_max ?hs) 0"
    "\<forall>j \<le> ?n. snd (h_dist a ! j) = sum_list (map (\<lambda>h. snd (h_dist h ! j)) ?hs)"
    by (auto simp: new_histogram_def simp del: histogram_bins.simps)
  have "?hs \<noteq> []" using assms False by auto
  then have "get_1min_histogram tm =
    Inr (if h_count a > 0 then a\<lparr>h_avg := h_sum a / real (h_count a)\<rparr> else a)"
    using a(1) by (simp add: get_1min_histogram_def)
  then show ?thesis
    using a(2-) by (intro exI conjI) (assumption, simp_all)
qed

text \<open>
  C35. The one-minute histogram implements the contract: whatever calls were made since the
  timer was created, no call fails, the window covers at most the last six collections, and the
  count, sum and average are those of exactly the samples they collected.
\<close>
theorem one_minute_histogram_refines:
  "\<exists>tm h. fold_result timer_step (new_timer n b) evs = Inr tm \<and> get_1min_histogram tm = Inr h \<and>
     length (s_window (spec_run evs)) \<le> 6 \<and>
     h_count h = length (concat (s_window (spec_run evs))) \<and>
     h_sum h = sum_list (concat (s_window (spec_run evs))) \<and>
     (h_count h = 0 \<or> h_avg h = h_sum h / real (h_count h))"
proof -
  from timer_rel_run [OF timer_rel_init, of n b evs] obtain tm where
    "fold_result timer_step (new_timer n b) evs = Inr tm" "timer_rel n b (spec_run evs) tm"
    unfolding spec_run_def by blast
  with one_minute_totals [of tm "s_window (spec_run evs)"] show ?thesis
    by (fastforce simp: timer_rel_def)
qed

lemma fold_max_Max: "fold max (xs :: real list) a = Max (insert a (set xs))"
  by (simp add: Max.set_eq_fold [symmetric])

lemma fold_min_Min: "fold min (xs :: real list) a = Min (insert a (set xs))"
  by (simp add: Min.set_eq_fold [symmetric])

definition min0 :: "real list \<Rightarrow> real" where
  "min0 data = (if data = [] then 0 else Min (set data))"

definition max0 :: "real list \<Rightarrow> real" where
  "max0 data = (if data = [] then 0 else Max (set data))"

lemma window_extrema:
  assumes "map Inr hs = map (make_histogram n b) W"
  shows "map h_min hs = map min0 W \<and> map h_max hs = map max0 W"
  using assms
proof (induction W arbitrary: hs)
  case Nil
  then show ?case by simp
next
  case (Cons data W)
  then obtain h hs' where hs: "hs = h # hs'" "make_histogram n b data = Inr h"
    "map Inr hs' = map (make_histogram n b) W" by (cases hs) auto
  with make_histogram_facts [of n b data] have "h_min h = min0 data" "h_max h = max0 data"
    by (auto simp: new_histogram_def min0_def max0_def)
  with Cons.IH [OF hs(3)] hs(1) show ?case by simp
qed

lemma Max_max0:
  assumes "\<forall>t \<in> set (concat W). (0 :: real) \<le> t"
  shows "Max (insert 0 (max0 ` set W)) = Max (insert 0 (set (concat W)))"
proof (rule antisym)
  show "Max (insert 0 (max0 ` set W)) \<le> Max (insert 0 (set (concat W)))"
  proof (rule Max.boundedI)
    fix t assume "t \<in> insert 0 (max0 ` set W)"
    moreover have "max0 d \<in> insert 0 (set (concat W))" if "d \<in> set W" for d
      using that Max_in [of "set d"] by (cases "d = []") (auto simp: max0_def simp del: Max_in)
    ultimately have "t \<in> insert 0 (set (concat W))" by auto
    then show "t \<le> Max (insert 0 (set (concat W)))" by (intro Max_ge) simp_all
  qed simp_all
  show "Max (insert 0 (set (concat W))) \<le> Max (insert 0 (max0 ` set W))"
  proof (rule Max.boundedI)
    fix t assume "t \<in> insert 0 (set (concat W))"
    then consider "t = 0" | d where "d \<in> set W" "t \<in> set d" by auto
    then show "t \<le> Max (insert 0 (max0 ` set W))"
    proof cases
      case 2
      then have "t \<le> max0 d" using Max_ge [of "set d" t] by (auto simp: max0_def)
      also have "\<dots> \<le> Max (insert 0 (max0 ` set W))" using 2 by (intro Max_ge) auto
      finally show ?thesis .
    qed (auto intro: Max_ge)
  qed simp_all
qed

lemma Min_min0:
  assumes "W \<noteq> []" "\<forall>t \<in> set (concat W). (0 :: real) \<le> t \<and> t \<le> m" "0 \<le> m"
  shows "Min (insert m (min0 ` set W)) = (if [] \<in> set W then 0 else Min (set (concat W)))"
proof (cases "[] \<in> set W")
  case True
  then have "0 \<in> min0 ` set W" by (force simp: min0_def)
  then have "Min (insert m (min0 ` set W)) = 0"
    using assms by (intro Min_eqI) (auto simp: min0_def)
  with True show ?thesis by simp
next
  case False
  obtain d t where d: "d \<in> set W" "t \<in> set d" using assms(1) False
    by (metis list.set_intros(1) list.exhaust)
  have "t \<in> set (concat W)" using d by auto
  then have ne: "set (concat W) \<noteq> {}" by (metis empty_iff)
  let ?m = "Min (set (concat W))"
  have "?m \<in> set (concat W)" using Min_in [of "set (concat W)"] ne finite_set by metis
  then obtain e where e: "e \<in> set W" "?m \<in> set e" by auto
  have le: "?m \<le> t" if "t \<in> set (concat W)" for t using that by (intro Min_le) auto
  have low: "?m \<le> y" if "d \<in> set W" "y \<in> set d" for d y using that by (intro le) auto
  have "Min (set e) = ?m" using e low [OF e(1)] by (intro Min_eqI) simp_all
  then have "min0 e = ?m" using e(2) by (auto simp: min0_def)
  then have "?m \<in> insert m (min0 ` set W)" using e(1) by (metis imageI insertCI)
  moreover have "?m \<le> min0 d" if "d \<in> set W" for d
    using that False low [OF that Min_in] by (auto simp: min0_def)
  moreover have "?m \<le> m"
  proof -
    from e have "?m \<in> set (concat W)" by auto
    with assms(2) show ?thesis by blast
  qed
  ultimately have "Min (insert m (min0 ` set W)) = ?m"
    by (intro Min_eqI) auto
  with False show ?thesis by simp
qed

text \<open>
  The extrema of the one-minute histogram of non-negative samples (durations): the maximum
  is that of all samples in the window, but the minimum is the smallest sample only while every
  one of the six buffers had samples; one idle interval in the window makes it 0.
\<close>
theorem one_minute_extrema:
  assumes "s_window (spec_run evs) \<noteq> []"
    and "\<forall>t \<in> set (concat (s_window (spec_run evs))). 0 \<le> t \<and> t \<le> double_max"
  shows "\<exists>tm h. fold_result timer_step (new_timer n b) evs = Inr tm \<and>
     get_1min_histogram tm = Inr h \<and>
     h_max h = Max (insert 0 (set (concat (s_window (spec_run evs))))) \<and>
     h_min h = (if [] \<in> set (s_window (spec_run evs)) then 0
                else Min (set (concat (s_window (spec_run evs)))))"
proof -
  let ?W = "s_window (spec_run evs)"
  from timer_rel_run [OF timer_rel_init, of n b evs] obtain tm where
    run: "fold_result timer_step (new_timer n b) evs = Inr tm" "timer_rel n b (spec_run evs) tm"
    unfolding spec_run_def by blast
  then have W: "map Inr (m_1min_values tm) = map (make_histogram (m_num_of_bins tm) (m_bin_size tm)) ?W"
    by (simp add: timer_rel_def)
  have "0 \<le> double_max" by (simp add: double_max_def)
  then have "fold min (map min0 ?W) double_max = (if [] \<in> set ?W then 0 else Min (set (concat ?W)))"
    "fold max (map max0 ?W) 0 = Max (insert 0 (set (concat ?W)))"
    using Max_max0 [of ?W] Min_min0 [of ?W double_max] assms
    by (simp_all only: fold_max_Max fold_min_Min set_map) auto
  with run(1) one_minute_totals [OF W] window_extrema [OF W] assms(1) show ?thesis
    by auto
qed

theorem one_minute_extrema_witness:
  "\<exists>tm h. fold_result timer_step (new_timer 2 10)
       ([Sample 7, Sample 5] @ replicate 20 (Aggregate [])) = Inr tm \<and>
     get_1min_histogram tm = Inr h \<and> h_max h = 7 \<and> h_min h = 0"
proof -
  let ?evs = "[Sample 7, Sample 5] @ replicate 20 (Aggregate [])"
  have W: "s_window (spec_run ?evs) = [[7, 5], []]"
    by (simp add: spec_run_def numeral_eq_Suc)
  show ?thesis
    using one_minute_extrema [of ?evs 2 10] unfolding W by (auto simp: double_max_def)
qed

section \<open>Measuring durations\<close>

text \<open>
  \<open>timer::duration\<close>: the timers it updates are shared pointers, here keys of a store of
  timers; the clock's reading, in nanoseconds, is an argument of every operation that reads it.
\<close>

record duration =
  m_timers :: "nat list"
  m_start :: int
  m_finished :: bool

definition new_duration :: "nat list \<Rightarrow> int \<Rightarrow> duration" where
  "new_duration l now = \<lparr>m_timers = l, m_start = now, m_finished = False\<rparr>"

definition duration_reset :: "int \<Rightarrow> duration \<Rightarrow> duration" where
  "duration_reset now d = d\<lparr>m_start := now\<rparr>"

definition duration_update :: "int \<Rightarrow> duration \<Rightarrow> (nat \<Rightarrow> timer) \<Rightarrow> duration \<times> (nat \<Rightarrow> timer)" where
  "duration_update now d store =
     (if \<not> m_finished d then
        (d\<lparr>m_start := now\<rparr>,
         fold (\<lambda>t store. store(t := timer_update (real_of_int (now - m_start d)) (store t)))
           (m_timers d) store)
      else (d, store))"

definition duration_finish :: "int \<Rightarrow> duration \<Rightarrow> (nat \<Rightarrow> timer) \<Rightarrow> duration \<times> (nat \<Rightarrow> timer)" where
  "duration_finish now d store =
     (case duration_update now d store of (d, store) \<Rightarrow> (d\<lparr>m_finished := True\<rparr>, store))"

definition duration_destroy :: "int \<Rightarrow> duration \<Rightarrow> (nat \<Rightarrow> timer) \<Rightarrow> (nat \<Rightarrow> timer)" where
  "duration_destroy now d store = snd (duration_update now d store)"

datatype lap = Lap int | Restart int | Finish int

fun duration_step :: "lap \<Rightarrow> duration \<times> (nat \<Rightarrow> timer) \<Rightarrow> duration \<times> (nat \<Rightarrow> timer)" where
  "duration_step (Lap now) (d, store) = duration_update now d store"
| "duration_step (Restart now) (d, store) = (duration_reset now d, store)"
| "duration_step (Finish now) (d, store) = duration_finish now d store"

text \<open>The reference: the intervals a list of calls measures, from the last start.\<close>

fun laps :: "int \<Rightarrow> lap list \<Rightarrow> int \<Rightarrow> int list" where
  "laps start [] stop = [stop - start]"
| "laps start (Lap now # ls) stop = (now - start) # laps now ls stop"
| "laps start (Restart now # ls) stop = laps now ls stop"
| "laps start (Finish now # ls) stop = [now - start]"

lemma fold_store_update:
  assumes "distinct ts"
  shows "fold (\<lambda>t store. store(t := f (store t))) ts store k = (if k \<in> set ts then f (store k) else store k)"
  using assms by (induction ts arbitrary: store) auto

lemma duration_update_store:
  assumes "distinct (m_timers d)"
  shows "snd (duration_update now d store) k =
    (if \<not> m_finished d \<and> k \<in> set (m_timers d)
     then timer_update (real_of_int (now - m_start d)) (store k) else store k)"
  using assms by (simp add: duration_update_def fold_store_update)

lemma finished_frame:
  "m_finished d \<Longrightarrow> \<exists>d'. fold duration_step ls (d, store) = (d', store) \<and> m_finished d'"
proof (induction ls arbitrary: d)
  case Nil
  then show ?case by simp
next
  case (Cons l ls)
  show ?case
  proof (cases l)
    case (Lap now)
    with Cons show ?thesis by (simp add: duration_update_def)
  next
    case (Restart now)
    with Cons.IH [of "duration_reset now d"] Cons.prems show ?thesis
      by (simp add: duration_reset_def)
  next
    case (Finish now)
    with Cons.IH [of "d\<lparr>m_finished := True\<rparr>"] Cons.prems show ?thesis
      by (simp add: duration_finish_def duration_update_def)
  qed
qed

lemma duration_laps:
  assumes "distinct (m_timers d)" "\<not> m_finished d"
  shows "(case fold duration_step ls (d, store) of (d', store') \<Rightarrow> duration_destroy stop d' store' k) =
    (if k \<in> set (m_timers d)
     then fold timer_update (map real_of_int (laps (m_start d) ls stop)) (store k) else store k)"
  using assms
proof (induction ls arbitrary: d store)
  case Nil
  then show ?case by (simp add: duration_destroy_def duration_update_store)
next
  case (Cons l ls)
  show ?case
  proof (cases l)
    case (Lap now)
    let ?d = "d\<lparr>m_start := now\<rparr>"
    obtain store1 where u: "duration_update now d store = (?d, store1)"
      using Cons.prems by (simp add: duration_update_def)
    have "store1 k = (if k \<in> set (m_timers d)
      then timer_update (real_of_int (now - m_start d)) (store k) else store k)"
      using duration_update_store [OF Cons.prems(1), of now store k] Cons.prems(2) u by simp
    with Cons.IH [of ?d store1] Cons.prems Lap u show ?thesis by simp
  next
    case (Restart now)
    with Cons.IH [of "duration_reset now d" store] Cons.prems show ?thesis
      by (simp add: duration_reset_def)
  next
    case (Finish now)
    let ?d = "d\<lparr>m_start := now, m_finished := True\<rparr>" and ?store = "snd (duration_update now d store)"
    have fin: "duration_finish now d store = (?d, ?store)"
      using Cons.prems by (simp add: duration_finish_def duration_update_def)
    have "m_finished ?d" by simp
    from finished_frame [OF this, of ls ?store] fin Finish show ?thesis
      using Cons.prems
      by (auto simp: duration_destroy_def duration_update_def [of stop] duration_update_store)
  qed
qed

text \<open>
  A duration adds to each of its timers one sample per lap, up to \<open>finish\<close> or else its
  destruction: exactly the intervals of the reference, and nothing to any other timer.
\<close>
theorem duration_measures_laps:
  assumes "distinct l"
  shows "(case fold duration_step ls (new_duration l start, store) of
            (d, store') \<Rightarrow> duration_destroy stop d store' k) =
         (if k \<in> set l then fold timer_update (map real_of_int (laps start ls stop)) (store k)
          else store k)"
  using duration_laps [where d = "new_duration l start" and stop = stop and ls = ls and store = store and k = k] assms
  by (simp add: new_duration_def)

theorem duration_measures_laps_witness:
  "(case fold duration_step [Lap 130, Finish 150, Lap 170] (new_duration [0, 1] 100, \<lambda>k. new_timer 2 10) of
      (d, store) \<Rightarrow> m_times (duration_destroy 200 d store 1)) = [[30, 20], []]"
  using duration_measures_laps [where l = "[0, 1]" and stop = 200 and ls = "[Lap 130, Finish 150, Lap 170]" and start = 100
      and store = "\<lambda>k. new_timer 2 10" and k = 1]
  by (simp add: split_def timer_update_def new_timer_def)

end
