(* ===== verification/Registry.thy ===== *)
theory Registry
  imports Meter Timer Options
begin

text \<open>
  The metrics registry (\<open>src/metrics/registry.h\<close>, \<open>registry.cpp\<close>): the objects it has created,
  the names they are found under, the queue of new objects and the fibers that aggregate them
  once a second. Shared pointers are addresses, indices of the list of created objects.
\<close>

section \<open>Metrics behind \<open>basic_metric::pointer\<close>\<close>

datatype metric = Counter_metric counter | Meter_metric meter | Timer_metric timer

datatype metric_kind = Counter_kind | Meter_kind | Timer_kind

fun kind_of :: "metric \<Rightarrow> metric_kind" where
  "kind_of (Counter_metric c) = Counter_kind"
| "kind_of (Meter_metric m) = Meter_kind"
| "kind_of (Timer_metric t) = Timer_kind"

text \<open>\<open>std::make_shared<T>()\<close>.\<close>

fun make_metric :: "metric_kind \<Rightarrow> metric" where
  "make_metric Counter_kind = Counter_metric new_counter"
| "make_metric Meter_kind = Meter_metric new_meter"
| "make_metric Timer_kind = Timer_metric (new_timer 10 1000000)"

text \<open>The virtual call; a counter inherits the empty \<open>aggregate\<close> of \<open>basic_metric\<close>.\<close>

fun metric_aggregate :: "metric \<Rightarrow> metric result" where
  "metric_aggregate (Counter_metric c) = Inr (Counter_metric c)"
| "metric_aggregate (Meter_metric m) = Inr (Meter_metric (meter_aggregate m))"
| "metric_aggregate (Timer_metric t) =
     (case timer_aggregate [] t of Inl e \<Rightarrow> Inl e | Inr t' \<Rightarrow> Inr (Timer_metric t'))"

section \<open>The registry\<close>

record registry =
  m_log_interval :: int
  m_graphite_enabled :: bool
  m_graphite_interval :: int
  m_graphite_host :: string
  m_graphite_port :: string
  m_stop :: bool
  m_metrics :: "string \<rightharpoonup> nat"
  m_new_metrics :: "nat list"
  heap :: "metric list"
  aggregating :: "nat list"

definition new_registry :: "variables_map \<Rightarrow> registry result" where
  "new_registry opts =
     (case as_int opts ''metrics.log'' of Inl e \<Rightarrow> Inl e
      | Inr log_interval \<Rightarrow>
     (case as_int opts ''metrics.graphite.interval'' of Inl e \<Rightarrow> Inl e
      | Inr interval \<Rightarrow>
          (let enabled = is_set opts ''metrics.graphite'';
               r = \<lparr>m_log_interval = log_interval, m_graphite_enabled = enabled,
                    m_graphite_interval = interval, m_graphite_host = '''', m_graphite_port = '''',
                    m_stop = False, m_metrics = Map.empty, m_new_metrics = [], heap = [],
                    aggregating = []\<rparr> in
           if enabled \<and> interval > 0 then
             (if is_set opts ''metrics.graphite.host'' \<and> is_set opts ''metrics.graphite.port'' then
                (case as_string opts ''metrics.graphite.host'' of Inl e \<Rightarrow> Inl e
                 | Inr host \<Rightarrow>
                (case as_string opts ''metrics.graphite.port'' of Inl e \<Rightarrow> Inl e
                 | Inr port \<Rightarrow> Inr (r\<lparr>m_graphite_host := host, m_graphite_port := port\<rparr>)))
              else Inr (r\<lparr>m_graphite_enabled := False\<rparr>))
           else Inr r)))"

text \<open>\<open>get_metric<T>\<close>: a null pointer for an unknown name and for a metric of another class.\<close>

definition get_metric :: "metric_kind \<Rightarrow> string \<Rightarrow> registry \<Rightarrow> nat option" where
  "get_metric k name r =
     (case m_metrics r name of
        Some a \<Rightarrow> (if kind_of (heap r ! a) = k then Some a else None)
      | None \<Rightarrow> None)"

definition register_metric :: "metric_kind \<Rightarrow> string \<Rightarrow> registry \<Rightarrow> nat \<times> registry" where
  "register_metric k name r =
     (case get_metric k name r of
        Some a \<Rightarrow> (a, r)
      | None \<Rightarrow>
          (let a = length (heap r) in
           (a, r\<lparr>heap := heap r @ [make_metric k], m_metrics := (m_metrics r)(name \<mapsto> a),
                 m_new_metrics := m_new_metrics r @ [a]\<rparr>)))"

definition registry_stop :: "registry \<Rightarrow> registry" where
  "registry_stop r = (if \<not> m_stop r then r\<lparr>m_stop := True\<rparr> else r)"

text \<open>
  The fibers of \<open>run\<close>: one pass over the queue of new metrics, each of which gets a fiber of
  its own, and one round of such a fiber.
\<close>

fun start_fibers :: "nat list \<Rightarrow> registry \<Rightarrow> registry" where
  "start_fibers [] r = r\<lparr>m_new_metrics := []\<rparr>"
| "start_fibers (a # q) r = start_fibers q (r\<lparr>m_new_metrics := q, aggregating := aggregating r @ [a]\<rparr>)"

definition check_new_metrics :: "registry \<Rightarrow> registry" where
  "check_new_metrics r = start_fibers (m_new_metrics r) r"

definition aggregate_round :: "nat \<Rightarrow> registry \<Rightarrow> registry result" where
  "aggregate_round a r =
     (case metric_aggregate (heap r ! a) of
        Inl e \<Rightarrow> Inl e
      | Inr m \<Rightarrow> Inr (r\<lparr>heap := (heap r)[a := m]\<rparr>))"

section \<open>What an address stands for\<close>

text \<open>Well-formed objects: those whose aggregation cannot fail.\<close>

definition timer_ok :: "timer \<Rightarrow> bool" where
  "timer_ok t \<longleftrightarrow> (\<exists>n b s. timer_rel n b s t)"

lemma timer_ok_new: "timer_ok (new_timer n b)"
  using timer_rel_init [of n b] unfolding timer_ok_def by blast

lemma timer_ok_step: "timer_ok t \<Longrightarrow> \<exists>t'. timer_step t e = Inr t' \<and> timer_ok t'"
  using timer_rel_step [of _ _ _ t e] unfolding timer_ok_def by blast

lemma timer_ok_update: "timer_ok t \<Longrightarrow> timer_ok (timer_update x t)"
  using timer_ok_step [of t "Sample x"] by simp

fun metric_ok :: "metric \<Rightarrow> bool" where
  "metric_ok (Timer_metric t) \<longleftrightarrow> timer_ok t"
| "metric_ok _ \<longleftrightarrow> True"

lemma metric_ok_make: "metric_ok (make_metric k)"
  by (cases k) (simp_all add: timer_ok_new)

lemma kind_of_make [simp]: "kind_of (make_metric k) = k"
  by (cases k) simp_all

lemma metric_ok_aggregate:
  assumes "metric_ok m"
  shows "\<exists>m'. metric_aggregate m = Inr m' \<and> metric_ok m' \<and> kind_of m' = kind_of m"
proof (cases m)
  case (Timer_metric t)
  with assms timer_ok_step [of t "Aggregate []"] show ?thesis by auto
qed auto

lemma start_fibers_eq:
  "start_fibers q r = r\<lparr>m_new_metrics := [], aggregating := aggregating r @ q\<rparr>"
  by (induction q arbitrary: r) simp_all

text \<open>
  The registry's invariant: names lead to created objects, and every created object is either
  waiting for its fiber or has one, and neither twice.
\<close>

definition registry_inv :: "registry \<Rightarrow> bool" where
  "registry_inv r \<longleftrightarrow>
     ran (m_metrics r) \<subseteq> {..<length (heap r)} \<and>
     mset (m_new_metrics r @ aggregating r) = mset_set {0..<length (heap r)} \<and>
     list_all metric_ok (heap r)"

lemma registry_inv_new: "new_registry opts = Inr r \<Longrightarrow> registry_inv r \<and> heap r = []"
  by (auto simp: new_registry_def registry_inv_def Let_def split: sum.splits if_splits)

lemma get_metric_Some:
  "registry_inv r \<Longrightarrow> get_metric k name r = Some a \<Longrightarrow> a < length (heap r) \<and> kind_of (heap r ! a) = k"
  by (auto simp: get_metric_def registry_inv_def ran_def split: option.splits if_splits)

lemma registry_inv_register [inv_intros]:
  assumes "registry_inv r" "register_metric k name r = (a, r')"
  shows "registry_inv r'"
proof (cases "get_metric k name r")
  case None
  let ?n = "length (heap r)"
  have r': "r' = r\<lparr>heap := heap r @ [make_metric k], m_metrics := (m_metrics r)(name \<mapsto> ?n),
      m_new_metrics := m_new_metrics r @ [?n]\<rparr>"
    using None assms(2) by (auto simp: register_metric_def Let_def)
  have "mset (m_new_metrics r @ aggregating r) = mset_set {0..<?n}" "ran (m_metrics r) \<subseteq> {..<?n}"
    using assms(1) by (simp_all add: registry_inv_def)
  moreover from this(2) have "ran ((m_metrics r)(name \<mapsto> ?n)) \<subseteq> {..<Suc ?n}"
    by (auto simp: ran_def less_Suc_eq split: if_splits)
  ultimately show ?thesis
    using assms(1) by (simp add: r' registry_inv_def metric_ok_make atLeast0_lessThan_Suc)
next
  case (Some b)
  with assms show ?thesis by (simp add: register_metric_def)
qed

lemma registry_inv_check [inv_intros]: "registry_inv r \<Longrightarrow> registry_inv (check_new_metrics r)"
  by (simp add: registry_inv_def check_new_metrics_def start_fibers_eq add.commute)

lemma registry_inv_update [inv_intros]:
  "registry_inv r \<Longrightarrow> metric_ok m \<Longrightarrow> registry_inv (r\<lparr>heap := (heap r)[a := m]\<rparr>)"
  by (auto simp: registry_inv_def list_all_iff dest: set_update_subset_insert [THEN subsetD])

lemma aggregate_round_ok:
  assumes "registry_inv r" "a < length (heap r)"
  shows "\<exists>m. aggregate_round a r = Inr (r\<lparr>heap := (heap r)[a := m]\<rparr>) \<and> metric_ok m \<and>
             kind_of m = kind_of (heap r ! a)"
proof -
  have "metric_ok (heap r ! a)" using assms by (simp add: registry_inv_def list_all_length)
  from metric_ok_aggregate [OF this] show ?thesis by (auto simp: aggregate_round_def)
qed

section \<open>Runs of the registry\<close>

text \<open>
  The threads' steps, in any order: a registration by a request thread, a use of a metric, the
  queue's fiber, a round of an aggregating fiber, and \<open>stop\<close>.
\<close>

inductive registry_step :: "registry \<Rightarrow> registry \<Rightarrow> bool" where
  register: "registry_step r (snd (register_metric k name r))"
| use: "a < length (heap r) \<Longrightarrow> kind_of m = kind_of (heap r ! a) \<Longrightarrow> metric_ok m \<Longrightarrow>
    registry_step r (r\<lparr>heap := (heap r)[a := m]\<rparr>)"
| check: "\<not> m_stop r \<Longrightarrow> registry_step r (check_new_metrics r)"
| round: "\<not> m_stop r \<Longrightarrow> a \<in> set (aggregating r) \<Longrightarrow> aggregate_round a r = Inr r' \<Longrightarrow> registry_step r r'"
| stop: "registry_step r (registry_stop r)"

inductive_cases registry_stepE: "registry_step r r'"

inductive registry_reachable :: "variables_map \<Rightarrow> registry \<Rightarrow> bool" for opts where
  init: "new_registry opts = Inr r \<Longrightarrow> registry_reachable opts r"
| step: "registry_reachable opts r \<Longrightarrow> registry_step r r' \<Longrightarrow> registry_reachable opts r'"

lemma aggregating_less:
  assumes "registry_inv r" "a \<in> set (aggregating r)"
  shows "a < length (heap r)"
proof -
  have "set_mset (mset (m_new_metrics r @ aggregating r)) = {0..<length (heap r)}"
    using assms(1) unfolding registry_inv_def by simp
  with assms(2) show ?thesis by auto
qed

lemma registry_inv_step: "registry_step r r' \<Longrightarrow> registry_inv r \<Longrightarrow> registry_inv r'"
proof (induction rule: registry_step.induct)
  case (register r k name)
  then show ?case by (metis prod.collapse registry_inv_register)
next
  case (use a r m)
  then show ?case by (auto intro: inv_intros)
next
  case (round r a r')
  from aggregate_round_ok [OF round.prems aggregating_less [OF round.prems round.hyps(2)]]
    round.hyps(3) round.prems show ?case by (auto intro: inv_intros)
next
  case (stop r)
  then show ?case by (simp add: registry_stop_def registry_inv_def)
qed (rule inv_intros)

lemma registry_inv_reachable: "registry_reachable opts r \<Longrightarrow> registry_inv r"
  by (induction rule: registry_reachable.induct) (auto dest: registry_inv_new registry_inv_step)


text \<open>A registry with the default options.\<close>

definition sample_opts :: variables_map where
  "sample_opts = bpo_store [(''lua.root'', String_value ''/l'')] desc_all Map.empty"

lemma sample_opts_int:
  "map_of desc_all name = Some (Value_int (Some i)) \<Longrightarrow> name \<noteq> ''lua.root'' \<Longrightarrow> as_int sample_opts name = Inr i"
  by (simp add: sample_opts_def as_int_def store_command_line desc_default_def)

lemma new_registry_sample: "\<exists>r. new_registry sample_opts = Inr r"
proof -
  have ints: "as_int sample_opts ''metrics.log'' = Inr 0"
    "as_int sample_opts ''metrics.graphite.interval'' = Inr 10"
    by (rule sample_opts_int; simp add: desc_all_def desc_file_def desc_help_def desc_srv_def
        desc_lua_def desc_log_def desc_metrics_def)+
  have "map_of desc_all ''metrics.graphite'' = Some Flag"
    by (simp add: desc_all_def desc_file_def desc_help_def desc_srv_def desc_lua_def desc_log_def
        desc_metrics_def)
  then have "\<not> is_set sample_opts ''metrics.graphite''"
    by (simp add: sample_opts_def is_set_def store_command_line desc_default_def)
  with ints show ?thesis by (simp add: new_registry_def Let_def)
qed


text \<open>
  What a name stands for: registering returns an object of the class asked for, under which
  the name is found from then on and which a second registration returns again; other names
  keep what they stand for. A name registered for another class is taken over: its old object
  is no longer found under it.
\<close>
theorem register_then_get:
  assumes "registry_reachable opts r" and "register_metric k name r = (a, r')"
  shows "get_metric k name r' = Some a \<and> register_metric k name r' = (a, r') \<and>
         (\<forall>k'. k' = k \<or> get_metric k' name r' = None) \<and>
         (\<forall>k' n. n = name \<or> get_metric k' n r' = get_metric k' n r)"
proof (cases "get_metric k name r")
  case None
  let ?n = "length (heap r)"
  have ran: "b < ?n" if "m_metrics r n = Some b" for n b
    using that registry_inv_reachable [OF assms(1)] by (auto simp: registry_inv_def ran_def)
  have r': "a = ?n" "heap r' = heap r @ [make_metric k]" "m_metrics r' = (m_metrics r)(name \<mapsto> ?n)"
    using None assms(2) by (auto simp: register_metric_def Let_def)
  then have found: "get_metric k name r' = Some a"
    by (simp add: get_metric_def)
  moreover have "\<forall>k'. k' = k \<or> get_metric k' name r' = None"
    using r' by (auto simp: get_metric_def)
  moreover have "get_metric k' n r' = get_metric k' n r" if "n \<noteq> name" for k' n
    using r' ran [of n] that by (cases "m_metrics r n") (simp_all add: get_metric_def nth_append)
  ultimately show ?thesis by (auto simp: register_metric_def)
next
  case (Some b)
  then have "a = b" "r' = r" using assms(2) by (simp_all add: register_metric_def)
  with Some show ?thesis
    by (auto simp: register_metric_def get_metric_def split: option.splits if_splits)
qed

theorem register_then_get_witness:
  "\<exists>r. registry_reachable sample_opts r \<and>
       get_metric Counter_kind ''hits'' (snd (register_metric Counter_kind ''hits'' r)) = Some 0"
proof -
  obtain r0 where r0: "new_registry sample_opts = Inr r0" using new_registry_sample by blast
  from registry_reachable.init [OF r0] have reach: "registry_reachable sample_opts r0" .
  have "heap r0 = []" "m_metrics r0 = Map.empty"
    using r0 by (auto simp: new_registry_def Let_def split: sum.splits if_splits)
  then obtain r1 where r1: "register_metric Counter_kind ''hits'' r0 = (0, r1)"
    by (auto simp: register_metric_def get_metric_def Let_def)
  with register_then_get [OF reach r1] reach have
    "registry_reachable sample_opts r0 \<and>
     get_metric Counter_kind ''hits'' (snd (register_metric Counter_kind ''hits'' r0)) = Some 0" by simp
  then show ?thesis by blast
qed

end
