(* ===== verification/Metric_Lib.thy ===== *)
theory Metric_Lib
  imports Registry
begin

text \<open>
  The Lua library \<open>metric\<close> (\<open>src/lib/builtin/metric.cpp\<close>): the object behind a Lua metric and
  its methods. What Lua's API returns for an argument is the method's argument here: \<open>None\<close>
  for a failed \<open>luaL_check\<close> (which raises an error), or a false \<open>lua_isnumber\<close>.
\<close>

section \<open>The library object\<close>

text \<open>\<open>m_type\<close> is \<open>None\<close> for \<open>type::undef\<close>.\<close>

record metric_obj =
  m_type :: "metric_kind option"
  m_metric :: "nat option"
  m_duration :: "duration option"

definition new_metric_obj :: metric_obj where
  "new_metric_obj = \<lparr>m_type = None, m_metric = None, m_duration = None\<rparr>"

type_synonym lib_state = "registry \<times> metric_obj"

definition bad_argument :: cpp_error where
  "bad_argument = Lua_error ''bad argument''"

definition register_as :: "metric_kind \<Rightarrow> string option \<Rightarrow> lib_state \<Rightarrow> lib_state result" where
  "register_as k arg st =
     (case (arg, st) of
        (None, _) \<Rightarrow> Inl bad_argument
      | (Some name, (r, obj)) \<Rightarrow>
          (case register_metric k name r of
             (a, r') \<Rightarrow> Inr (r', obj\<lparr>m_metric := Some a, m_type := Some k\<rparr>)))"

definition get_as :: "metric_kind \<Rightarrow> string option \<Rightarrow> lib_state \<Rightarrow> lib_state result" where
  "get_as k arg st =
     (case (arg, st) of
        (None, _) \<Rightarrow> Inl bad_argument
      | (Some name, (r, obj)) \<Rightarrow>
          Inr (r, obj\<lparr>m_metric := get_metric k name r, m_type := Some k\<rparr>))"

definition no_metric :: cpp_error where
  "no_metric = Lua_error ''no metric assigned''"

definition update :: "real option \<Rightarrow> lib_state \<Rightarrow> lib_state result" where
  "update arg st =
     (case (arg, st) of
        (None, _) \<Rightarrow> Inl bad_argument
      | (Some val, (r, obj)) \<Rightarrow>
          (case m_metric obj of
             None \<Rightarrow> Inl no_metric
           | Some a \<Rightarrow>
               if m_type obj \<noteq> Some Timer_kind
               then Inl (Lua_error ''invalid metric type, update works only for timer metrics'')
               else (case heap r ! a of
                 Timer_metric t \<Rightarrow>
                   Inr (r\<lparr>heap := (heap r)[a := Timer_metric (timer_update val t)]\<rparr>, obj)
               | _ \<Rightarrow> Inl Null_dereference)))"

text \<open>Running an operation of a duration on the timers of the heap.\<close>

definition timer_at :: "metric list \<Rightarrow> nat \<Rightarrow> timer" where
  "timer_at h a = (case h ! a of Timer_metric t \<Rightarrow> t | _ \<Rightarrow> new_timer 10 1000000)"

definition put_timers :: "nat list \<Rightarrow> (nat \<Rightarrow> timer) \<Rightarrow> metric list \<Rightarrow> metric list" where
  "put_timers as store h = fold (\<lambda>a h. h[a := Timer_metric (store a)]) as h"

definition on_duration :: "(duration \<Rightarrow> (nat \<Rightarrow> timer) \<Rightarrow> duration \<times> (nat \<Rightarrow> timer)) \<Rightarrow>
    duration \<Rightarrow> registry \<Rightarrow> duration \<times> registry" where
  "on_duration f d r =
     (case f d (timer_at (heap r)) of
        (d', store) \<Rightarrow> (d', r\<lparr>heap := put_timers (m_timers d) store (heap r)\<rparr>))"

text \<open>
  \<open>start_duration\<close>: the new duration starts at \<open>now\<close>; assigning it destroys the previous one,
  whose destructor reads the clock again.
\<close>

definition start_duration :: "int \<Rightarrow> int \<Rightarrow> lib_state \<Rightarrow> lib_state result" where
  "start_duration now now2 st =
     (case st of (r, obj) \<Rightarrow>
        (case m_metric obj of
           None \<Rightarrow> Inl no_metric
         | Some a \<Rightarrow>
             if m_type obj \<noteq> Some Timer_kind
             then Inl (Lua_error ''invalid metric type, start_duration works only for timer metrics'')
             else (case heap r ! a of
               Timer_metric t \<Rightarrow>
                 (let r' = (case m_duration obj of
                              None \<Rightarrow> r
                            | Some d \<Rightarrow> snd (on_duration (duration_update now2) d r)) in
                  Inr (r', obj\<lparr>m_duration := Some (new_duration [a] now)\<rparr>))
             | _ \<Rightarrow> Inl Null_dereference)))"

definition no_duration :: cpp_error where
  "no_duration = Lua_error ''no duration, you have to call start_duration''"

definition update_duration :: "int \<Rightarrow> lib_state \<Rightarrow> lib_state result" where
  "update_duration now st =
     (case st of (r, obj) \<Rightarrow>
        (case m_duration obj of
           None \<Rightarrow> Inl no_duration
         | Some d \<Rightarrow>
             (case on_duration (duration_update now) d r of
                (d', r') \<Rightarrow> Inr (r', obj\<lparr>m_duration := Some d'\<rparr>))))"

definition finish_duration :: "int \<Rightarrow> lib_state \<Rightarrow> lib_state result" where
  "finish_duration now st =
     (case st of (r, obj) \<Rightarrow>
        (case m_duration obj of
           None \<Rightarrow> Inl no_duration
         | Some d \<Rightarrow>
             (case on_duration (duration_finish now) d r of
                (d', r') \<Rightarrow> Inr (r', obj\<lparr>m_duration := Some d'\<rparr>))))"

text \<open>
  \<open>int val = lua_tointeger(L, 1)\<close> keeps the low 32 bits, and passing the \<open>int\<close> on to
  \<open>std::uint_fast64_t\<close> extends its sign.
\<close>

definition int_arg :: "int option \<Rightarrow> int" where
  "int_arg arg = (case arg of None \<Rightarrow> 1 | Some i \<Rightarrow> sint (word_of_int i :: 32 word))"

definition increment_metric :: "int option \<Rightarrow> lib_state \<Rightarrow> lib_state result" where
  "increment_metric arg st =
     (case st of (r, obj) \<Rightarrow>
        (let val = int_arg arg in
         case m_metric obj of
           None \<Rightarrow> Inl no_metric
         | Some a \<Rightarrow>
             (case m_type obj of
                Some Counter_kind \<Rightarrow>
                  (case heap r ! a of
                     Counter_metric c \<Rightarrow>
                       Inr (r\<lparr>heap := (heap r)[a := Counter_metric (snd (increment (word_of_int val) c))]\<rparr>, obj)
                   | _ \<Rightarrow> Inl Null_dereference)
              | Some Meter_kind \<Rightarrow>
                  (case heap r ! a of
                     Meter_metric m \<Rightarrow>
                       Inr (r\<lparr>heap := (heap r)[a := Meter_metric (snd (meter_increment (word_of_int val) m))]\<rparr>, obj)
                   | _ \<Rightarrow> Inl Null_dereference)
              | _ \<Rightarrow> Inl (Lua_error ''invalid metric type, increment works only for counter and meter metrics''))))"

definition decrement_metric :: "int option \<Rightarrow> lib_state \<Rightarrow> lib_state result" where
  "decrement_metric arg st =
     (case st of (r, obj) \<Rightarrow>
        (let val = int_arg arg in
         case m_metric obj of
           None \<Rightarrow> Inl no_metric
         | Some a \<Rightarrow>
             if m_type obj \<noteq> Some Counter_kind
             then Inl (Lua_error ''invalid metric type, decrement works only for counters'')
             else (case heap r ! a of
               Counter_metric c \<Rightarrow>
                 Inr (r\<lparr>heap := (heap r)[a := Counter_metric (snd (decrement (word_of_int val) c))]\<rparr>, obj)
             | _ \<Rightarrow> Inl Null_dereference)))"

text \<open>\<open>lua_pushinteger\<close> takes the 64 bits as a signed integer.\<close>

definition total_metric :: "lib_state \<Rightarrow> int result" where
  "total_metric st =
     (case st of (r, obj) \<Rightarrow>
        (case m_metric obj of
           None \<Rightarrow> Inl no_metric
         | Some a \<Rightarrow>
             (case m_type obj of
                Some Counter_kind \<Rightarrow>
                  (case heap r ! a of
                     Counter_metric c \<Rightarrow> Inr (sint (get c)) | _ \<Rightarrow> Inl Null_dereference)
              | Some Meter_kind \<Rightarrow>
                  (case heap r ! a of
                     Meter_metric m \<Rightarrow> Inr (sint (total m)) | _ \<Rightarrow> Inl Null_dereference)
              | _ \<Rightarrow> Inl (Lua_error ''invalid metric type, total works only for counter and meter metrics''))))"

definition reset_metric :: "lib_state \<Rightarrow> lib_state result" where
  "reset_metric st =
     (case st of (r, obj) \<Rightarrow>
        (case m_metric obj of
           None \<Rightarrow> Inl no_metric
         | Some a \<Rightarrow>
             if m_type obj \<noteq> Some Counter_kind
             then Inl (Lua_error ''invalid metric type, reset works only for counters'')
             else (case heap r ! a of
               Counter_metric c \<Rightarrow>
                 Inr (r\<lparr>heap := (heap r)[a := Counter_metric (snd (get_and_reset c))]\<rparr>, obj)
             | _ \<Rightarrow> Inl Null_dereference)))"

section \<open>Calls of the library\<close>

datatype metric_call =
    Register metric_kind "string option"
  | Load metric_kind "string option"
  | Update "real option"
  | Start_duration int int
  | Update_duration int
  | Finish_duration int
  | Increment "int option"
  | Decrement "int option"
  | Total
  | Reset

fun metric_do :: "metric_call \<Rightarrow> lib_state \<Rightarrow> lib_state result" where
  "metric_do (Register k arg) st = register_as k arg st"
| "metric_do (Load k arg) st = get_as k arg st"
| "metric_do (Update arg) st = update arg st"
| "metric_do (Start_duration now now2) st = start_duration now now2 st"
| "metric_do (Update_duration now) st = update_duration now st"
| "metric_do (Finish_duration now) st = finish_duration now st"
| "metric_do (Increment arg) st = increment_metric arg st"
| "metric_do (Decrement arg) st = decrement_metric arg st"
| "metric_do Total st = (case total_metric st of Inl e \<Rightarrow> Inl e | Inr i \<Rightarrow> Inr st)"
| "metric_do Reset st = reset_metric st"

text \<open>
  A library object in use: calls that return, calls that raise a Lua error (which leave the
  state), and the steps of the registry and of other objects in between.
\<close>

inductive lib_reachable :: "variables_map \<Rightarrow> lib_state \<Rightarrow> bool" for opts where
  create: "registry_reachable opts r \<Longrightarrow> lib_reachable opts (r, new_metric_obj)"
| call: "lib_reachable opts st \<Longrightarrow> metric_do c st = Inr st' \<Longrightarrow> lib_reachable opts st'"
| other: "lib_reachable opts (r, obj) \<Longrightarrow> registry_step r r' \<Longrightarrow> lib_reachable opts (r', obj)"

text \<open>The type tag tells the class of the object pointed to, and durations point to timers.\<close>

definition points_to :: "metric_kind \<Rightarrow> registry \<Rightarrow> nat \<Rightarrow> bool" where
  "points_to k r a \<longleftrightarrow> a < length (heap r) \<and> kind_of (heap r ! a) = k"

definition lib_inv :: "lib_state \<Rightarrow> bool" where
  "lib_inv st \<longleftrightarrow>
     (case st of (r, obj) \<Rightarrow>
        registry_inv r \<and>
        (case m_metric obj of None \<Rightarrow> True
         | Some a \<Rightarrow> (case m_type obj of None \<Rightarrow> False | Some k \<Rightarrow> points_to k r a)) \<and>
        (case m_duration obj of None \<Rightarrow> True
         | Some d \<Rightarrow> list_all (points_to Timer_kind r) (m_timers d)))"

text \<open>Objects neither move nor change their class.\<close>

definition grows :: "registry \<Rightarrow> registry \<Rightarrow> bool" where
  "grows r r' \<longleftrightarrow> (\<forall>k a. points_to k r a \<longrightarrow> points_to k r' a)"

lemma grows_refl [simp]: "grows r r"
  by (simp add: grows_def)

lemma grows_update:
  "kind_of m = kind_of (heap r ! a) \<Longrightarrow> grows r (r\<lparr>heap := (heap r)[a := m]\<rparr>)"
  by (cases "a < length (heap r)") (auto simp: grows_def points_to_def nth_list_update)

lemma grows_register: "register_metric k name r = (a, r') \<Longrightarrow> grows r r'"
  by (auto simp: register_metric_def Let_def grows_def points_to_def nth_append split: option.splits)

lemma grows_step: "registry_step r r' \<Longrightarrow> registry_inv r \<Longrightarrow> grows r r'"
proof (induction rule: registry_step.induct)
  case (register r k name)
  then show ?case by (metis prod.collapse grows_register)
next
  case (use a r m)
  then show ?case by (simp add: grows_update)
next
  case (check r)
  then show ?case by (simp add: check_new_metrics_def start_fibers_eq grows_def points_to_def)
next
  case (round r a r')
  from aggregate_round_ok [OF round.prems aggregating_less [OF round.prems round.hyps(2)]]
    round.hyps(3) show ?case by (auto intro: grows_update)
next
  case (stop r)
  then show ?case by (simp add: registry_stop_def grows_def points_to_def)
qed

lemma lib_inv_grows:
  assumes "lib_inv (r, obj)" "grows r r'" "registry_inv r'"
  shows "lib_inv (r', obj)"
  using assms by (auto simp: lib_inv_def grows_def list_all_iff split: option.splits)

section \<open>What a call does\<close>

lemma put_timers_frame:
  "a < length h \<Longrightarrow> a \<notin> set as \<Longrightarrow> put_timers as store h ! a = h ! a"
  by (induction as arbitrary: h) (auto simp: put_timers_def)

lemma length_put_timers [simp]: "length (put_timers as store h) = length h"
  by (induction as arbitrary: h) (simp_all add: put_timers_def)

lemma put_timers_at:
  "a < length h \<Longrightarrow> a \<in> set as \<Longrightarrow> put_timers as store h ! a = Timer_metric (store a)"
proof (induction as arbitrary: h)
  case (Cons b as)
  then show ?case
    using put_timers_frame [of a "h[b := Timer_metric (store b)]" as store]
    by (cases "a \<in> set as") (auto simp: put_timers_def)
qed simp

lemma timer_at_ok:
  "registry_inv r \<Longrightarrow> points_to Timer_kind r a \<Longrightarrow> timer_ok (timer_at (heap r) a)"
  by (cases "heap r ! a") (auto simp: timer_at_def points_to_def registry_inv_def list_all_length)

lemma duration_update_ok:
  "(\<And>a. a \<in> set (m_timers d) \<Longrightarrow> timer_ok (store a)) \<Longrightarrow> a \<in> set (m_timers d) \<Longrightarrow>
   timer_ok (snd (duration_update now d store) a)"
proof -
  have "timer_ok (store a) \<Longrightarrow> timer_ok (fold (\<lambda>t store. store(t := timer_update x (store t))) as store a)"
    for x as and store :: "nat \<Rightarrow> timer"
  proof (induction as arbitrary: store)
    case (Cons b as)
    then show ?case by (cases "a = b") (simp_all add: timer_ok_update)
  qed simp
  then show "(\<And>a. a \<in> set (m_timers d) \<Longrightarrow> timer_ok (store a)) \<Longrightarrow> a \<in> set (m_timers d) \<Longrightarrow>
      timer_ok (snd (duration_update now d store) a)"
    by (simp add: duration_update_def)
qed

lemma put_timers_ok:
  assumes "registry_inv r" "list_all (points_to Timer_kind r) as" "\<And>a. a \<in> set as \<Longrightarrow> timer_ok (store a)"
  shows "registry_inv (r\<lparr>heap := put_timers as store (heap r)\<rparr>)"
    and "grows r (r\<lparr>heap := put_timers as store (heap r)\<rparr>)"
proof -
  have "metric_ok (put_timers as store (heap r) ! a)" if "a < length (heap r)" for a
    using that assms put_timers_frame [of a "heap r" as store] put_timers_at [of a "heap r" as store]
    by (cases "a \<in> set as") (simp_all add: registry_inv_def list_all_length)
  with assms(1) show "registry_inv (r\<lparr>heap := put_timers as store (heap r)\<rparr>)"
    by (simp add: registry_inv_def list_all_length)
  have "points_to k (r\<lparr>heap := put_timers as store (heap r)\<rparr>) a" if "points_to k r a" for k a
    using that assms(2) put_timers_frame [of a "heap r" as store] put_timers_at [of a "heap r" as store]
    by (cases "a \<in> set as") (auto simp: points_to_def list_all_iff)
  then show "grows r (r\<lparr>heap := put_timers as store (heap r)\<rparr>)" by (simp add: grows_def)
qed

lemma on_duration_update:
  assumes "registry_inv r" "list_all (points_to Timer_kind r) (m_timers d)"
  shows "\<exists>d' r'. on_duration (duration_update now) d r = (d', r') \<and> registry_inv r' \<and> grows r r' \<and>
           m_timers d' = m_timers d"
proof -
  obtain d' store where u: "duration_update now d (timer_at (heap r)) = (d', store)" by force
  then have d': "m_timers d' = m_timers d" by (auto simp: duration_update_def split: if_splits)
  have "timer_ok (store a)" if "a \<in> set (m_timers d)" for a
    using duration_update_ok [of d "timer_at (heap r)" a now] timer_at_ok [OF assms(1)] assms(2) that u
    by (simp add: list_all_iff)
  from put_timers_ok [OF assms this] u d' show ?thesis by (simp add: on_duration_def)
qed

lemma on_duration_finish:
  "on_duration (duration_finish now) d r =
     (case on_duration (duration_update now) d r of (d', r') \<Rightarrow> (d'\<lparr>m_finished := True\<rparr>, r'))"
  by (simp add: on_duration_def duration_finish_def split: prod.splits)

text \<open>Writing back an object of the same class.\<close>

lemma lib_inv_update:
  assumes "lib_inv (r, obj)" "points_to (kind_of m) r a" "metric_ok m"
  shows "lib_inv (r\<lparr>heap := (heap r)[a := m]\<rparr>, obj)"
proof -
  have "registry_inv r" using assms(1) by (simp add: lib_inv_def)
  then have "registry_inv (r\<lparr>heap := (heap r)[a := m]\<rparr>)" using assms(3) by (rule registry_inv_update)
  moreover have "grows r (r\<lparr>heap := (heap r)[a := m]\<rparr>)"
    using assms(2) by (intro grows_update) (simp add: points_to_def)
  ultimately show ?thesis using assms(1) lib_inv_grows by blast
qed

text \<open>A call returns with the invariant, or raises a Lua error; it never follows a null pointer.\<close>

definition call_ok :: "lib_state result \<Rightarrow> bool" where
  "call_ok res = (case res of Inl e \<Rightarrow> (case e of Lua_error s \<Rightarrow> True | _ \<Rightarrow> False) | Inr st \<Rightarrow> lib_inv st)"

lemma call_ok_register:
  assumes "lib_inv st"
  shows "call_ok (register_as k arg st)"
proof (cases arg)
  case None
  then show ?thesis by (simp add: register_as_def bad_argument_def call_ok_def)
next
  case (Some name)
  obtain r obj where st: "st = (r, obj)" by (cases st)
  obtain a r' where reg: "register_metric k name r = (a, r')" by force
  have inv: "registry_inv r" using assms st by (simp add: lib_inv_def)
  then have inv': "registry_inv r'" using reg by (rule registry_inv_register)
  have "get_metric k name r' = Some a"
    using reg by (auto simp: register_metric_def get_metric_def Let_def split: option.splits if_splits)
  from get_metric_Some [OF inv' this] have "points_to k r' a" by (simp add: points_to_def)
  with lib_inv_grows [OF assms [unfolded st] grows_register [OF reg] inv']
  show ?thesis by (simp add: call_ok_def register_as_def Some st reg lib_inv_def)
qed

lemma call_ok_get:
  assumes "lib_inv st"
  shows "call_ok (get_as k arg st)"
proof (cases arg)
  case None
  then show ?thesis by (simp add: get_as_def bad_argument_def call_ok_def)
next
  case (Some name)
  obtain r obj where st: "st = (r, obj)" by (cases st)
  then have "registry_inv r" using assms by (simp add: lib_inv_def)
  from get_metric_Some [OF this, of k name] have "points_to k r a" if "get_metric k name r = Some a" for a
    using that by (simp add: points_to_def)
  with assms show ?thesis
    by (cases "get_metric k name r") (simp_all add: call_ok_def get_as_def Some st lib_inv_def)
qed

text \<open>The object a call uses: its class is what the type tag says.\<close>

lemma lib_inv_metric:
  assumes "lib_inv (r, obj)" "m_metric obj = Some a"
  obtains k where "m_type obj = Some k" "points_to k r a" "metric_ok (heap r ! a)"
proof -
  from assms obtain k where k: "m_type obj = Some k" "points_to k r a"
    by (auto simp: lib_inv_def split: option.splits)
  with assms(1) have "metric_ok (heap r ! a)"
    by (simp add: lib_inv_def registry_inv_def points_to_def list_all_length)
  with k show ?thesis by (rule that)
qed

lemmas lib_defs = update_def increment_metric_def decrement_metric_def reset_metric_def
  total_metric_def no_metric_def bad_argument_def call_ok_def Let_def

lemma points_to_cases:
  "points_to Counter_kind r a \<Longrightarrow> \<exists>c. heap r ! a = Counter_metric c"
  "points_to Meter_kind r a \<Longrightarrow> \<exists>m. heap r ! a = Meter_metric m"
  "points_to Timer_kind r a \<Longrightarrow> \<exists>t. heap r ! a = Timer_metric t"
  by (cases "heap r ! a"; simp add: points_to_def)+

lemma call_ok_counter:
  assumes "lib_inv st"
  shows "call_ok (decrement_metric i st)" and "call_ok (reset_metric st)"
    and "call_ok (increment_metric i st)" and "call_ok (update x st)"
    and "call_ok (case total_metric st of Inl e \<Rightarrow> Inl e | Inr i \<Rightarrow> Inr st)"
proof -
  obtain r obj where st: "st = (r, obj)" by (cases st)
  note inv = assms [unfolded st]
  have "call_ok (decrement_metric i st) \<and> call_ok (reset_metric st) \<and>
    call_ok (increment_metric i st) \<and> call_ok (update x st) \<and>
    call_ok (case total_metric st of Inl e \<Rightarrow> Inl e | Inr i \<Rightarrow> Inr st)"
  proof (cases "m_metric obj")
    case None
    then show ?thesis by (simp add: st lib_defs split: option.split)
  next
    case (Some a)
    obtain k where k: "m_type obj = Some k" "points_to k r a" "metric_ok (heap r ! a)"
      by (rule lib_inv_metric [OF inv Some])
    note upd = lib_inv_update [OF inv, of _ a]
    show ?thesis
    proof (cases k)
      case Counter_kind
      with k points_to_cases(1) obtain c where "heap r ! a = Counter_metric c" by blast
      with k Some Counter_kind upd [of "Counter_metric c" for c] inv show ?thesis
        by (simp add: st lib_defs split: option.split)
    next
      case Meter_kind
      with k points_to_cases(2) obtain m where "heap r ! a = Meter_metric m" by blast
      with k Some Meter_kind upd [of "Meter_metric m" for m] inv show ?thesis
        by (simp add: st lib_defs split: option.split)
    next
      case Timer_kind
      with k points_to_cases(3) obtain t where "heap r ! a = Timer_metric t" by blast
      with k Some Timer_kind upd [of "Timer_metric (timer_update y t)" for y] inv show ?thesis
        by (simp add: st lib_defs timer_ok_update split: option.split)
    qed
  qed
  then show "call_ok (decrement_metric i st)" and "call_ok (reset_metric st)"
    and "call_ok (increment_metric i st)" and "call_ok (update x st)"
    and "call_ok (case total_metric st of Inl e \<Rightarrow> Inl e | Inr i \<Rightarrow> Inr st)" by blast+
qed

lemma lib_inv_duration:
  "lib_inv (r, obj) \<Longrightarrow> m_duration obj = Some d \<Longrightarrow>
   registry_inv r \<and> list_all (points_to Timer_kind r) (m_timers d)"
  by (simp add: lib_inv_def)

lemma lib_inv_set_duration:
  "lib_inv (r, obj) \<Longrightarrow> list_all (points_to Timer_kind r) (m_timers d) \<Longrightarrow>
   lib_inv (r, obj\<lparr>m_duration := Some d\<rparr>)"
  by (auto simp: lib_inv_def split: option.splits)

lemma call_ok_durations:
  assumes "lib_inv st"
  shows "call_ok (update_duration now st)" and "call_ok (finish_duration now st)"
proof -
  obtain r obj where st: "st = (r, obj)" by (cases st)
  note inv = assms [unfolded st]
  have "call_ok (update_duration now st) \<and> call_ok (finish_duration now st)"
  proof (cases "m_duration obj")
    case None
    then show ?thesis
      by (simp add: st update_duration_def finish_duration_def no_duration_def call_ok_def)
  next
    case (Some d)
    note d = lib_inv_duration [OF inv Some]
    with on_duration_update [of r d now] obtain d' r' where
      u: "on_duration (duration_update now) d r = (d', r')" "registry_inv r'" "grows r r'"
      "m_timers d' = m_timers d" by blast
    have "list_all (points_to Timer_kind r') (m_timers d')"
      using d u(3,4) by (simp add: list_all_iff grows_def)
    then have "lib_inv (r', obj\<lparr>m_duration := Some d'\<rparr>)"
      "lib_inv (r', obj\<lparr>m_duration := Some (d'\<lparr>m_finished := True\<rparr>)\<rparr>)"
      using lib_inv_grows [OF inv u(3,2)] by (simp_all add: lib_inv_set_duration)
    then show ?thesis
      by (simp add: st Some update_duration_def finish_duration_def on_duration_finish u(1) call_ok_def)
  qed
  then show "call_ok (update_duration now st)" and "call_ok (finish_duration now st)" by blast+
qed

lemma call_ok_start:
  assumes "lib_inv st"
  shows "call_ok (start_duration now now2 st)"
proof -
  obtain r obj where st: "st = (r, obj)" by (cases st)
  note inv = assms [unfolded st]
  show ?thesis
  proof (cases "m_metric obj")
    case None
    then show ?thesis by (simp add: st start_duration_def no_metric_def call_ok_def)
  next
    case (Some a)
    obtain k where k: "m_type obj = Some k" "points_to k r a"
      by (rule lib_inv_metric [OF inv Some])
    show ?thesis
    proof (cases "k = Timer_kind")
      case False
      with k Some show ?thesis by (simp add: st start_duration_def call_ok_def)
    next
      case True
      with k(2) points_to_cases(3) obtain t where t: "heap r ! a = Timer_metric t" by blast
      let ?r' = "case m_duration obj of None \<Rightarrow> r | Some d \<Rightarrow> snd (on_duration (duration_update now2) d r)"
      have "registry_inv ?r' \<and> grows r ?r'"
      proof (cases "m_duration obj")
        case None
        then show ?thesis using inv by (simp add: lib_inv_def)
      next
        case (Some d)
        with on_duration_update [of r d now2] lib_inv_duration [OF inv Some] show ?thesis by auto
      qed
      moreover from this k(2) True have "points_to Timer_kind ?r' a" by (simp add: grows_def)
      ultimately have "lib_inv (?r', obj\<lparr>m_duration := Some (new_duration [a] now)\<rparr>)"
        using lib_inv_grows [OF inv, of ?r']
        by (intro lib_inv_set_duration) (simp_all add: new_duration_def)
      with k(1) True Some t show ?thesis by (simp add: st start_duration_def call_ok_def Let_def)
    qed
  qed
qed

lemma call_ok_any: "lib_inv st \<Longrightarrow> call_ok (metric_do c st)"
  by (cases c) (simp_all add: call_ok_register call_ok_get call_ok_counter call_ok_durations call_ok_start)

lemma lib_inv_reachable: "lib_reachable opts st \<Longrightarrow> lib_inv st"
proof (induction rule: lib_reachable.induct)
  case (create r)
  then show ?case
    using registry_inv_reachable by (auto simp: lib_inv_def new_metric_obj_def)
next
  case (call st c st')
  with call_ok_any [of st c] show ?case by (simp add: call_ok_def)
next
  case (other r obj r')
  then have "registry_inv r" by (simp add: lib_inv_def)
  with other show ?case using grows_step registry_inv_step lib_inv_grows by blast
qed

text \<open>
  C39. A Lua script cannot crash the server through a metric: in every state a metric object can
  reach, whatever other threads do to the registry, each of its methods with any argument either
  returns or raises a Lua error; the unchecked \<open>dynamic_pointer_cast\<close> never yields a null pointer.
\<close>
theorem metric_calls_safe:
  assumes "lib_reachable opts st"
  shows "case metric_do c st of Inr st' \<Rightarrow> lib_reachable opts st' | Inl e \<Rightarrow> (\<exists>msg. e = Lua_error msg)"
proof (cases "metric_do c st")
  case (Inl e)
  with call_ok_any [OF lib_inv_reachable [OF assms], of c] show ?thesis
    by (auto simp: call_ok_def split: cpp_error.splits)
next
  case (Inr st')
  with assms show ?thesis by (auto intro: lib_reachable.call)
qed

text \<open>A metric object after its first registration.\<close>

lemma lib_reachable_register:
  assumes "registry_reachable opts r"
  shows "\<exists>r' a. lib_reachable opts (r', \<lparr>m_type = Some k, m_metric = Some a, m_duration = None\<rparr>) \<and>
           register_metric k name r = (a, r')"
proof -
  obtain a r' where reg: "register_metric k name r = (a, r')" by force
  then have "metric_do (Register k (Some name)) (r, new_metric_obj) =
      Inr (r', \<lparr>m_type = Some k, m_metric = Some a, m_duration = None\<rparr>)"
    by (simp add: register_as_def new_metric_obj_def)
  from lib_reachable.call [OF lib_reachable.create [OF assms] this] reg show ?thesis by blast
qed

theorem metric_calls_safe_witness:
  "\<exists>st. lib_reachable sample_opts st \<and>
     (case metric_do (Update (Some 5)) st of Inr st' \<Rightarrow> False | Inl e \<Rightarrow> (\<exists>msg. e = Lua_error msg))"
proof -
  obtain r where "new_registry sample_opts = Inr r" using new_registry_sample by blast
  from lib_reachable_register [OF registry_reachable.init [OF this], of Counter_kind "''hits''"]
  obtain r' a where reach: "lib_reachable sample_opts
      (r', \<lparr>m_type = Some Counter_kind, m_metric = Some a, m_duration = None\<rparr>)" by blast
  have "metric_do (Update (Some 5)) (r', \<lparr>m_type = Some Counter_kind, m_metric = Some a, m_duration = None\<rparr>) =
      Inl (Lua_error ''invalid metric type, update works only for timer metrics'')"
    by (simp add: update_def)
  with metric_calls_safe [OF reach, of "Update (Some 5)"] reach show ?thesis by force
qed

section \<open>Integers from Lua\<close>

lemma int_arg_id:
  assumes "- (2 ^ 31) \<le> i" "i < 2 ^ 31"
  shows "int_arg (Some i) = i"
  using assms sint32_id by (simp add: int_arg_def)

text \<open>
  An increment from Lua within the range of \<open>int\<close> changes the counter by that number modulo
  2^64, so that a negative increment is a decrement; a decrement of the same number undoes it.
\<close>
theorem increment_then_decrement:
  assumes "lib_reachable opts (r, obj)" "m_metric obj = Some a" "m_type obj = Some Counter_kind"
    and "- (2 ^ 31) \<le> i" "i < 2 ^ 31"
  shows "\<exists>c r'. heap r ! a = Counter_metric c \<and>
           metric_do (Increment (Some i)) (r, obj) = Inr (r', obj) \<and>
           heap r' ! a = Counter_metric (c\<lparr>m_val := m_val c + word_of_int i\<rparr>) \<and>
           metric_do (Decrement (Some i)) (r', obj) = Inr (r, obj)"
proof -
  have "points_to Counter_kind r a"
    using lib_inv_reachable [OF assms(1)] assms(2,3) by (simp add: lib_inv_def)
  then obtain c where c: "heap r ! a = Counter_metric c" "a < length (heap r)"
    using points_to_cases(1) by (auto simp: points_to_def)
  let ?r' = "r\<lparr>heap := (heap r)[a := Counter_metric (c\<lparr>m_val := m_val c + word_of_int i\<rparr>)]\<rparr>"
  have "metric_do (Increment (Some i)) (r, obj) = Inr (?r', obj)"
    using c assms(2-5) by (simp add: increment_metric_def int_arg_id Let_def increment_def)
  moreover have "(heap r)[a := Counter_metric c] = heap r" using c by (metis list_update_id)
  then have "metric_do (Decrement (Some i)) (?r', obj) = Inr (r, obj)"
    using c assms(2-5) by (simp add: decrement_metric_def int_arg_id Let_def decrement_def)
  ultimately show ?thesis using c by (intro exI [of _ c] exI [of _ ?r']) simp
qed

theorem increment_then_decrement_witness:
  "\<exists>r obj c r'. lib_reachable sample_opts (r, obj) \<and> m_val c = - 1 \<and>
     metric_do (Increment (Some (- 1))) (r, obj) = Inr (r', obj) \<and> heap r' ! 0 = Counter_metric c"
proof -
  obtain r where r: "new_registry sample_opts = Inr r" using new_registry_sample by blast
  then have "heap r = []" "m_metrics r = Map.empty"
    by (auto simp: new_registry_def Let_def split: sum.splits if_splits)
  then have reg: "fst (register_metric Counter_kind ''hits'' r) = 0"
    "heap (snd (register_metric Counter_kind ''hits'' r)) = [Counter_metric new_counter]"
    by (simp_all add: register_metric_def get_metric_def Let_def)
  let ?obj = "\<lparr>m_type = Some Counter_kind, m_metric = Some 0, m_duration = None\<rparr>"
  obtain r1 where reach: "lib_reachable sample_opts (r1, ?obj)" "heap r1 = [Counter_metric new_counter]"
    using lib_reachable_register [OF registry_reachable.init [OF r], of Counter_kind "''hits''"] reg
    by auto
  from increment_then_decrement [OF reach(1), of 0 "-1"] obtain c r2 where c:
    "heap r1 ! 0 = Counter_metric c" "metric_do (Increment (Some (- 1))) (r1, ?obj) = Inr (r2, ?obj)"
    "heap r2 ! 0 = Counter_metric (c\<lparr>m_val := m_val c + word_of_int (- 1)\<rparr>)"
    by (simp del: metric_do.simps) blast
  have "m_val c = 0" using c(1) reach(2) by (auto simp: new_counter_def)
  then have "m_val (c\<lparr>m_val := m_val c + word_of_int (- 1)\<rparr>) = - 1" by simp
  with c(2,3) reach(1) show ?thesis by blast
qed

section \<open>Finished durations\<close>

lemma put_timers_same:
  "list_all (points_to Timer_kind r) as \<Longrightarrow> put_timers as (timer_at (heap r)) (heap r) = heap r"
proof (induction as)
  case (Cons a as)
  then obtain t where "heap r ! a = Timer_metric t" using points_to_cases(3) by auto
  then have "(heap r)[a := Timer_metric (timer_at (heap r) a)] = heap r"
    by (metis list_update_id metric.simps(12) timer_at_def)
  with Cons show ?case by (simp add: put_timers_def)
qed (simp add: put_timers_def)

text \<open>
  A duration is not removed when it is finished: a later \<open>update_duration\<close> or
  \<open>finish_duration\<close> neither measures anything nor raises the error of a missing duration.
\<close>
theorem finished_duration_stays:
  assumes "lib_reachable opts st" "finish_duration now st = Inr st'"
  shows "update_duration later st' = Inr st' \<and> finish_duration later st' = Inr st'"
proof -
  obtain r obj where st: "st = (r, obj)" by (cases st)
  with assms(2) obtain d where d: "m_duration obj = Some d"
    by (auto simp: finish_duration_def split: option.splits)
  obtain d1 r1 where u: "on_duration (duration_update now) d r = (d1, r1)" by force
  let ?d = "d1\<lparr>m_finished := True\<rparr>"
  have st': "st' = (r1, obj\<lparr>m_duration := Some ?d\<rparr>)"
    using assms(2) by (simp add: st d finish_duration_def on_duration_finish u)
  have "metric_do (Finish_duration now) st = Inr st'" using assms(2) by simp
  with assms(1) have "lib_inv st'" by (blast intro: lib_inv_reachable lib_reachable.call)
  then have "list_all (points_to Timer_kind r1) (m_timers d1)"
    unfolding st' using lib_inv_duration [of r1 _ ?d] by simp
  then have "on_duration (duration_update later) ?d r1 = (?d, r1)"
    by (simp add: on_duration_def duration_update_def put_timers_same)
  then show ?thesis
    by (simp add: st' update_duration_def finish_duration_def on_duration_finish)
qed

theorem finished_duration_stays_witness:
  "\<exists>st st'. lib_reachable sample_opts st \<and> finish_duration 20 st = Inr st' \<and>
     update_duration 30 st' = Inr st'"
proof -
  obtain r where "new_registry sample_opts = Inr r" using new_registry_sample by blast
  from lib_reachable_register [OF registry_reachable.init [OF this], of Timer_kind "''t''"]
  obtain r1 a where reach: "lib_reachable sample_opts
      (r1, \<lparr>m_type = Some Timer_kind, m_metric = Some a, m_duration = None\<rparr>)" by blast
  from lib_inv_reachable [OF this] have "points_to Timer_kind r1 a" by (simp add: lib_inv_def)
  with points_to_cases(3) obtain t where "heap r1 ! a = Timer_metric t" by blast
  then have "metric_do (Start_duration 10 10) (r1, \<lparr>m_type = Some Timer_kind, m_metric = Some a, m_duration = None\<rparr>) =
      Inr (r1, \<lparr>m_type = Some Timer_kind, m_metric = Some a, m_duration = Some (new_duration [a] 10)\<rparr>)"
    by (simp add: start_duration_def)
  note reach2 = lib_reachable.call [OF reach this]
  obtain st' where st': "finish_duration 20 (r1, \<lparr>m_type = Some Timer_kind, m_metric = Some a,
      m_duration = Some (new_duration [a] 10)\<rparr>) = Inr st'"
    by (simp add: finish_duration_def split_beta)
  from finished_duration_stays [OF reach2 st'] reach2 st' show ?thesis by blast
qed

end
