(* ===== verification/Server.thy ===== *)
theory Server
  imports Lua_Engine Session Worker Metric_Lib
begin

text \<open>
  The server (\<open>src/core/server_impl.cpp\<close>): its construction and start, the handlers it installs for
  scripts and for directories of static files, the dispatch of HTTP/2 requests, and the threads
  it registers with its components. A route in the router is the closure installed for it: its
  captured variables as a value of \<open>route\<close>.
\<close>

section \<open>The state\<close>

text \<open>The captured metrics are addresses in the registry: requests, errors, times.\<close>

datatype route =
    Not_found
  | Script_route string nat nat nat
  | Directory_route string string nat nat nat

text \<open>The function run in a fiber for a request to a script, with what it captures.\<close>

datatype job = Job string request "duration option" nat

datatype server_func = No_func | Workers_func | Http2_func

record server =
  sv_num_workers :: int
  sv_workers :: "nat worker list"
  sv_next_worker :: uint64
  sv_states :: state_manager
  sv_stacks :: "nat \<Rightarrow> lua_stack"
  sv_router :: "route router"
  sv_registry :: registry
  sv_files :: file_cache
  sv_fibers :: "nat \<Rightarrow> job fiber_cache"
  sv_http2 :: "nat option"
  sv_num_routes :: nat
  sv_metric_requests :: nat
  sv_metric_errors :: nat
  sv_metric_not_impl :: "nat option"
  sv_metric_times :: nat
  sv_stop_func :: server_func
  sv_join_func :: server_func

text \<open>
  The constructor. Null pointers are \<open>None\<close>: the metric of requests that are not implemented is
  registered, but assigned to the member of the errors.
\<close>

definition num_workers :: "variables_map \<Rightarrow> int \<Rightarrow> int result" where
  "num_workers opts processors =
     bind_result (get_int opts ''server.workers'' 1) (\<lambda>n.
       let n = (if n = 0 then processors else n) in Inr (if n < 1 then 1 else n))"

definition new_server :: "variables_map \<Rightarrow> int \<Rightarrow> state_manager \<Rightarrow> server result" where
  "new_server opts processors mgr =
     bind_result (new_registry opts) (\<lambda>reg.
     bind_result (num_workers opts processors) (\<lambda>n.
       let (requests, reg) = register_metric Meter_kind ''requests'' reg;
           (errors, reg) = register_metric Meter_kind ''errors'' reg;
           (errors, reg) = register_metric Meter_kind ''not_implemented'' reg;
           (tmr, reg) = register_metric Timer_kind ''times'' reg in
       Inr \<lparr>sv_num_workers = n, sv_workers = [], sv_next_worker = 0, sv_states = mgr,
            sv_stacks = (\<lambda>a. []), sv_router = new_router Not_found, sv_registry = reg,
            sv_files = new_file_cache, sv_fibers = (\<lambda>w. new_fiber_cache), sv_http2 = None,
            sv_num_routes = 0, sv_metric_requests = requests, sv_metric_errors = errors,
            sv_metric_not_impl = None, sv_metric_times = tmr, sv_stop_func = No_func,
            sv_join_func = No_func\<rparr>))"

section \<open>Metrics of a request\<close>

text \<open>\<open>metric->increment()\<close> through a shared pointer to a meter.\<close>

definition bump :: "nat option \<Rightarrow> server \<Rightarrow> server result" where
  "bump a sv =
     (case a of
        None \<Rightarrow> Inl Null_dereference
      | Some a \<Rightarrow>
          (case heap (sv_registry sv) ! a of
             Meter_metric m \<Rightarrow>
               Inr (sv\<lparr>sv_registry := (sv_registry sv)
                 \<lparr>heap := (heap (sv_registry sv))[a := Meter_metric (snd (meter_increment 1 m))]\<rparr>\<rparr>)
           | _ \<Rightarrow> Inl Null_dereference))"

text \<open>\<open>int_rand(0, 100) < 10\<close>; the number drawn is an argument.\<close>

definition sampled :: "nat \<Rightarrow> bool" where
  "sampled rnd \<longleftrightarrow> rnd < 10"

definition start_times :: "nat \<Rightarrow> int \<Rightarrow> nat \<Rightarrow> server \<Rightarrow> duration option" where
  "start_times rnd now tmr sv =
     (if sampled rnd then Some (new_duration [sv_metric_times sv, tmr] now) else None)"

text \<open>Destroying the duration updates the timers.\<close>

definition end_times :: "int \<Rightarrow> duration option \<Rightarrow> server \<Rightarrow> server" where
  "end_times now d sv =
     (case d of
        None \<Rightarrow> sv
      | Some d \<Rightarrow> sv\<lparr>sv_registry := snd (on_duration (duration_update now) d (sv_registry sv))\<rparr>)"

text \<open>The errors of the server and of the route, then the error response.\<close>

definition fail_with :: "int \<Rightarrow> nat \<Rightarrow> request \<Rightarrow> server \<Rightarrow> (request \<times> server) result" where
  "fail_with code err r sv =
     bind_result (bump (Some (sv_metric_errors sv)) sv) (\<lambda>sv.
     bind_result (bump (Some err) sv) (\<lambda>sv.
     bind_result (send_error_response code r) (\<lambda>r. Inr (r, sv))))"

section \<open>Requests to scripts\<close>

text \<open>
  What the environment answers while a request is handled: Lua and its scripts, the clocks, the
  number drawn, and an exception of the fiber library when it cannot start a fiber.
\<close>

record handler_env =
  he_lua :: lua_env
  he_scripts :: "nat \<Rightarrow> lua_script"
  he_fuel :: nat
  he_time :: int
  he_start :: int
  he_end :: int
  he_rnd :: nat
  he_fiber_error :: "cpp_error option"

text \<open>The handler \<open>add_route\<close> installs, on the thread of worker \<open>w\<close>: it hands a job to a fiber.\<close>

definition script_handler :: "handler_env \<Rightarrow> nat \<Rightarrow> string \<Rightarrow> nat \<Rightarrow> nat \<Rightarrow> nat \<Rightarrow> request \<Rightarrow> server \<Rightarrow>
    (request \<times> server) result" where
  "script_handler env w fn req err tmr r sv =
     (if m_method r = GET \<or> m_method r = POST then
        bind_result (bump (Some (sv_metric_requests sv)) sv) (\<lambda>sv.
        bind_result (bump (Some req) sv) (\<lambda>sv.
          let d = start_times (he_rnd env) (he_start env) tmr sv in
          case he_fiber_error env of
            None \<Rightarrow> Inr (r, sv\<lparr>sv_fibers := (sv_fibers sv)(w := Fibers.run (Job fn r d err) (sv_fibers sv w))\<rparr>)
          | Some e \<Rightarrow>
              (if is_runtime_error e then
                 bind_result (fail_with 500 err r sv) (\<lambda>(r, sv). Inr (r, end_times (he_end env) d sv))
               else Inl e)))
      else
        bind_result (bump (sv_metric_not_impl sv) sv) (\<lambda>sv.
        bind_result (send_error_response 501 r) (\<lambda>r. Inr (r, sv))))"

text \<open>
  The job: a runtime error of the engine is counted and answered with 500, anything else leaves
  the fiber. The duration ends with the function.
\<close>

fun run_job :: "handler_env \<Rightarrow> nat \<Rightarrow> job \<Rightarrow> server \<Rightarrow> (request \<times> server) result option" where
  "run_job env w (Job fn r d err) sv =
     (case handle_request (he_lua env) (he_scripts env) (he_fuel env) (he_time env) w fn r
             (sv_states sv) (sv_stacks sv) of
        None \<Rightarrow> None
      | Some (Inr _, r, m, stacks) \<Rightarrow>
          Some (Inr (r, end_times (he_end env) d (sv\<lparr>sv_states := m, sv_stacks := stacks\<rparr>)))
      | Some (Inl e, r, m, stacks) \<Rightarrow>
          Some (if is_runtime_error e then
                  bind_result (fail_with 500 err r (sv\<lparr>sv_states := m, sv_stacks := stacks\<rparr>))
                    (\<lambda>(r, sv). Inr (r, end_times (he_end env) d sv))
                else Inl e))"

section \<open>Requests to static files\<close>

definition find_static_file :: "nat \<Rightarrow> string \<Rightarrow> string \<Rightarrow> string \<Rightarrow> file_cache \<Rightarrow>
    (cached_file option \<times> file_cache) result" where
  "find_static_file w dir prefix_path req_path c =
     (if req_path = [] then Inl Bad_access
      else if last req_path = CHR ''/'' then Inr (None, c)
      else if length req_path < length prefix_path then Inl Out_of_range
      else Inr (get_file w (dir @ drop (length prefix_path) req_path) c))"

text \<open>\<open>string_ref(file->data().data(), file->size())\<close>: the size is the file system's, not the vector's.\<close>

definition file_content :: "cached_file \<Rightarrow> string result" where
  "file_content f = (if m_size f \<le> length (File_Cache.m_data f) then Inr (take (m_size f) (File_Cache.m_data f)) else Inl Bad_access)"

text \<open>The handler \<open>add_directory_route\<close> installs.\<close>

definition directory_handler :: "handler_env \<Rightarrow> nat \<Rightarrow> string \<Rightarrow> string \<Rightarrow> nat \<Rightarrow> nat \<Rightarrow> nat \<Rightarrow> request \<Rightarrow> server \<Rightarrow>
    (request \<times> server) result" where
  "directory_handler env w prefix_path dir req err tmr r sv =
     (if m_method r = GET then
        (let d = start_times (he_rnd env) (he_start env) tmr sv in
         bind_result (find_static_file w dir prefix_path (Request.path r) (sv_files sv)) (\<lambda>(f, c).
           let sv = sv\<lparr>sv_files := c\<rparr> in
           case f of
             Some f \<Rightarrow>
               bind_result (file_content f) (\<lambda>cont.
               bind_result (send_response 200 cont r) (\<lambda>r.
               bind_result (bump (Some (sv_metric_requests sv)) sv) (\<lambda>sv.
               bind_result (bump (Some req) sv) (\<lambda>sv. Inr (r, end_times (he_end env) d sv)))))
           | None \<Rightarrow> fail_with 404 err r (end_times (he_end env) d sv)))
      else fail_with 404 err r sv)"

text \<open>Calling the function found by the router; the default one answers 404.\<close>

definition call_route :: "handler_env \<Rightarrow> nat \<Rightarrow> route \<Rightarrow> request \<Rightarrow> server \<Rightarrow> (request \<times> server) result" where
  "call_route env w rt r sv =
     (case rt of
        Not_found \<Rightarrow> bind_result (send_error_response 404 r) (\<lambda>r. Inr (r, sv))
      | Script_route fn req err tmr \<Rightarrow> script_handler env w fn req err tmr r sv
      | Directory_route p dir req err tmr \<Rightarrow> directory_handler env w p dir req err tmr r sv)"

section \<open>Installing routes\<close>

definition server_add_route :: "string \<Rightarrow> string \<Rightarrow> server \<Rightarrow> server result" where
  "server_add_route p fn sv =
     (let (req, reg) = register_metric Meter_kind (''requests_'' @ fn) (sv_registry sv);
          (err, reg) = register_metric Meter_kind (''errors_'' @ fn) reg;
          (tmr, reg) = register_metric Timer_kind (''times_'' @ fn) reg in
      bind_result (Router.add_route (sv_router sv) p (Some (Script_route fn req err tmr))) (\<lambda>rt.
        Inr (sv\<lparr>sv_registry := reg, sv_router := rt, sv_num_routes := sv_num_routes sv + 1\<rparr>)))"

definition server_add_directory_route :: "nat \<Rightarrow> file_system \<Rightarrow> string \<Rightarrow> string \<Rightarrow> server \<Rightarrow> server result option" where
  "server_add_directory_route fuel fs p dir sv =
     (case add_directory fuel fs dir (sv_files sv) of
        None \<Rightarrow> None
      | Some (False, c) \<Rightarrow> Some (Inr (sv\<lparr>sv_files := c\<rparr>))
      | Some (True, c) \<Rightarrow>
          (let (req, reg) = register_metric Meter_kind ''requests_static_files'' (sv_registry sv);
               (err, reg) = register_metric Meter_kind ''errors_static_files'' reg;
               (tmr, reg) = register_metric Timer_kind ''times_static_files'' reg in
           Some (bind_result (Router.add_route (sv_router sv) p (Some (Directory_route p dir req err tmr))) (\<lambda>rt.
             Inr (sv\<lparr>sv_files := c, sv_registry := reg, sv_router := rt,
                     sv_num_routes := sv_num_routes sv + 1\<rparr>)))))"

section \<open>Metrics the server may use\<close>

definition has_kind :: "registry \<Rightarrow> metric_kind \<Rightarrow> nat \<Rightarrow> bool" where
  "has_kind reg k a \<longleftrightarrow> a < length (heap reg) \<and> kind_of (heap reg ! a) = k"

text \<open>A registry that has only grown: every address still has its kind.\<close>

definition grown :: "registry \<Rightarrow> registry \<Rightarrow> bool" where
  "grown reg reg' \<longleftrightarrow> (\<forall>k a. has_kind reg k a \<longrightarrow> has_kind reg' k a) \<and>
     ((\<forall>n a. m_metrics reg n = Some a \<longrightarrow> a < length (heap reg)) \<longrightarrow>
      (\<forall>n a. m_metrics reg' n = Some a \<longrightarrow> a < length (heap reg')))"

lemma grown_refl [simp]: "grown reg reg"
  by (simp add: grown_def)

lemma grown_trans: "grown r1 r2 \<Longrightarrow> grown r2 r3 \<Longrightarrow> grown r1 r3"
  by (simp add: grown_def)

lemma grown_kind: "grown reg reg' \<Longrightarrow> has_kind reg k a \<Longrightarrow> has_kind reg' k a"
  by (simp add: grown_def)

lemma register_metric_grown:
  assumes "register_metric k name reg = (a, reg')" "\<forall>n a. m_metrics reg n = Some a \<longrightarrow> a < length (heap reg)"
  shows "grown reg reg' \<and> has_kind reg' k a \<and> (\<forall>n a. m_metrics reg' n = Some a \<longrightarrow> a < length (heap reg'))"
proof (cases "get_metric k name reg")
  case (Some b)
  then have "has_kind reg k b" using assms(2)
    by (auto simp: get_metric_def has_kind_def split: option.splits if_splits)
  with Some assms show ?thesis by (simp add: register_metric_def)
next
  case None
  then have r: "a = length (heap reg)" "heap reg' = heap reg @ [make_metric k]"
    "m_metrics reg' = (m_metrics reg)(name \<mapsto> a)"
    using assms(1) by (auto simp: register_metric_def Let_def)
  have "m_metrics reg' n = Some b \<Longrightarrow> b < length (heap reg')" for n b
    using assms(2) r by (auto simp: less_Suc_eq split: if_splits)
  with r show ?thesis by (auto simp: grown_def has_kind_def nth_append)
qed

lemma grown_update:
  assumes "kind_of m = kind_of (heap reg ! a)"
  shows "grown reg (reg\<lparr>heap := (heap reg)[a := m]\<rparr>)"
proof -
  have "kind_of ((heap reg)[a := m] ! b) = kind_of (heap reg ! b)" if "b < length (heap reg)" for b
    using assms that by (cases "b = a") simp_all
  then show ?thesis by (simp add: grown_def has_kind_def)
qed

lemma put_timers_grown:
  "\<forall>a\<in>set as. has_kind reg Timer_kind a \<Longrightarrow> grown reg (reg\<lparr>heap := put_timers as st (heap reg)\<rparr>)"
proof (induction as arbitrary: reg)
  case (Cons a as)
  let ?reg = "reg\<lparr>heap := (heap reg)[a := Timer_metric (st a)]\<rparr>"
  have g: "grown reg ?reg" using Cons.prems by (intro grown_update) (simp add: has_kind_def)
  with Cons.prems have "\<forall>b\<in>set as. has_kind ?reg Timer_kind b" by (auto dest: grown_kind)
  from Cons.IH [OF this] g show ?case by (auto simp: put_timers_def intro: grown_trans)
qed (simp add: put_timers_def)

lemma put_timers_other: "a \<notin> set as \<Longrightarrow> put_timers as st h ! a = h ! a"
  by (induction as arbitrary: h) (auto simp: put_timers_def)

text \<open>Incrementing through a valid pointer succeeds and changes that meter only.\<close>

definition ticks :: "nat \<Rightarrow> server \<Rightarrow> uint64" where
  "ticks a sv = (case heap (sv_registry sv) ! a of Meter_metric m \<Rightarrow> m_val (m_counter_1s m) | _ \<Rightarrow> 0)"

lemma bump_ok:
  assumes "has_kind (sv_registry sv) Meter_kind a"
  shows "\<exists>reg. bump (Some a) sv = Inr (sv\<lparr>sv_registry := reg\<rparr>) \<and> grown (sv_registry sv) reg \<and>
     (\<forall>b. ticks b (sv\<lparr>sv_registry := reg\<rparr>) = (if b = a then ticks b sv + 1 else ticks b sv))"
proof -
  from assms obtain m where m: "heap (sv_registry sv) ! a = Meter_metric m" "a < length (heap (sv_registry sv))"
    by (cases "heap (sv_registry sv) ! a") (auto simp: has_kind_def)
  let ?reg = "(sv_registry sv)\<lparr>heap := (heap (sv_registry sv))[a := Meter_metric (snd (meter_increment 1 m))]\<rparr>"
  have "grown (sv_registry sv) ?reg" using m by (intro grown_update) simp
  moreover have "bump (Some a) sv = Inr (sv\<lparr>sv_registry := ?reg\<rparr>)"
    using m by (simp add: bump_def)
  moreover have "ticks b (sv\<lparr>sv_registry := ?reg\<rparr>) = (if b = a then ticks b sv + 1 else ticks b sv)" for b
    using m by (simp add: ticks_def meter_increment_def increment_def nth_list_update split_def Let_def)
  ultimately show ?thesis by blast
qed

lemma end_times_ok:
  assumes "\<And>d' a. d = Some d' \<Longrightarrow> a \<in> set (m_timers d') \<Longrightarrow> has_kind (sv_registry sv) Timer_kind a"
  shows "\<exists>reg. end_times now d sv = sv\<lparr>sv_registry := reg\<rparr> \<and> grown (sv_registry sv) reg \<and>
     (\<forall>b. has_kind (sv_registry sv) Meter_kind b \<longrightarrow> ticks b (sv\<lparr>sv_registry := reg\<rparr>) = ticks b sv)"
proof (cases d)
  case None
  then show ?thesis by (intro exI [of _ "sv_registry sv"]) (simp add: end_times_def)
next
  case (Some d')
  obtain d2 st where "duration_update now d' (timer_at (heap (sv_registry sv))) = (d2, st)" by fastforce
  then have e: "end_times now d sv =
      sv\<lparr>sv_registry := (sv_registry sv)\<lparr>heap := put_timers (m_timers d') st (heap (sv_registry sv))\<rparr>\<rparr>"
    by (simp add: end_times_def Some on_duration_def)
  moreover have "b \<notin> set (m_timers d')" if "has_kind (sv_registry sv) Meter_kind b" for b
    using assms [OF Some, of b] that by (auto simp: has_kind_def)
  ultimately show ?thesis
    using put_timers_grown [of "m_timers d'" "sv_registry sv" st] assms [OF Some]
    by (intro exI conjI) (auto simp: ticks_def put_timers_other)
qed

section \<open>Servers that can be reached\<close>

fun route_ok :: "registry \<Rightarrow> route \<Rightarrow> bool" where
  "route_ok reg Not_found = True"
| "route_ok reg (Script_route fn req err tmr) =
     (has_kind reg Meter_kind req \<and> has_kind reg Meter_kind err \<and> has_kind reg Timer_kind tmr)"
| "route_ok reg (Directory_route p dir req err tmr) =
     (has_kind reg Meter_kind req \<and> has_kind reg Meter_kind err \<and> has_kind reg Timer_kind tmr)"

text \<open>A directory's handler is found only under the path it was installed for.\<close>

fun route_at :: "string \<Rightarrow> route \<Rightarrow> bool" where
  "route_at p (Directory_route p' dir req err tmr) = (p' = p)"
| "route_at p _ = True"

definition registry_ok :: "server \<Rightarrow> bool" where
  "registry_ok sv \<longleftrightarrow>
     (\<forall>n a. m_metrics (sv_registry sv) n = Some a \<longrightarrow> a < length (heap (sv_registry sv))) \<and>
     has_kind (sv_registry sv) Meter_kind (sv_metric_requests sv) \<and>
     has_kind (sv_registry sv) Meter_kind (sv_metric_errors sv) \<and>
     has_kind (sv_registry sv) Timer_kind (sv_metric_times sv) \<and> sv_metric_not_impl sv = None"

definition router_ok :: "server \<Rightarrow> bool" where
  "router_ok sv \<longleftrightarrow> m_default_func (sv_router sv) = Some Not_found \<and>
     (\<forall>p f. path_set_entry (m_set (sv_router sv)) p = Some f \<longrightarrow>
        (\<exists>rt. f = Some rt \<and> route_ok (sv_registry sv) rt \<and> route_at p rt))"

definition server_ok :: "server \<Rightarrow> bool" where
  "server_ok sv \<longleftrightarrow> registry_ok sv \<and> router_ok sv"

lemma route_ok_grown: "grown reg reg' \<Longrightarrow> route_ok reg rt \<Longrightarrow> route_ok reg' rt"
  by (cases rt) (auto dest: grown_kind)

lemma server_ok_grown:
  assumes "server_ok sv" "grown (sv_registry sv) (sv_registry sv')"
    and "sv_metric_requests sv' = sv_metric_requests sv" "sv_metric_errors sv' = sv_metric_errors sv"
    and "sv_metric_times sv' = sv_metric_times sv" "sv_metric_not_impl sv' = sv_metric_not_impl sv"
    and "sv_router sv' = sv_router sv"
  shows "server_ok sv'"
proof -
  have "registry_ok sv'" using assms unfolding server_ok_def registry_ok_def by (simp add: grown_def)
  moreover have "router_ok sv'"
    using assms(1,7) route_ok_grown [OF assms(2)] unfolding server_ok_def router_ok_def by metis
  ultimately show ?thesis by (simp add: server_ok_def)
qed

lemma new_registry_empty: "new_registry opts = Inr reg \<Longrightarrow> m_metrics reg = Map.empty"
  by (auto simp: new_registry_def Let_def split: sum.splits if_splits)

lemma register_metric_fresh:
  assumes "register_metric k name reg = (a, reg')" "m_metrics reg name = None"
  shows "a = length (heap reg)" "heap reg' = heap reg @ [make_metric k]"
    "m_metrics reg' = (m_metrics reg)(name \<mapsto> a)"
  using assms by (auto simp: register_metric_def get_metric_def Let_def)

lemma new_server_fields:
  assumes "new_server opts processors mgr = Inr sv"
  shows "server_ok sv \<and> 1 \<le> sv_num_workers sv \<and> sv_num_routes sv = 0 \<and>
    m_metrics (sv_registry sv) ''not_implemented'' = Some (sv_metric_errors sv) \<and>
    m_metrics (sv_registry sv) ''errors'' \<noteq> Some (sv_metric_errors sv) \<and>
    sv_fibers sv = (\<lambda>w. new_fiber_cache) \<and> sv_router sv = new_router Not_found \<and> sv_states sv = mgr \<and>
    sv_stacks sv = (\<lambda>a. []) \<and> sv_files sv = new_file_cache \<and>
    (\<forall>n. n \<notin> {''requests'', ''errors'', ''not_implemented'', ''times''} \<longrightarrow> m_metrics (sv_registry sv) n = None)"
proof -
  obtain reg n where reg: "new_registry opts = Inr reg" and n: "num_workers opts processors = Inr n"
    using assms by (auto simp: new_server_def bind_result_Inr_iff)
  obtain a1 r1 where 1: "register_metric Meter_kind ''requests'' reg = (a1, r1)" by fastforce
  obtain a2 r2 where 2: "register_metric Meter_kind ''errors'' r1 = (a2, r2)" by fastforce
  obtain a3 r3 where 3: "register_metric Meter_kind ''not_implemented'' r2 = (a3, r3)" by fastforce
  obtain a4 r4 where 4: "register_metric Timer_kind ''times'' r3 = (a4, r4)" by fastforce
  have sv: "sv = \<lparr>sv_num_workers = n, sv_workers = [], sv_next_worker = 0, sv_states = mgr,
      sv_stacks = (\<lambda>a. []), sv_router = new_router Not_found, sv_registry = r4,
      sv_files = new_file_cache, sv_fibers = (\<lambda>w. new_fiber_cache), sv_http2 = None,
      sv_num_routes = 0, sv_metric_requests = a1, sv_metric_errors = a3,
      sv_metric_not_impl = None, sv_metric_times = a4, sv_stop_func = No_func, sv_join_func = No_func\<rparr>"
    using assms reg n 1 2 3 4 by (simp add: new_server_def Let_def)
  have e: "\<forall>n a. m_metrics reg n = Some a \<longrightarrow> a < length (heap reg)" by (simp add: new_registry_empty [OF reg])
  note g1 = register_metric_grown [OF 1 e]
  note g2 = register_metric_grown [OF 2 g1 [THEN conjunct2, THEN conjunct2]]
  note g3 = register_metric_grown [OF 3 g2 [THEN conjunct2, THEN conjunct2]]
  note g4 = register_metric_grown [OF 4 g3 [THEN conjunct2, THEN conjunct2]]
  have "has_kind r4 Meter_kind a1" "has_kind r4 Meter_kind a3" "has_kind r4 Timer_kind a4"
    using g1 g2 g3 g4 by (auto dest: grown_kind)
  then have "server_ok sv"
    using g4 by (simp add: server_ok_def registry_ok_def router_ok_def sv new_router_def path_set_entry_new)
  moreover have "1 \<le> n" using n by (auto simp: num_workers_def bind_result_Inr_iff Let_def split: if_splits)
  moreover have "m_metrics r4 ''not_implemented'' = Some a3 \<and> m_metrics r4 ''errors'' \<noteq> Some a3 \<and>
    (\<forall>n. n \<notin> {''requests'', ''errors'', ''not_implemented'', ''times''} \<longrightarrow> m_metrics r4 n = None)"
  proof -
    have e0: "m_metrics reg ''requests'' = None" by (simp add: new_registry_empty [OF reg])
    note m1 = register_metric_fresh [OF 1 e0]
    have e1: "m_metrics r1 ''errors'' = None" by (simp add: m1 new_registry_empty [OF reg])
    note m2 = register_metric_fresh [OF 2 e1]
    have e2: "m_metrics r2 ''not_implemented'' = None" by (simp add: m1 m2 new_registry_empty [OF reg])
    note m3 = register_metric_fresh [OF 3 e2]
    have e3: "m_metrics r3 ''times'' = None" by (simp add: m1 m2 m3 new_registry_empty [OF reg])
    note m4 = register_metric_fresh [OF 4 e3]
    from m3 have n3: "m_metrics r4 ''not_implemented'' = Some a3" by (simp add: m4)
    have n2: "m_metrics r4 ''errors'' = Some a2" by (simp add: m4 m3 m2)
    have "a2 \<noteq> a3" by (simp add: m2 m3)
    moreover have "m_metrics r4 n = None" if "n \<notin> {''requests'', ''errors'', ''not_implemented'', ''times''}" for n
      using that by (simp add: m1 m2 m3 m4 new_registry_empty [OF reg])
    ultimately show ?thesis using n2 n3 by simp
  qed
  ultimately show ?thesis by (simp add: sv)
qed

text \<open>Installing a route whose captured metrics are valid keeps the router in order.\<close>

lemma router_ok_add:
  assumes "server_ok sv" "grown (sv_registry sv) reg" "Router.add_route (sv_router sv) p (Some rt) = Inr r"
    and "route_ok reg rt" "route_at p rt"
  shows "server_ok (sv\<lparr>sv_registry := reg, sv_router := r, sv_num_routes := k\<rparr>)"
proof -
  from add_route_entry [OF assms(3)] have r:
    "path_set_entry (m_set r) = (path_set_entry (m_set (sv_router sv)))(p \<mapsto> Some rt)"
    "m_default_func r = m_default_func (sv_router sv)" by auto
  let ?sv = "sv\<lparr>sv_registry := reg, sv_router := r, sv_num_routes := k\<rparr>"
  have "registry_ok ?sv" using assms(1,2) unfolding server_ok_def registry_ok_def by (simp add: grown_def)
  moreover have "router_ok ?sv"
  proof -
    have "\<exists>rt. f = Some rt \<and> route_ok reg rt \<and> route_at q rt" if "path_set_entry (m_set r) q = Some f" for q f
    proof (cases "q = p")
      case True
      with that r(1) have "f = Some rt" by simp
      with True assms(4,5) show ?thesis by simp
    next
      case False
      with that r(1) have "path_set_entry (m_set (sv_router sv)) q = Some f" by simp
      with assms(1) obtain rt' where "f = Some rt'" "route_ok (sv_registry sv) rt'" "route_at q rt'"
        unfolding server_ok_def router_ok_def by blast
      with route_ok_grown [OF assms(2)] show ?thesis by blast
    qed
    then show ?thesis using assms(1) r(2) unfolding server_ok_def router_ok_def by simp
  qed
  ultimately show ?thesis by (simp add: server_ok_def)
qed

text \<open>The three metrics of a route.\<close>

lemma route_metrics:
  assumes "register_metric Meter_kind n1 reg = (a1, r1)" "register_metric Meter_kind n2 r1 = (a2, r2)"
    and "register_metric Timer_kind n3 r2 = (a3, r3)"
    and "\<forall>n a. m_metrics reg n = Some a \<longrightarrow> a < length (heap reg)"
  shows "grown reg r3 \<and> has_kind r3 Meter_kind a1 \<and> has_kind r3 Meter_kind a2 \<and> has_kind r3 Timer_kind a3"
proof -
  note g1 = register_metric_grown [OF assms(1) assms(4)]
  note g2 = register_metric_grown [OF assms(2) g1 [THEN conjunct2, THEN conjunct2]]
  note g3 = register_metric_grown [OF assms(3) g2 [THEN conjunct2, THEN conjunct2]]
  show ?thesis using g1 g2 g3 by (auto intro: grown_trans dest: grown_kind)
qed

lemma server_ok_metrics:
  "server_ok sv \<Longrightarrow> \<forall>n a. m_metrics (sv_registry sv) n = Some a \<longrightarrow> a < length (heap (sv_registry sv))"
  by (simp add: server_ok_def registry_ok_def)

lemma server_add_route_ok:
  assumes "server_ok sv" "server_add_route p fn sv = Inr sv'"
  shows "server_ok sv'"
proof -
  obtain a1 r1 where 1: "register_metric Meter_kind (''requests_'' @ fn) (sv_registry sv) = (a1, r1)" by fastforce
  obtain a2 r2 where 2: "register_metric Meter_kind (''errors_'' @ fn) r1 = (a2, r2)" by fastforce
  obtain a3 r3 where 3: "register_metric Timer_kind (''times_'' @ fn) r2 = (a3, r3)" by fastforce
  note g = route_metrics [OF 1 2 3 server_ok_metrics [OF assms(1)]]
  from assms(2) obtain r where
    "Router.add_route (sv_router sv) p (Some (Script_route fn a1 a2 a3)) = Inr r"
    "sv' = sv\<lparr>sv_registry := r3, sv_router := r, sv_num_routes := sv_num_routes sv + 1\<rparr>"
    unfolding server_add_route_def Let_def 1 2 3 prod.case bind_result_Inr_iff by auto
  with router_ok_add [OF assms(1) _ this(1)] g show ?thesis by simp
qed

lemma server_add_directory_route_ok:
  assumes "server_ok sv" "server_add_directory_route fuel fs p dir sv = Some (Inr sv')"
  shows "server_ok sv'"
proof -
  obtain a1 r1 where 1: "register_metric Meter_kind ''requests_static_files'' (sv_registry sv) = (a1, r1)" by fastforce
  obtain a2 r2 where 2: "register_metric Meter_kind ''errors_static_files'' r1 = (a2, r2)" by fastforce
  obtain a3 r3 where 3: "register_metric Timer_kind ''times_static_files'' r2 = (a3, r3)" by fastforce
  note g = route_metrics [OF 1 2 3 server_ok_metrics [OF assms(1)]]
  obtain b c where c: "add_directory fuel fs dir (sv_files sv) = Some (b, c)"
    using assms(2) by (auto simp: server_add_directory_route_def split: option.splits)
  let ?sv = "sv\<lparr>sv_files := c\<rparr>"
  have sv: "server_ok ?sv" by (rule server_ok_grown [OF assms(1)]) simp_all
  show ?thesis
  proof (cases b)
    case False
    with assms(2) c sv show ?thesis by (auto simp: server_add_directory_route_def)
  next
    case True
    with assms(2) c obtain r where
      r: "Router.add_route (sv_router ?sv) p (Some (Directory_route p dir a1 a2 a3)) = Inr r"
      "sv' = sv\<lparr>sv_files := c, sv_registry := r3, sv_router := r, sv_num_routes := sv_num_routes sv + 1\<rparr>"
      by (auto simp: server_add_directory_route_def 1 2 3 bind_result_Inr_iff)
    with router_ok_add [OF sv _ r(1), of r3 "sv_num_routes sv + 1"] g show ?thesis by simp
  qed
qed

section \<open>The handlers\<close>

lemma fail_with_ok:
  assumes "server_ok sv" "has_kind (sv_registry sv) Meter_kind err" "unanswered r" "0 \<le> code" "code < 2 ^ 32"
  shows "\<exists>r' reg. fail_with code err r sv = Inr (r', sv\<lparr>sv_registry := reg\<rparr>) \<and> grown (sv_registry sv) reg \<and>
     answer r' = Some (code, final_headers (m_mode r) (response_headers r) '''', response_body r) \<and>
     (err \<noteq> sv_metric_errors sv \<longrightarrow>
        ticks err (sv\<lparr>sv_registry := reg\<rparr>) = ticks err sv + 1 \<and>
        ticks (sv_metric_errors sv) (sv\<lparr>sv_registry := reg\<rparr>) = ticks (sv_metric_errors sv) sv + 1)"
proof -
  from assms(1) have "has_kind (sv_registry sv) Meter_kind (sv_metric_errors sv)"
    by (simp add: server_ok_def registry_ok_def)
  from bump_ok [OF this] obtain reg1 where 1: "bump (Some (sv_metric_errors sv)) sv = Inr (sv\<lparr>sv_registry := reg1\<rparr>)"
    "grown (sv_registry sv) reg1"
    "\<And>b. ticks b (sv\<lparr>sv_registry := reg1\<rparr>) = (if b = sv_metric_errors sv then ticks b sv + 1 else ticks b sv)"
    by blast
  have "has_kind (sv_registry (sv\<lparr>sv_registry := reg1\<rparr>)) Meter_kind err"
    using grown_kind [OF 1(2) assms(2)] by simp
  from bump_ok [OF this] obtain reg2 where
    2: "bump (Some err) (sv\<lparr>sv_registry := reg1\<rparr>) = Inr (sv\<lparr>sv_registry := reg2\<rparr>)" "grown reg1 reg2"
    "\<And>b. ticks b (sv\<lparr>sv_registry := reg2\<rparr>) =
       (if b = err then ticks b (sv\<lparr>sv_registry := reg1\<rparr>) + 1 else ticks b (sv\<lparr>sv_registry := reg1\<rparr>))"
    by auto
  from send_answers [OF assms(3-5), of "''''"] obtain r' where r': "send_response code '''' r = Inr r'"
    "answer r' = Some (code, final_headers (m_mode r) (response_headers r) '''', response_body r)"
    by auto
  have "fail_with code err r sv = Inr (r', sv\<lparr>sv_registry := reg2\<rparr>)"
    using 1(1) 2(1) r'(1) by (simp add: fail_with_def send_error_response_def)
  then show ?thesis using 1(3) 2(3) r' grown_trans [OF 1(2) 2(2)]
    by (intro exI [of _ r'] exI [of _ reg2]) simp
qed

text \<open>A thread's cache of fibers, before its registration, while it is registered, and after it.\<close>

definition cache_ok :: "'f fiber_cache \<Rightarrow> bool" where
  "cache_ok c \<longleftrightarrow> m_cache c = None \<or> fiber_inv c"

lemma cache_ok_run: "cache_ok c \<Longrightarrow> cache_ok (Fibers.run f c) \<and> pending (Fibers.run f c) = add_mset f (pending c)"
proof (cases "m_cache c")
  case None
  then show ?thesis by (simp add: cache_ok_def Fibers.run_def get_fiber_def pending_def)
next
  case (Some fs)
  moreover assume "cache_ok c"
  ultimately show ?thesis by (simp add: cache_ok_def fiber_inv_run pending_run)
qed

text \<open>
  Every way in which a server changes: routes are installed, handlers and jobs run, the caches'
  fibers make progress, and the other fibers work on the registry, the states and the files.
\<close>

inductive server_reachable :: "server \<Rightarrow> bool" where
  new: "new_server opts processors mgr = Inr sv \<Longrightarrow> server_reachable sv"
| script: "server_reachable sv \<Longrightarrow> server_add_route p fn sv = Inr sv' \<Longrightarrow> server_reachable sv'"
| directory: "server_reachable sv \<Longrightarrow> server_add_directory_route fuel fs p dir sv = Some (Inr sv') \<Longrightarrow>
    server_reachable sv'"
| request: "server_reachable sv \<Longrightarrow> find_route (sv_router sv) target = Some rt \<Longrightarrow>
    call_route env w rt r sv = Inr (r', sv') \<Longrightarrow> server_reachable sv'"
| job: "server_reachable sv \<Longrightarrow> j \<in># pending (sv_fibers sv w) \<Longrightarrow> run_job env w j sv = Some (Inr (r', sv')) \<Longrightarrow>
    server_reachable sv'"
| fibers: "server_reachable sv \<Longrightarrow> set_mset (pending c) \<subseteq> set_mset (pending (sv_fibers sv w)) \<Longrightarrow>
    cache_ok c \<Longrightarrow> server_reachable (sv\<lparr>sv_fibers := (sv_fibers sv)(w := c)\<rparr>)"
| metrics: "server_reachable sv \<Longrightarrow> grown (sv_registry sv) reg \<Longrightarrow> server_reachable (sv\<lparr>sv_registry := reg\<rparr>)"
| others: "server_reachable sv \<Longrightarrow> server_reachable (sv\<lparr>sv_states := m, sv_stacks := st, sv_files := c\<rparr>)"

fun job_ok :: "registry \<Rightarrow> job \<Rightarrow> bool" where
  "job_ok reg (Job fn r d err) \<longleftrightarrow> has_kind reg Meter_kind err \<and>
     (\<forall>d'. d = Some d' \<longrightarrow> (\<forall>a\<in>set (m_timers d'). has_kind reg Timer_kind a))"

definition jobs_ok :: "server \<Rightarrow> bool" where
  "jobs_ok sv \<longleftrightarrow> (\<forall>w. \<forall>j\<in>#pending (sv_fibers sv w). job_ok (sv_registry sv) j)"

lemma job_ok_grown: "grown reg reg' \<Longrightarrow> job_ok reg j \<Longrightarrow> job_ok reg' j"
  by (cases j) (auto dest: grown_kind)

lemma pending_iff:
  "j \<in># pending c \<longleftrightarrow> Some j \<in> func ` set (contexts c) \<or> j \<in> set (detached c)"
proof -
  have "j \<in> set (List.map_filter f xs) \<longleftrightarrow> Some j \<in> f ` set xs" for f :: "'a fiber_context \<Rightarrow> 'a option" and xs
    by (induction xs) (auto simp: map_filter_simps split: option.splits)
  then show ?thesis by (simp add: pending_def)
qed

lemma pending_run_cases: "j \<in># pending (Fibers.run f c) \<Longrightarrow> j = f \<or> j \<in># pending c"
  by (auto simp: pending_iff Fibers.run_def get_fiber_def split: if_splits option.splits
      dest!: set_update_subset_insert [THEN subsetD])

lemma jobs_ok_grown:
  assumes "jobs_ok sv" "grown (sv_registry sv) (sv_registry sv')" "sv_fibers sv' = sv_fibers sv"
  shows "jobs_ok sv'"
  using assms job_ok_grown [OF assms(2)] by (simp add: jobs_ok_def)

text \<open>Metrics only: what changes between two servers is the registry, and it has grown.\<close>

lemma bump_inv:
  assumes "bump (Some a) sv = Inr sv'"
  shows "\<exists>reg. sv' = sv\<lparr>sv_registry := reg\<rparr> \<and> grown (sv_registry sv) reg"
proof -
  from assms obtain m where m: "heap (sv_registry sv) ! a = Meter_metric m"
    "sv' = sv\<lparr>sv_registry := (sv_registry sv)\<lparr>heap := (heap (sv_registry sv))[a := Meter_metric (snd (meter_increment 1 m))]\<rparr>\<rparr>"
    by (auto simp: bump_def split: metric.splits)
  then show ?thesis
    by (intro exI [of _ "(sv_registry sv)\<lparr>heap := (heap (sv_registry sv))[a := Meter_metric (snd (meter_increment 1 m))]\<rparr>"])
       (auto intro: grown_update)
qed

lemma fail_with_inv:
  assumes "fail_with code err r sv = Inr (r', sv')"
  shows "\<exists>reg. sv' = sv\<lparr>sv_registry := reg\<rparr> \<and> grown (sv_registry sv) reg"
proof -
  from assms obtain sv1 where 1: "bump (Some (sv_metric_errors sv)) sv = Inr sv1" "bump (Some err) sv1 = Inr sv'"
    by (auto simp: fail_with_def bind_result_Inr_iff)
  from bump_inv [OF 1(1)] obtain reg1 where "sv1 = sv\<lparr>sv_registry := reg1\<rparr>" "grown (sv_registry sv) reg1" by blast
  with bump_inv [OF 1(2)] show ?thesis by (auto intro: grown_trans)
qed

definition full_ok :: "server \<Rightarrow> bool" where
  "full_ok sv \<longleftrightarrow> server_ok sv \<and> jobs_ok sv"

lemma full_ok_registry:
  "full_ok sv \<Longrightarrow> grown (sv_registry sv) reg \<Longrightarrow> full_ok (sv\<lparr>sv_registry := reg\<rparr>)"
  unfolding full_ok_def by (auto intro: server_ok_grown jobs_ok_grown)

lemma full_ok_others: "full_ok sv \<Longrightarrow> full_ok (sv\<lparr>sv_states := m, sv_stacks := st\<rparr>)" "full_ok sv \<Longrightarrow> full_ok (sv\<lparr>sv_files := c\<rparr>)"
  unfolding full_ok_def by (auto intro: server_ok_grown jobs_ok_grown)

lemma full_ok_fibers:
  assumes "full_ok sv" "\<And>j. j \<in># pending c \<Longrightarrow> job_ok (sv_registry sv) j"
  shows "full_ok (sv\<lparr>sv_fibers := (sv_fibers sv)(w := c)\<rparr>)"
  using assms unfolding full_ok_def by (auto simp: jobs_ok_def intro: server_ok_grown)

lemma full_ok_bump: "full_ok sv \<Longrightarrow> bump (Some a) sv = Inr sv' \<Longrightarrow> full_ok sv' \<and> grown (sv_registry sv) (sv_registry sv')"
  using bump_inv [of a sv sv'] by (auto intro: full_ok_registry)

lemma full_ok_fail:
  "full_ok sv \<Longrightarrow> fail_with code err r sv = Inr (r', sv') \<Longrightarrow> full_ok sv' \<and> grown (sv_registry sv) (sv_registry sv')"
  using fail_with_inv [of code err r sv r' sv'] by (auto intro: full_ok_registry)

definition times_ok :: "registry \<Rightarrow> duration option \<Rightarrow> bool" where
  "times_ok reg d \<longleftrightarrow> (\<forall>d'. d = Some d' \<longrightarrow> (\<forall>a\<in>set (m_timers d'). has_kind reg Timer_kind a))"

lemma times_ok_grown: "times_ok reg d \<Longrightarrow> grown reg reg' \<Longrightarrow> times_ok reg' d"
  by (auto simp: times_ok_def dest: grown_kind)

lemma times_ok_start:
  "has_kind (sv_registry sv) Timer_kind (sv_metric_times sv) \<Longrightarrow> has_kind (sv_registry sv) Timer_kind tmr \<Longrightarrow>
   times_ok (sv_registry sv) (start_times rnd now tmr sv)"
  by (simp add: times_ok_def start_times_def new_duration_def)

lemma full_ok_end:
  assumes "full_ok sv" "times_ok (sv_registry sv) d"
  shows "full_ok (end_times now d sv)"
  using end_times_ok [of d sv now] assms by (auto simp: times_ok_def intro: full_ok_registry)

lemma server_ok_addresses:
  assumes "full_ok sv"
  shows "has_kind (sv_registry sv) Meter_kind (sv_metric_requests sv)"
    "has_kind (sv_registry sv) Meter_kind (sv_metric_errors sv)"
    "has_kind (sv_registry sv) Timer_kind (sv_metric_times sv)" "sv_metric_not_impl sv = None"
  using assms by (simp_all add: full_ok_def server_ok_def registry_ok_def)

lemma bump_times [simp]: "bump (Some a) sv = Inr sv' \<Longrightarrow> sv_metric_times sv' = sv_metric_times sv"
  "bump (Some a) sv = Inr sv' \<Longrightarrow> sv_fibers sv' = sv_fibers sv"
  "bump (Some a) sv = Inr sv' \<Longrightarrow> sv_metric_errors sv' = sv_metric_errors sv"
  by (auto dest: bump_inv)

lemma script_handler_inv:
  assumes "full_ok sv" "route_ok (sv_registry sv) (Script_route fn req err tmr)"
    and "script_handler env w fn req err tmr r sv = Inr (r', sv')"
  shows "full_ok sv'"
proof (cases "m_method r = GET \<or> m_method r = POST")
  case False
  with assms(3) server_ok_addresses(4) [OF assms(1)] show ?thesis by (simp add: script_handler_def bump_def)
next
  case True
  with assms(3) obtain sv1 sv2 where b: "bump (Some (sv_metric_requests sv)) sv = Inr sv1" "bump (Some req) sv1 = Inr sv2"
    by (auto simp: script_handler_def bind_result_Inr_iff)
  let ?d = "start_times (he_rnd env) (he_start env) tmr sv2"
  from full_ok_bump [OF assms(1) b(1)] full_ok_bump [OF _ b(2)]
  have ok: "full_ok sv2" "grown (sv_registry sv) (sv_registry sv2)" by (auto intro: grown_trans)
  have k: "has_kind (sv_registry sv2) Meter_kind err" "has_kind (sv_registry sv2) Timer_kind tmr"
    using assms(2) grown_kind [OF ok(2)] by auto
  have d: "times_ok (sv_registry sv2) ?d"
    using server_ok_addresses(3) [OF ok(1)] k(2) by (rule times_ok_start)
  show ?thesis
  proof (cases "he_fiber_error env")
    case None
    with True assms(3) b have "sv' = sv2\<lparr>sv_fibers := (sv_fibers sv2)(w := Fibers.run (Job fn r ?d err) (sv_fibers sv2 w))\<rparr>"
      by (auto simp: script_handler_def Let_def)
    moreover have "full_ok \<dots>"
      using ok(1) k(1) d by (intro full_ok_fibers)
        (auto simp: full_ok_def jobs_ok_def times_ok_def dest: pending_run_cases)
    ultimately show ?thesis by simp
  next
    case (Some e)
    with True assms(3) b obtain sv3 where "fail_with 500 err r sv2 = Inr (r', sv3)" "sv' = end_times (he_end env) ?d sv3"
      by (auto simp: script_handler_def Let_def bind_result_Inr_iff split: if_splits prod.splits)
    with full_ok_fail [OF ok(1)] full_ok_end times_ok_grown [OF d] show ?thesis by blast
  qed
qed

lemma directory_handler_inv:
  assumes "full_ok sv" "route_ok (sv_registry sv) (Directory_route p dir req err tmr)"
    and "directory_handler env w p dir req err tmr r sv = Inr (r', sv')"
  shows "full_ok sv'"
proof (cases "m_method r = GET")
  case False
  with assms(3) full_ok_fail [OF assms(1)] show ?thesis by (auto simp: directory_handler_def)
next
  case True
  let ?d = "start_times (he_rnd env) (he_start env) tmr sv"
  have d: "times_ok (sv_registry sv) ?d"
    using server_ok_addresses(3) [OF assms(1)] assms(2) by (intro times_ok_start) simp_all
  from True assms(3) obtain f c where f: "find_static_file w dir p (Request.path r) (sv_files sv) = Inr (f, c)"
    by (auto simp: directory_handler_def Let_def bind_result_Inr_iff)
  let ?sv = "sv\<lparr>sv_files := c\<rparr>"
  note ok = full_ok_others(2) [OF assms(1), of c]
  show ?thesis
  proof (cases f)
    case None
    with True assms(3) f have "fail_with 404 err r (end_times (he_end env) ?d ?sv) = Inr (r', sv')"
      by (simp add: directory_handler_def Let_def)
    moreover have "full_ok (end_times (he_end env) ?d ?sv)" using ok d by (intro full_ok_end) simp_all
    ultimately show ?thesis using full_ok_fail by blast
  next
    case (Some cf)
    with True assms(3) f obtain sv1 sv2 where
      b: "bump (Some (sv_metric_requests sv)) ?sv = Inr sv1" "bump (Some req) sv1 = Inr sv2" and
      sv': "sv' = end_times (he_end env) ?d sv2"
      by (auto simp: directory_handler_def Let_def bind_result_Inr_iff)
    from full_ok_bump [OF ok b(1)] full_ok_bump [OF _ b(2)]
    have "full_ok sv2" "grown (sv_registry sv) (sv_registry sv2)" by (auto intro: grown_trans)
    with times_ok_grown [OF d] sv' show ?thesis by (auto intro: full_ok_end)
  qed
qed

lemma call_route_inv:
  assumes "full_ok sv" "route_ok (sv_registry sv) rt" "call_route env w rt r sv = Inr (r', sv')"
  shows "full_ok sv'"
proof (cases rt)
  case Not_found
  with assms(1,3) show ?thesis by (auto simp: call_route_def bind_result_Inr_iff)
next
  case (Script_route fn req err tmr)
  with assms(3) have "script_handler env w fn req err tmr r sv = Inr (r', sv')" by (simp add: call_route_def)
  with assms(1,2) Script_route show ?thesis by (blast intro: script_handler_inv)
next
  case (Directory_route p dir req err tmr)
  with assms(3) have "directory_handler env w p dir req err tmr r sv = Inr (r', sv')" by (simp add: call_route_def)
  with assms(1,2) Directory_route show ?thesis by (blast intro: directory_handler_inv)
qed

lemma run_job_inv:
  assumes "full_ok sv" "job_ok (sv_registry sv) j" "run_job env w j sv = Some (Inr (r', sv'))"
  shows "full_ok sv'"
proof -
  obtain fn r d err where j: "j = Job fn r d err" by (cases j)
  with assms(2) have d: "times_ok (sv_registry sv) d" by (simp add: times_ok_def)
  obtain x r1 m st where h: "handle_request (he_lua env) (he_scripts env) (he_fuel env) (he_time env) w fn r
      (sv_states sv) (sv_stacks sv) = Some (x, r1, m, st)"
    using assms(3) j by (auto split: option.splits)
  let ?sv = "sv\<lparr>sv_states := m, sv_stacks := st\<rparr>"
  note ok = full_ok_others(1) [OF assms(1), where m = m and st = st]
  show ?thesis
  proof (cases x)
    case (Inr u)
    with assms(3) j h ok d show ?thesis by (auto intro: full_ok_end)
  next
    case (Inl e)
    with assms(3) j h obtain sv1 where "fail_with 500 err r1 ?sv = Inr (r', sv1)" "sv' = end_times (he_end env) d sv1"
      by (auto simp: bind_result_Inr_iff split: if_splits prod.splits)
    with full_ok_fail [OF ok] times_ok_grown [of "sv_registry ?sv" d] d show ?thesis by (auto intro: full_ok_end)
  qed
qed

lemma find_route_ok:
  assumes "full_ok sv" "find_route (sv_router sv) target = f"
  shows "\<exists>rt. f = Some rt \<and> route_ok (sv_registry sv) rt \<and>
    (rt = Not_found \<or> (\<exists>q. prefix q target \<and> route_at q rt \<and> path_set_entry (m_set (sv_router sv)) q = Some f))"
proof -
  from assms(1) have r: "m_default_func (sv_router sv) = Some Not_found"
    "\<And>p f. path_set_entry (m_set (sv_router sv)) p = Some f \<Longrightarrow>
       \<exists>rt. f = Some rt \<and> route_ok (sv_registry sv) rt \<and> route_at p rt"
    by (auto simp: full_ok_def server_ok_def router_ok_def)
  from find_route_cases [of "sv_router sv" target] show ?thesis
  proof (elim disjE exE conjE)
    assume "find_route (sv_router sv) target = m_default_func (sv_router sv)"
    with assms(2) r(1) show ?thesis by auto
  next
    fix q g assume "prefix q target" "path_set_entry (m_set (sv_router sv)) q = Some g"
      "find_route (sv_router sv) target = g"
    with assms(2) r(2) show ?thesis by blast
  qed
qed

lemma reachable_full_ok: "server_reachable sv \<Longrightarrow> full_ok sv"
proof (induction rule: server_reachable.induct)
  case (new opts processors mgr sv)
  from new_server_fields [OF new] show ?case
    by (simp add: full_ok_def jobs_ok_def pending_def new_fiber_cache_def List.map_filter_def)
next
  case (script sv p fn sv')
  then have "server_ok sv'" by (auto simp: full_ok_def intro: server_add_route_ok)
  moreover obtain a1 r1 where 1: "register_metric Meter_kind (''requests_'' @ fn) (sv_registry sv) = (a1, r1)" by fastforce
  obtain a2 r2 where 2: "register_metric Meter_kind (''errors_'' @ fn) r1 = (a2, r2)" by fastforce
  obtain a3 r3 where 3: "register_metric Timer_kind (''times_'' @ fn) r2 = (a3, r3)" by fastforce
  have "server_ok sv" using script.IH by (simp add: full_ok_def)
  note g = route_metrics [OF 1 2 3 server_ok_metrics [OF this]]
  have "sv_registry sv' = r3" "sv_fibers sv' = sv_fibers sv"
    using script.hyps(2) unfolding server_add_route_def Let_def 1 2 3 prod.case bind_result_Inr_iff by auto
  then have "jobs_ok sv'" using script.IH g by (auto simp: full_ok_def intro: jobs_ok_grown)
  ultimately show ?case by (simp add: full_ok_def)
next
  case (directory sv fuel fs p dir sv')
  then have "server_ok sv'" by (auto simp: full_ok_def intro: server_add_directory_route_ok)
  moreover obtain a1 r1 where 1: "register_metric Meter_kind ''requests_static_files'' (sv_registry sv) = (a1, r1)" by fastforce
  obtain a2 r2 where 2: "register_metric Meter_kind ''errors_static_files'' r1 = (a2, r2)" by fastforce
  obtain a3 r3 where 3: "register_metric Timer_kind ''times_static_files'' r2 = (a3, r3)" by fastforce
  have "server_ok sv" using directory.IH by (simp add: full_ok_def)
  note g = route_metrics [OF 1 2 3 server_ok_metrics [OF this]]
  have "sv_registry sv' \<in> {sv_registry sv, r3}" "sv_fibers sv' = sv_fibers sv"
    using directory.hyps(2) unfolding server_add_directory_route_def Let_def 1 2 3 prod.case
    by (auto simp: bind_result_Inr_iff split: option.splits prod.splits bool.splits)
  then have "jobs_ok sv'" using directory.IH g by (auto simp: full_ok_def intro: jobs_ok_grown)
  ultimately show ?case by (simp add: full_ok_def)
next
  case (request sv target rt env w r r' sv')
  from find_route_ok [OF request.IH request.hyps(2)] have "route_ok (sv_registry sv) rt" by auto
  with call_route_inv [OF request.IH _ request.hyps(3)] show ?case by simp
next
  case (job sv j w env r' sv')
  then have "job_ok (sv_registry sv) j" by (simp add: full_ok_def jobs_ok_def)
  with job show ?case by (blast intro: run_job_inv)
next
  case (fibers sv c w)
  then show ?case by (intro full_ok_fibers) (auto simp: full_ok_def jobs_ok_def)
next
  case (metrics sv reg)
  then show ?case by (intro full_ok_registry)
next
  case (others sv m st c)
  then show ?case using full_ok_others(2) [OF full_ok_others(1)] by fastforce
qed

text \<open>What requests and jobs leave of the caches of fibers and of the files.\<close>

lemma end_times_keeps [simp]:
  "sv_fibers (end_times now d sv) = sv_fibers sv" "sv_files (end_times now d sv) = sv_files sv"
  "sv_states (end_times now d sv) = sv_states sv"
  by (simp_all add: end_times_def split: option.split)

lemma fail_with_keeps:
  "fail_with code err r sv = Inr (r', sv') \<Longrightarrow>
   sv_fibers sv' = sv_fibers sv \<and> sv_files sv' = sv_files sv \<and> sv_states sv' = sv_states sv"
  by (auto dest: fail_with_inv)

lemma bump_keeps:
  "bump a sv = Inr sv' \<Longrightarrow>
   sv_fibers sv' = sv_fibers sv \<and> sv_files sv' = sv_files sv \<and> sv_states sv' = sv_states sv"
  by (auto simp: bump_def split: option.splits metric.splits)

lemma run_job_keeps:
  "run_job env w j sv = Some (Inr (r', sv')) \<Longrightarrow> sv_fibers sv' = sv_fibers sv \<and> sv_files sv' = sv_files sv"
  by (cases j) (auto simp: bind_result_Inr_iff dest!: fail_with_keeps split: option.splits sum.splits if_splits)

lemma call_route_fibers:
  assumes "call_route env w rt r sv = Inr (r', sv')"
  shows "sv_fibers sv' = sv_fibers sv \<or> (\<exists>j. sv_fibers sv' = (sv_fibers sv)(w := Fibers.run j (sv_fibers sv w)))"
  using assms
  by (cases rt)
     (auto simp: call_route_def script_handler_def directory_handler_def bind_result_Inr_iff Let_def
       dest!: fail_with_keeps bump_keeps split: option.splits if_splits)

lemma call_route_states:
  assumes "call_route env w rt r sv = Inr (r', sv')"
  shows "sv_states sv' = sv_states sv"
  using assms
  by (cases rt)
     (auto simp: call_route_def script_handler_def directory_handler_def bind_result_Inr_iff Let_def
       dest!: fail_with_keeps bump_keeps split: option.splits if_splits)

lemma run_job_states:
  assumes "run_job env w (Job fn r d err) sv = Some (Inr (r', sv'))"
  obtains x r1 st where "handle_request (he_lua env) (he_scripts env) (he_fuel env) (he_time env) w fn r
      (sv_states sv) (sv_stacks sv) = Some (x, r1, sv_states sv', st)"
  using assms
  by (auto simp: bind_result_Inr_iff dest!: fail_with_keeps split: option.splits sum.splits if_splits)

lemma reachable_caches_ok: "server_reachable sv \<Longrightarrow> cache_ok (sv_fibers sv w)"
proof (induction arbitrary: w rule: server_reachable.induct)
  case (new opts processors mgr sv)
  from new_server_fields [OF new] show ?case by (simp add: cache_ok_def new_fiber_cache_def)
next
  case (script sv p fn sv')
  then show ?case by (auto simp: server_add_route_def Let_def bind_result_Inr_iff split: prod.splits)
next
  case (directory sv fuel fs p dir sv')
  then show ?case
    by (auto simp: server_add_directory_route_def Let_def bind_result_Inr_iff split: option.splits prod.splits bool.splits)
next
  case (request sv target rt env v r r' sv')
  from call_route_fibers [OF request.hyps(3)] request.IH show ?case by (auto simp: cache_ok_run)
next
  case (job sv j v env r' sv')
  from run_job_keeps [OF job.hyps(3)] job.IH show ?case by simp
qed auto

text \<open>Files whose contents are as long as their recorded sizes.\<close>

definition files_complete :: "file_cache \<Rightarrow> bool" where
  "files_complete c \<longleftrightarrow>
     (\<forall>n f. m_file_map c n = Some f \<longrightarrow> m_size f \<le> length (File_Cache.m_data f)) \<and>
     (\<forall>w m n f. m_file_map_local c w = Some m \<longrightarrow> m n = Some f \<longrightarrow> m_size f \<le> length (File_Cache.m_data f))"

lemma get_file_complete:
  "files_complete c \<Longrightarrow> get_file w n c = (Some f, c') \<Longrightarrow> file_content f = Inr (take (m_size f) (File_Cache.m_data f))"
  by (auto simp: get_file_def get_file_main_def files_complete_def file_content_def split: option.splits)

lemma bump_both:
  assumes "full_ok sv" "has_kind (sv_registry sv) Meter_kind a" "has_kind (sv_registry sv) Meter_kind b"
  shows "\<exists>reg. bind_result (bump (Some a) sv) (bump (Some b)) = Inr (sv\<lparr>sv_registry := reg\<rparr>) \<and> grown (sv_registry sv) reg"
proof -
  from bump_ok [OF assms(2)] obtain reg1 where 1: "bump (Some a) sv = Inr (sv\<lparr>sv_registry := reg1\<rparr>)" "grown (sv_registry sv) reg1"
    by blast
  with assms(3) have "has_kind (sv_registry (sv\<lparr>sv_registry := reg1\<rparr>)) Meter_kind b" by (auto dest: grown_kind)
  from bump_ok [OF this] obtain reg2 where "bump (Some b) (sv\<lparr>sv_registry := reg1\<rparr>) = Inr (sv\<lparr>sv_registry := reg2\<rparr>)" "grown reg1 reg2"
    by auto
  with 1 show ?thesis by (auto intro: grown_trans)
qed

lemma bind_result_assoc: "bind_result (bind_result x f) g = bind_result x (\<lambda>y. bind_result (f y) g)"
  by (cases x) simp_all

lemma script_handler_runs:
  assumes "full_ok sv" "route_ok (sv_registry sv) (Script_route fn req err tmr)" "he_fiber_error env = None"
    and "m_method r \<in> {GET, POST}"
  shows "\<exists>d reg. script_handler env w fn req err tmr r sv = Inr (r, sv\<lparr>sv_registry := reg,
    sv_fibers := (sv_fibers sv)(w := Fibers.run (Job fn r d err) (sv_fibers sv w))\<rparr>)"
proof -
  from bump_both [OF assms(1) server_ok_addresses(1) [OF assms(1)]] assms(2) obtain reg where
    "bind_result (bump (Some (sv_metric_requests sv)) sv) (bump (Some req)) = Inr (sv\<lparr>sv_registry := reg\<rparr>)"
    by auto
  with assms(3,4) show ?thesis
    by (intro exI [of _ "start_times (he_rnd env) (he_start env) tmr (sv\<lparr>sv_registry := reg\<rparr>)"] exI [of _ reg])
       (auto simp: script_handler_def bind_result_Inr_iff Let_def)
qed

lemma directory_handler_answers:
  assumes "full_ok sv" "route_ok (sv_registry sv) (Directory_route p dir req err tmr)" "files_complete (sv_files sv)"
    and "unanswered r" "prefix p (Request.path r)" "Request.path r \<noteq> []"
  shows "\<exists>r' sv'. directory_handler env w p dir req err tmr r sv = Inr (r', sv') \<and>
    answer r' =
      (case (if m_method r = GET \<and> last (Request.path r) \<noteq> CHR ''/''
             then fst (get_file w (dir @ drop (length p) (Request.path r)) (sv_files sv)) else None) of
         Some f \<Rightarrow> Some (200, final_headers (m_mode r) (response_headers r) (take (m_size f) (File_Cache.m_data f)),
                         response_body r @ take (m_size f) (File_Cache.m_data f))
       | None \<Rightarrow> Some (404, final_headers (m_mode r) (response_headers r) '''', response_body r))"
proof (cases "m_method r = GET")
  case False
  have "has_kind (sv_registry sv) Meter_kind err" using assms(2) by simp
  from fail_with_ok [OF _ this assms(4), of 404] assms(1) obtain r' reg where
    "fail_with 404 err r sv = Inr (r', sv\<lparr>sv_registry := reg\<rparr>)"
    "answer r' = Some (404, final_headers (m_mode r) (response_headers r) '''', response_body r)"
    by (auto simp: full_ok_def)
  with False show ?thesis by (intro exI conjI) (simp_all add: directory_handler_def)
next
  case True
  let ?d = "start_times (he_rnd env) (he_start env) tmr sv"
  let ?last = "last (Request.path r) = CHR ''/''"
  let ?got = "get_file w (dir @ drop (length p) (Request.path r)) (sv_files sv)"
  have len: "\<not> length (Request.path r) < length p" using assms(5) by (simp add: prefix_length_le not_less)
  have find: "find_static_file w dir p (Request.path r) (sv_files sv) = Inr (if ?last then (None, sv_files sv) else ?got)"
    using assms(6) len by (simp add: find_static_file_def)
  obtain f c where fc: "(if ?last then (None, sv_files sv) else ?got) = (f, c)" by fastforce
  let ?sv = "sv\<lparr>sv_files := c\<rparr>"
  have ok: "full_ok ?sv" using full_ok_others(2) [OF assms(1)] .
  have d: "times_ok (sv_registry sv) ?d"
    using server_ok_addresses(3) [OF assms(1)] assms(2) by (intro times_ok_start) simp_all
  show ?thesis
  proof (cases f)
    case None
    have e: "full_ok (end_times (he_end env) ?d ?sv)" using ok d by (intro full_ok_end) simp_all
    from end_times_ok [of ?d ?sv "he_end env"] d obtain reg where
      reg: "end_times (he_end env) ?d ?sv = ?sv\<lparr>sv_registry := reg\<rparr>" "grown (sv_registry sv) reg"
      by (auto simp: times_ok_def)
    then have "has_kind (sv_registry (end_times (he_end env) ?d ?sv)) Meter_kind err"
      using assms(2) by (auto dest: grown_kind)
    from fail_with_ok [OF _ this assms(4), of 404] e obtain r' sv' where
      "fail_with 404 err r (end_times (he_end env) ?d ?sv) = Inr (r', sv')"
      "answer r' = Some (404, final_headers (m_mode r) (response_headers r) '''', response_body r)"
      by (auto simp: full_ok_def)
    with True find fc None show ?thesis
      by (intro exI [of _ r'] exI [of _ sv']) (auto simp: directory_handler_def Let_def split: if_splits)
  next
    case (Some cf)
    with fc have got: "\<not> ?last" "?got = (Some cf, c)" by (auto split: if_splits)
    let ?cont = "take (m_size cf) (File_Cache.m_data cf)"
    from get_file_complete [OF assms(3) got(2)] have cont: "file_content cf = Inr ?cont" .
    from send_answers [OF assms(4), of 200 ?cont] obtain r' where
      r': "send_response 200 ?cont r = Inr r'"
        "answer r' = Some (200, final_headers (m_mode r) (response_headers r) ?cont, response_body r @ ?cont)"
      by auto
    from bump_both [OF ok server_ok_addresses(1) [OF ok], of req] assms(2) obtain reg where
      "bind_result (bump (Some (sv_metric_requests ?sv)) ?sv) (bump (Some req)) = Inr (?sv\<lparr>sv_registry := reg\<rparr>)"
      by auto
    then have "directory_handler env w p dir req err tmr r sv = Inr (r', end_times (he_end env) ?d (?sv\<lparr>sv_registry := reg\<rparr>))"
      using True find fc Some cont r'(1)
      by (auto simp: directory_handler_def Let_def bind_result_Inr_iff)
    with r'(2) True got show ?thesis by (intro exI conjI) auto
  qed
qed

section \<open>Properties of the handlers\<close>

lemma call_route_handles:
  assumes "server_reachable sv" "find_route (sv_router sv) target = f" "prefix target (Request.path r)"
    and "unanswered r" "m_method r \<in> {GET, POST}" "he_fiber_error env = None" "files_complete (sv_files sv)"
  shows "\<exists>rt r' sv'. f = Some rt \<and> call_route env w rt r sv = Inr (r', sv') \<and> server_reachable sv' \<and>
     (case rt of
        Script_route fn req err tmr \<Rightarrow>
          r' = r \<and> (\<exists>d. sv_fibers sv' w = Fibers.run (Job fn r d err) (sv_fibers sv w))
      | Directory_route p dir req err tmr \<Rightarrow>
          answer r' =
            (case (if m_method r = GET \<and> last (Request.path r) \<noteq> CHR ''/''
                   then fst (get_file w (dir @ drop (length p) (Request.path r)) (sv_files sv)) else None) of
               Some cf \<Rightarrow> Some (200, final_headers (m_mode r) (response_headers r) (take (m_size cf) (File_Cache.m_data cf)),
                               response_body r @ take (m_size cf) (File_Cache.m_data cf))
             | None \<Rightarrow> Some (404, final_headers (m_mode r) (response_headers r) '''', response_body r))
      | Not_found \<Rightarrow> answer r' = Some (404, final_headers (m_mode r) (response_headers r) '''', response_body r))"
proof -
  from reachable_full_ok [OF assms(1)] have ok: "full_ok sv" .
  from find_route_ok [OF ok assms(2)] obtain rt where rt: "f = Some rt" "route_ok (sv_registry sv) rt"
    "rt = Not_found \<or> (\<exists>q. prefix q target \<and> route_at q rt \<and> path_set_entry (m_set (sv_router sv)) q = Some f)"
    by blast
  have reach: "server_reachable sv'" if "call_route env w rt r sv = Inr (r', sv')" for r' sv'
    using server_reachable.request [OF assms(1) _ that, of target] assms(2) rt(1) by simp
  show ?thesis
  proof (cases rt)
    case Not_found
    from send_answers [OF assms(4), of 404 "''''"] obtain r' where
      "send_error_response 404 r = Inr r'"
      "answer r' = Some (404, final_headers (m_mode r) (response_headers r) '''', response_body r)"
      by (auto simp: send_error_response_def)
    with Not_found rt(1) reach show ?thesis
      by (intro exI [of _ rt] exI [of _ r'] exI [of _ sv]) (simp add: call_route_def)
  next
    case (Script_route fn req err tmr)
    with script_handler_runs [OF ok _ assms(6,5), of fn req err tmr w] rt(2) obtain d reg where
      c: "call_route env w rt r sv = Inr (r, sv\<lparr>sv_registry := reg,
        sv_fibers := (sv_fibers sv)(w := Fibers.run (Job fn r d err) (sv_fibers sv w))\<rparr>)"
      by (auto simp: call_route_def)
    from c reach [OF c] Script_route rt(1) show ?thesis
      by (intro exI [of _ rt] exI [of _ r] exI) auto
  next
    case (Directory_route p dir req err tmr)
    with rt(3) obtain q where q: "prefix q target" "q = p" "path_set_entry (m_set (sv_router sv)) q = Some f" by auto
    then have "p \<noteq> []" by (metis option.distinct(1) path_set_entry_Nil)
    moreover have "prefix p (Request.path r)" using q assms(3) prefix_order.trans by blast
    ultimately have "prefix p (Request.path r)" "Request.path r \<noteq> []" by auto
    from directory_handler_answers [OF ok _ assms(7,4) this, of dir req err tmr env w] rt(2) Directory_route
    obtain r' sv' where "directory_handler env w p dir req err tmr r sv = Inr (r', sv')" and
      a: "answer r' = (case (if m_method r = GET \<and> last (Request.path r) \<noteq> CHR ''/''
             then fst (get_file w (dir @ drop (length p) (Request.path r)) (sv_files sv)) else None) of
         Some f \<Rightarrow> Some (200, final_headers (m_mode r) (response_headers r) (take (m_size f) (File_Cache.m_data f)),
                         response_body r @ take (m_size f) (File_Cache.m_data f))
       | None \<Rightarrow> Some (404, final_headers (m_mode r) (response_headers r) '''', response_body r))"
      by auto
    then have c: "call_route env w rt r sv = Inr (r', sv')" using Directory_route by (simp add: call_route_def)
    show ?thesis unfolding Directory_route route.case
      using c a reach [OF c] rt(1) Directory_route
      by (intro exI [of _ rt] exI [of _ r'] exI [of _ sv'] conjI) simp_all
  qed
qed


text \<open>
  C22. The server counts other methods through a pointer that is never set: on every reachable
  server, a request to a script that is neither GET nor POST dereferences null.
\<close>
theorem not_implemented_crashes:
  assumes "server_reachable sv" "find_route (sv_router sv) target = Some (Script_route fn req err tmr)"
    and "m_method r = OTHER"
  shows "call_route env w (Script_route fn req err tmr) r sv = Inl Null_dereference"
  using server_ok_addresses(4) [OF reachable_full_ok [OF assms(1)]] assms(3)
  by (simp add: call_route_def script_handler_def bump_def)


section \<open>A sample server\<close>

definition get_request :: request where
  "get_request = fst (make_http_request
     ((new_session_request \<lparr>ep_address = ''::1'', ep_is_v4 = False\<rparr>)\<lparr>sr_method := ''GET'', sr_path := ''/x''\<rparr>)
     (new_sched 0 :: nat sched))"

lemma get_request_facts:
  "unanswered get_request" "m_method get_request = GET" "headers_size get_request = 0"
  "cookie_table get_request = Inr None" "Request.path get_request = ''/x''" "m_mode get_request = HTTP"
  "response_body get_request = ''''"
  by (simp_all add: get_request_def make_http_request_def unanswered_def headers_size_def cookie_table_def
      header_exists_def find_key_def Request.path_def m_mode_def response_body_def new_session_request_def
      new_response_def method_string_def)

lemma sample_new_server: "\<exists>sv. new_server sample_opts 4 (new_state_manager False [] []) = Inr sv"
proof -
  obtain reg where reg: "new_registry sample_opts = Inr reg" using new_registry_sample by blast
  have "as_int sample_opts ''server.workers'' = Inr 1"
    by (rule sample_opts_int) (simp_all add: desc_all_def desc_file_def desc_help_def desc_srv_def)
  then have "num_workers sample_opts 4 = Inr 1" by (simp add: num_workers_def get_int_def)
  with reg show ?thesis by (simp add: new_server_def Let_def split: prod.split)
qed

lemma sample_server:
  "\<exists>sv req err tmr. server_reachable sv \<and> find_route (sv_router sv) ''/x'' = Some (Script_route ''f'' req err tmr) \<and>
     err \<noteq> sv_metric_errors sv \<and> req \<noteq> sv_metric_requests sv \<and> sv_states sv = new_state_manager False [] [] \<and> sv_stacks sv = (\<lambda>a. []) \<and>
     sv_files sv = new_file_cache \<and> sv_fibers sv = (\<lambda>w. new_fiber_cache)"
proof -
  obtain sv0 where new: "new_server sample_opts 4 (new_state_manager False [] []) = Inr sv0"
    using sample_new_server by blast
  note ok = new_server_fields [OF new]
  then have f: "sv_router sv0 = new_router Not_found" "sv_states sv0 = new_state_manager False [] []"
    "sv_stacks sv0 = (\<lambda>a. [])" "sv_files sv0 = new_file_cache" "sv_fibers sv0 = (\<lambda>w. new_fiber_cache)"
    by simp_all
  obtain a1 r1 where 1: "register_metric Meter_kind (''requests_'' @ ''f'') (sv_registry sv0) = (a1, r1)" by fastforce
  obtain a2 r2 where 2: "register_metric Meter_kind (''errors_'' @ ''f'') r1 = (a2, r2)" by fastforce
  obtain a3 r3 where 3: "register_metric Timer_kind (''times_'' @ ''f'') r2 = (a3, r3)" by fastforce
  have "is_ok (Router.add_route (new_router Not_found) ''/'' (Some (Script_route ''f'' a1 a2 a3)))"
    by (simp add: Router.add_route_def new_router_def Let_def)
  then obtain rt where rt: "Router.add_route (sv_router sv0) ''/'' (Some (Script_route ''f'' a1 a2 a3)) = Inr rt"
    by (auto simp: f is_ok_iff)
  let ?sv = "sv0\<lparr>sv_registry := r3, sv_router := rt, sv_num_routes := sv_num_routes sv0 + 1\<rparr>"
  have add: "server_add_route ''/'' ''f'' sv0 = Inr ?sv"
    unfolding server_add_route_def Let_def 1 2 3 prod.case using rt by simp
  have "find_route rt ''/x'' = Some (Script_route ''f'' a1 a2 a3)"
    by (rule find_route_after_add [OF rt]) (simp_all add: f new_router_def path_set_entry_new)
  moreover have "a2 \<noteq> sv_metric_errors sv0"
  proof -
    have e: "has_kind (sv_registry sv0) Meter_kind (sv_metric_errors sv0)"
      using ok by (simp add: server_ok_def registry_ok_def)
    have n: "m_metrics (sv_registry sv0) (''requests_'' @ ''f'') = None"
      "m_metrics (sv_registry sv0) (''errors_'' @ ''f'') = None" using ok by simp_all
    from register_metric_fresh [OF 1 n(1)] n(2) have "m_metrics r1 (''errors_'' @ ''f'') = None" by simp
    from register_metric_fresh(1) [OF 2 this] have "a2 = length (heap r1)" .
    moreover have "length (heap (sv_registry sv0)) \<le> length (heap r1)"
      using 1 by (auto simp: register_metric_def Let_def split: option.splits)
    ultimately show ?thesis using e by (simp add: has_kind_def)
  qed
  moreover have "a1 \<noteq> sv_metric_requests sv0"
  proof -
    have "m_metrics (sv_registry sv0) (''requests_'' @ ''f'') = None" using ok by simp
    from register_metric_fresh(1) [OF 1 this] have "a1 = length (heap (sv_registry sv0))" .
    moreover have "has_kind (sv_registry sv0) Meter_kind (sv_metric_requests sv0)"
      using ok by (simp add: server_ok_def registry_ok_def)
    ultimately show ?thesis by (simp add: has_kind_def)
  qed
  ultimately show ?thesis
    using server_reachable.script [OF server_reachable.new [OF new] add] f
    by (intro exI [of _ ?sv] exI [of _ a1] exI [of _ a2] exI [of _ a3]) simp
qed

definition sample_handler_env :: handler_env where
  "sample_handler_env = \<lparr>he_lua = sample_env, he_scripts = (\<lambda>a. array_script), he_fuel = 2, he_time = 0,
     he_start = 0, he_end = 0, he_rnd = 50, he_fiber_error = None\<rparr>"

lemma sample_files_complete: "files_complete new_file_cache"
  by (simp add: files_complete_def new_file_cache_def)


theorem not_implemented_crashes_witness:
  "\<exists>sv rt. server_reachable sv \<and> find_route (sv_router sv) ''/x'' = Some rt \<and>
     call_route sample_handler_env 0 rt sample_request sv = Inl Null_dereference"
proof -
  obtain sv req err tmr where sv: "server_reachable sv"
    "find_route (sv_router sv) ''/x'' = Some (Script_route ''f'' req err tmr)"
    using sample_server by blast
  have "m_method sample_request = OTHER"
    by (simp add: sample_request_def add_header_adds make_http_request_def method_string_def new_session_request_def)
  from not_implemented_crashes [OF sv this] sv show ?thesis by blast
qed

lemma array_script_fails:
  assumes "headers_size r < 2" "cookie_table r = Inr None"
  shows "\<exists>m. handle_request sample_env (\<lambda>a. array_script) 2 0 w ''f'' r (new_state_manager False [] []) (\<lambda>a. []) =
     Some (Inl (Runtime_error ''repsonse is no table ''), r, m, \<lambda>a. [])"
proof -
  obtain m1 where g: "get_state sample_env w (new_state_manager False [] []) = (Inr 0, m1)"
    by (simp add: get_state_def take_state_def vector_take_def new_state_manager_def create_state_def
        sample_env_def Let_def load_code_from_scripts_def load_code_from_strings_def)
  have "call_handler array_script 2 0 ''f'' r [] = Some (r, Inr [Nil])"
    by (intro call_handler_returns [OF assms]) (simp_all add: array_script_def)
  then show ?thesis
    by (simp add: handle_request_def g run_handler_def and_then_def read_status_def log_throw_def)
qed


text \<open>
  C7. What a reachable server's handlers hold is well typed: every request path leads to a handler
  (no empty function is called), its captured metrics are registered objects of the classes it
  uses them as, a directory's handler is only found for paths below its own, and the same holds
  of the metrics of every job that waits for a fiber.
\<close>
theorem handlers_well_typed:
  assumes "server_reachable sv"
  shows "(\<exists>rt. find_route (sv_router sv) target = Some rt \<and>
      (case rt of
         Not_found \<Rightarrow> True
       | Script_route fn req err tmr \<Rightarrow>
           has_kind (sv_registry sv) Meter_kind req \<and> has_kind (sv_registry sv) Meter_kind err \<and>
           has_kind (sv_registry sv) Timer_kind tmr
       | Directory_route p dir req err tmr \<Rightarrow> prefix p target \<and>
           has_kind (sv_registry sv) Meter_kind req \<and> has_kind (sv_registry sv) Meter_kind err \<and>
           has_kind (sv_registry sv) Timer_kind tmr)) \<and>
    (\<forall>w fn r d err. Job fn r d err \<in># pending (sv_fibers sv w) \<longrightarrow>
       has_kind (sv_registry sv) Meter_kind err \<and>
       (\<forall>d' a. d = Some d' \<and> a \<in> set (m_timers d') \<longrightarrow> has_kind (sv_registry sv) Timer_kind a))"
proof -
  have ok: "full_ok sv" using assms by (rule reachable_full_ok)
  from find_route_ok [OF ok refl, of target] obtain rt where rt: "find_route (sv_router sv) target = Some rt"
    "route_ok (sv_registry sv) rt" "rt = Not_found \<or> (\<exists>q. prefix q target \<and> route_at q rt)" by blast
  moreover have "job_ok (sv_registry sv) j" if "j \<in># pending (sv_fibers sv w)" for j w
    using ok that by (simp add: full_ok_def jobs_ok_def)
  ultimately show ?thesis by (cases rt) fastforce+
qed

theorem handlers_well_typed_witness:
  "\<exists>sv fn req err tmr. server_reachable sv \<and>
     find_route (sv_router sv) ''/x'' = Some (Script_route fn req err tmr) \<and>
     has_kind (sv_registry sv) Meter_kind req \<and> has_kind (sv_registry sv) Timer_kind tmr"
proof -
  obtain sv req err tmr where sv: "server_reachable sv"
    "find_route (sv_router sv) ''/x'' = Some (Script_route ''f'' req err tmr)"
    using sample_server by blast
  from handlers_well_typed [OF sv(1), of "''/x''"] sv show ?thesis by auto
qed

section \<open>From the route to the answer\<close>

lemma bump_both_ticks:
  assumes "has_kind (sv_registry sv) Meter_kind a" "has_kind (sv_registry sv) Meter_kind b" "a \<noteq> b"
  shows "\<exists>reg. bind_result (bump (Some a) sv) (bump (Some b)) = Inr (sv\<lparr>sv_registry := reg\<rparr>) \<and>
    grown (sv_registry sv) reg \<and>
    (\<forall>x. ticks x (sv\<lparr>sv_registry := reg\<rparr>) = (if x \<in> {a, b} then ticks x sv + 1 else ticks x sv))"
proof -
  from bump_ok [OF assms(1)] obtain reg1 where 1: "bump (Some a) sv = Inr (sv\<lparr>sv_registry := reg1\<rparr>)"
    "grown (sv_registry sv) reg1"
    "\<forall>x. ticks x (sv\<lparr>sv_registry := reg1\<rparr>) = (if x = a then ticks x sv + 1 else ticks x sv)" by blast
  with assms(2) have "has_kind (sv_registry (sv\<lparr>sv_registry := reg1\<rparr>)) Meter_kind b" by (auto dest: grown_kind)
  from bump_ok [OF this] obtain reg2 where "bump (Some b) (sv\<lparr>sv_registry := reg1\<rparr>) = Inr (sv\<lparr>sv_registry := reg2\<rparr>)"
    "grown reg1 reg2"
    "\<forall>x. ticks x (sv\<lparr>sv_registry := reg2\<rparr>) = (if x = b then ticks x (sv\<lparr>sv_registry := reg1\<rparr>) + 1 else ticks x (sv\<lparr>sv_registry := reg1\<rparr>))"
    by auto
  with 1 assms(3) show ?thesis by (intro exI [of _ reg2]) (auto intro: grown_trans)
qed

text \<open>
  C3. A request to a script, from the route to the answer: on every reachable server a GET or POST
  whose script returns a usable response is handed to a fiber and, when the job runs, answered with
  the script's status, headers and content; the Lua state goes back to its cache with the stack it
  had, the request is counted once for the server and once for the route, and no other meter moves.
\<close>
theorem script_request_answered:
  assumes "server_reachable sv" "find_route (sv_router sv) target = Some (Script_route fn req err tmr)"
    and "unanswered r" "m_method r \<in> {GET, POST}" "he_fiber_error env = None" "req \<noteq> sv_metric_requests sv"
    and "get_state (he_lua env) w (sv_states sv) = (Inr a, m1)"
    and "headers_size r < he_fuel env" "cookie_table r = Inr c"
    and "lua_isfunction (global (he_scripts env a) (c_str fn))"
    and "call (he_scripts env a) (global (he_scripts env a) (c_str fn))
      [Table (request_table (he_time env) r c), default_response] = Inr (Table t)"
    and "usable (he_scripts env a) t status hs cont" "header_count t < he_fuel env" "0 \<le> status"
  shows "\<exists>d sv1 r' sv2. call_route env w (Script_route fn req err tmr) r sv = Inr (r, sv1) \<and>
    sv_fibers sv1 w = Fibers.run (Job fn r d err) (sv_fibers sv w) \<and>
    run_job env w (Job fn r d err) sv1 = Some (Inr (r', sv2)) \<and> server_reachable sv2 \<and>
    answer r' = Some (status, final_headers (m_mode r) (response_headers r + mset hs) cont, response_body r @ cont) \<and>
    sv_states sv2 = free_state w a m1 \<and> sv_stacks sv2 = sv_stacks sv \<and>
    (\<forall>b. has_kind (sv_registry sv) Meter_kind b \<longrightarrow>
       ticks b sv2 = (if b \<in> {sv_metric_requests sv, req} then ticks b sv + 1 else ticks b sv))"
proof -
  from reachable_full_ok [OF assms(1)] have ok: "full_ok sv" .
  from find_route_ok [OF ok assms(2)] have k: "has_kind (sv_registry sv) Meter_kind req"
    "has_kind (sv_registry sv) Meter_kind err" "has_kind (sv_registry sv) Timer_kind tmr" by auto
  from bump_both_ticks [OF server_ok_addresses(1) [OF ok] k(1)] assms(6) obtain reg where
    reg: "bind_result (bump (Some (sv_metric_requests sv)) sv) (bump (Some req)) = Inr (sv\<lparr>sv_registry := reg\<rparr>)"
    "grown (sv_registry sv) reg"
    "\<forall>x. ticks x (sv\<lparr>sv_registry := reg\<rparr>) = (if x \<in> {sv_metric_requests sv, req} then ticks x sv + 1 else ticks x sv)"
    by auto
  define d where "d = start_times (he_rnd env) (he_start env) tmr (sv\<lparr>sv_registry := reg\<rparr>)"
  let ?sv1 = "sv\<lparr>sv_registry := reg, sv_fibers := (sv_fibers sv)(w := Fibers.run (Job fn r d err) (sv_fibers sv w))\<rparr>"
  have call: "call_route env w (Script_route fn req err tmr) r sv = Inr (r, ?sv1)"
    using reg(1) assms(4,5) by (auto simp: call_route_def script_handler_def bind_result_Inr_iff Let_def d_def)
  have reach1: "server_reachable ?sv1" by (rule server_reachable.request [OF assms(1,2) call])
  from handle_request_usable [where env = "he_lua env" and scripts = "he_scripts env" and fuel = "he_fuel env" and
      now = "he_time env" and w = w and fn = fn and r = r and m = "sv_states sv" and stacks = "sv_stacks sv",
      OF assms(7,3,8-14)] obtain r' where
    h: "handle_request (he_lua env) (he_scripts env) (he_fuel env) (he_time env) w fn r (sv_states sv) (sv_stacks sv) =
      Some (Inr (), r', free_state w a m1, sv_stacks sv)"
    "answer r' = Some (status, final_headers (m_mode r) (response_headers r + mset hs) cont, response_body r @ cont)"
    by blast
  let ?sv = "?sv1\<lparr>sv_states := free_state w a m1\<rparr>"
  have "has_kind (sv_registry sv) Timer_kind (sv_metric_times sv)" using server_ok_addresses(3) [OF ok] .
  then have "times_ok reg d" using k(3) grown_kind [OF reg(2)] times_ok_start [of "sv\<lparr>sv_registry := reg\<rparr>" tmr]
    unfolding d_def by simp
  then obtain reg2 where e: "end_times (he_end env) d ?sv = ?sv\<lparr>sv_registry := reg2\<rparr>" "grown reg reg2"
    "\<forall>b. has_kind reg Meter_kind b \<longrightarrow> ticks b (?sv\<lparr>sv_registry := reg2\<rparr>) = ticks b ?sv"
    using end_times_ok [of d ?sv "he_end env"] by (auto simp: times_ok_def)
  have "run_job env w (Job fn r d err) ?sv1 = Some (Inr (r', ?sv\<lparr>sv_registry := reg2\<rparr>))"
    using h(1) e(1) by simp
  moreover have "server_reachable (?sv\<lparr>sv_registry := reg2\<rparr>)"
    using server_reachable.metrics [OF server_reachable.others [OF reach1, where m = "free_state w a m1" and
      st = "sv_stacks sv" and c = "sv_files sv"], of reg2] e(2)
    by simp
  moreover have "ticks b (?sv\<lparr>sv_registry := reg2\<rparr>) = (if b \<in> {sv_metric_requests sv, req} then ticks b sv + 1 else ticks b sv)"
    if "has_kind (sv_registry sv) Meter_kind b" for b
  proof -
    have "ticks b (?sv\<lparr>sv_registry := reg2\<rparr>) = ticks b ?sv" using e(3) grown_kind [OF reg(2) that] by blast
    also have "\<dots> = ticks b (sv\<lparr>sv_registry := reg\<rparr>)" by (simp add: ticks_def)
    finally show ?thesis using reg(3) by simp
  qed
  ultimately show ?thesis using call h(2)
    by (intro exI [of _ d] exI [of _ ?sv1] exI [of _ r'] exI [of _ "?sv\<lparr>sv_registry := reg2\<rparr>"]) simp
qed

theorem script_request_answered_witness:
  "\<exists>sv req err tmr d sv1 r' sv2. server_reachable sv \<and>
     call_route (sample_handler_env\<lparr>he_scripts := \<lambda>a. sample_script\<rparr>) 0 (Script_route ''f'' req err tmr) get_request sv =
       Inr (get_request, sv1) \<and>
     run_job (sample_handler_env\<lparr>he_scripts := \<lambda>a. sample_script\<rparr>) 0 (Job ''f'' get_request d err) sv1 = Some (Inr (r', sv2)) \<and>
     fst (the (answer r')) = 201 \<and> snd (snd (the (answer r'))) = ''hi'' \<and> ticks req sv2 = ticks req sv + 1"
proof -
  let ?env = "sample_handler_env\<lparr>he_scripts := \<lambda>a. sample_script\<rparr>"
  obtain sv req err tmr where sv: "server_reachable sv"
    "find_route (sv_router sv) ''/x'' = Some (Script_route ''f'' req err tmr)" "req \<noteq> sv_metric_requests sv"
    "sv_states sv = new_state_manager False [] []"
    using sample_server by blast
  have k: "has_kind (sv_registry sv) Meter_kind req"
    using find_route_ok [OF reachable_full_ok [OF sv(1)] sv(2)] by auto
  let ?t = "[(Str ''status'', Number 201), (Str ''content'', Str ''hi''), (Str ''headers'', Table [(Str ''k'', Str ''v'')])]"
  obtain a m1 where g: "get_state (he_lua ?env) 0 (sv_states sv) = (Inr a, m1)"
    by (simp add: sv(4) get_state_def take_state_def vector_take_def new_state_manager_def create_state_def
        sample_handler_env_def sample_env_def Let_def load_code_from_scripts_def load_code_from_strings_def)
  have m: "m_method get_request \<in> {GET, POST}" "he_fiber_error ?env = None" "headers_size get_request < he_fuel ?env"
    by (simp_all add: get_request_facts sample_handler_env_def)
  have c: "lua_isfunction (global (he_scripts ?env a) (c_str ''f''))"
    "call (he_scripts ?env a) (global (he_scripts ?env a) (c_str ''f'')) args = Inr (Table ?t)" for args
    by (simp_all add: sample_script_def)
  have us: "usable (he_scripts ?env a) ?t 201 [(''k'', ''v'')] ''hi''" "header_count ?t < he_fuel ?env"
    by (simp_all add: usable_def header_count_def raw_get_def sample_script_def to_c_int_def trunc_def
        walkable_def string_headers_def map_filter_simps c_str_def sample_handler_env_def)
  have "(0::int) \<le> 201" by simp
  from script_request_answered [OF sv(1,2) get_request_facts(1) m(1,2) sv(3) g m(3) get_request_facts(4) c us this]
  obtain d sv1 r' sv2 where "call_route ?env 0 (Script_route ''f'' req err tmr) get_request sv = Inr (get_request, sv1)"
    "run_job ?env 0 (Job ''f'' get_request d err) sv1 = Some (Inr (r', sv2))"
    "answer r' = Some (201, final_headers (m_mode get_request) (response_headers get_request + mset [(''k'', ''v'')]) ''hi'',
      response_body get_request @ ''hi'')"
    "\<forall>b. has_kind (sv_registry sv) Meter_kind b \<longrightarrow>
       ticks b sv2 = (if b \<in> {sv_metric_requests sv, req} then ticks b sv + 1 else ticks b sv)" by blast
  with k sv(1) get_request_facts(7) show ?thesis
    by (intro exI [of _ sv] exI [of _ req] exI [of _ err] exI [of _ tmr] exI [of _ d] exI [of _ sv1] exI [of _ r'] exI [of _ sv2]) simp
qed

end
