(* ===== verification/Server_Start.thy ===== *)
theory Server_Start
  imports Server
begin

text \<open>
  Bringing the server up and down (\<open>src/core/server_impl.cpp\<close>): \<open>init\<close> with the bootstrap script,
  \<open>start\<close> with the acceptors of HTTP/1 or the HTTP/2 library's server, the registration of the
  worker threads with the caches, \<open>stop\<close> and \<open>join\<close>; and the entry of HTTP/2 requests, with
  the collection of a POST's content.
\<close>

section \<open>HTTP/2 requests\<close>

text \<open>\<open>http2_content_buffer_type\<close>: a vector, with its capacity.\<close>

record buffer =
  buf_data :: string
  buf_capacity :: nat

definition new_buffer :: buffer where
  "new_buffer = \<lparr>buf_data = '''', buf_capacity = 0\<rparr>"

definition receive_chunk :: "string \<Rightarrow> buffer \<Rightarrow> buffer" where
  "receive_chunk data buf =
     (let buf = (if buf_capacity buf - length (buf_data buf) < length data
                 then buf\<lparr>buf_capacity := buf_capacity buf + length data + 1024\<rparr> else buf) in
      buf\<lparr>buf_data := buf_data buf @ data\<rparr>)"

definition http2_route :: "handler_env \<Rightarrow> nat \<Rightarrow> http2_request \<Rightarrow> string option \<Rightarrow> server \<Rightarrow> (request \<times> server) result" where
  "http2_route env w req cont sv =
     (case find_route (sv_router sv) (h2_raw_path req) of
        None \<Rightarrow> Inl Bad_function_call
      | Some rt \<Rightarrow> call_route env w rt (fst (make_http2_request req cont (new_sched 0 :: nat sched))) sv)"

text \<open>The data handler, called for every chunk and with no data at the end.\<close>

fun http2_upload :: "handler_env \<Rightarrow> nat \<Rightarrow> http2_request \<Rightarrow> buffer \<Rightarrow> string list \<Rightarrow> server \<Rightarrow>
    (request list \<times> server) result" where
  "http2_upload env w req buf [] sv = Inr ([], sv)"
| "http2_upload env w req buf (data # chunks) sv =
     (if length data = 0 then
        bind_result (http2_route env w req (Some (buf_data buf)) sv) (\<lambda>(r, sv).
        bind_result (http2_upload env w req buf chunks sv) (\<lambda>(rs, sv). Inr (r # rs, sv)))
      else http2_upload env w req (receive_chunk data buf) chunks sv)"

text \<open>The handler installed for every path; \<open>chunks\<close> is what the client sends for a POST.\<close>

definition http2_handle :: "handler_env \<Rightarrow> nat \<Rightarrow> http2_request \<Rightarrow> string list \<Rightarrow> server \<Rightarrow> (request list \<times> server) result" where
  "http2_handle env w req chunks sv =
     (if h2_method req = ''GET'' then
        bind_result (http2_route env w req None sv) (\<lambda>(r, sv). Inr ([r], sv))
      else if h2_method req = ''POST'' then http2_upload env w req new_buffer chunks sv
      else
        bind_result (bump (sv_metric_not_impl sv) sv) (\<lambda>sv.
        bind_result (send_error_response 501 (fst (make_http2_request req None (new_sched 0 :: nat sched)))) (\<lambda>r.
          Inr ([r], sv))))"

section \<open>Threads and caches\<close>

definition register_thread :: "nat \<Rightarrow> server \<Rightarrow> server" where
  "register_thread w sv =
     sv\<lparr>sv_states := register_worker w (sv_states sv),
        sv_files := register_io_service w (sv_files sv)\<rparr>"

text \<open>The handlers this posts to the thread for the Lua states and the fibers.\<close>

definition run_registration :: "nat \<Rightarrow> server \<Rightarrow> server" where
  "run_registration w sv =
     sv\<lparr>sv_states := make_local_cache w (sv_states sv),
        sv_fibers := (sv_fibers sv)(w := register_cache (sv_fibers sv w))\<rparr>"

text \<open>The threads: those of the HTTP/2 library's server (\<open>io\<close>), or the workers.\<close>

definition server_threads :: "variables_map \<Rightarrow> nat list \<Rightarrow> server \<Rightarrow> nat list" where
  "server_threads opts io sv = (if \<not> is_set opts ''server.http1'' then io else [0..<length (sv_workers sv)])"

definition register_io_services :: "variables_map \<Rightarrow> nat list \<Rightarrow> server \<Rightarrow> server" where
  "register_io_services opts io sv = fold register_thread (server_threads opts io sv) sv"

text \<open>Unregistering waits for the fibers of the thread to finish, which is \<open>None\<close> while they run.\<close>

definition unregister_thread :: "nat \<Rightarrow> server \<Rightarrow> server result option" where
  "unregister_thread w sv =
     (case unregister_worker w (sv_states sv) of Inl e \<Rightarrow> Some (Inl e)
      | Inr m \<Rightarrow>
     (case unregister_io_service w (sv_files sv) of Inl e \<Rightarrow> Some (Inl e)
      | Inr c \<Rightarrow>
     (let fc = cache_stop (sv_fibers sv w) in
      case no_active_fctx fc of
        Inl e \<Rightarrow> Some (Inl e)
      | Inr False \<Rightarrow> None
      | Inr True \<Rightarrow>
          Some (bind_result (cache_cleanup fc) (\<lambda>fc.
            Inr (sv\<lparr>sv_states := m, sv_files := c, sv_fibers := (sv_fibers sv)(w := fc)\<rparr>))))))"

fun unregister_io_services :: "nat list \<Rightarrow> server \<Rightarrow> server result option" where
  "unregister_io_services [] sv = Some (Inr sv)"
| "unregister_io_services (w # ws) sv =
     (case unregister_thread w sv of
        None \<Rightarrow> None
      | Some (Inl e) \<Rightarrow> Some (Inl e)
      | Some (Inr sv) \<Rightarrow> unregister_io_services ws sv)"

section \<open>Starting\<close>

text \<open>
  One endpoint after the other on the next worker; the last error is kept. What the resolver
  found are the operations on its endpoints.
\<close>

fun listen_all :: "variables_map \<Rightarrow> endpoint_ops list \<Rightarrow> nat \<Rightarrow> bool \<Rightarrow> server \<Rightarrow> (nat \<times> bool \<times> server) result" where
  "listen_all opts [] ec success sv = Inr (ec, success, sv)"
| "listen_all opts (eo # eos) ec success sv =
     (case get_worker (sv_next_worker sv) [0..<length (sv_workers sv)] of
        (Inl e, next) \<Rightarrow> Inl e
      | (Inr i, next) \<Rightarrow>
          bind_result (add_endpoint eo opts (sv_workers sv ! i)) (\<lambda>(ec_local, wk).
            let sv = sv\<lparr>sv_next_worker := next, sv_workers := (sv_workers sv)[i := wk]\<rparr> in
            case ec_local of
              Some c \<Rightarrow> listen_all opts eos c success sv
            | None \<Rightarrow> listen_all opts eos ec True sv))"

definition start_http :: "variables_map \<Rightarrow> (string \<Rightarrow> string \<Rightarrow> endpoint_ops list result) \<Rightarrow> (nat \<Rightarrow> string) \<Rightarrow>
    server \<Rightarrow> server result" where
  "start_http opts resolve message sv =
     bind_result (get_string opts ''server.listen'' '''') (\<lambda>listen.
     bind_result (get_string opts ''server.port'' '''') (\<lambda>port.
     bind_result (resolve listen port) (\<lambda>eps.
     bind_result (listen_all opts eps 0 False sv) (\<lambda>(ec, success, sv).
       if \<not> success then Inl (Runtime_error (message ec))
       else
         (let sv = sv\<lparr>sv_workers := map worker_run (sv_workers sv)\<rparr>;
              sv = register_io_services opts [] sv in
          Inr (sv\<lparr>sv_stop_func := Workers_func, sv_join_func := Workers_func\<rparr>))))))"

text \<open>\<open>listen_and_serve\<close> returns its error code if there is one; \<open>io\<close> are the threads it has started.\<close>

definition run_http2_server :: "variables_map \<Rightarrow> (string \<Rightarrow> string \<Rightarrow> nat option) \<Rightarrow> (nat \<Rightarrow> string) \<Rightarrow> nat list \<Rightarrow>
    server \<Rightarrow> server result" where
  "run_http2_server opts serve message io sv =
     bind_result (get_string opts ''server.listen'' '''') (\<lambda>listen.
     bind_result (get_string opts ''server.port'' '''') (\<lambda>port.
       case serve listen port of
         Some ec \<Rightarrow> Inl (Runtime_error (message ec))
       | None \<Rightarrow>
           Inr ((register_io_services opts io sv)\<lparr>sv_stop_func := Http2_func, sv_join_func := Http2_func\<rparr>)))"

text \<open>The TLS library: loading the key and the certificate may throw, configuring yields an error code.\<close>

record tls_ops =
  to_key :: "string \<Rightarrow> unit result"
  to_crt :: "string \<Rightarrow> unit result"
  to_configure :: nat

definition run_http2_tls_server :: "variables_map \<Rightarrow> tls_ops \<Rightarrow> (string \<Rightarrow> string \<Rightarrow> nat option) \<Rightarrow> (nat \<Rightarrow> string) \<Rightarrow>
    nat list \<Rightarrow> server \<Rightarrow> server result" where
  "run_http2_tls_server opts tls serve message io sv =
     (if \<not> is_set opts ''server.key-file'' then
        Inl (Invalid_argument ''You have to specify a private key file (--server.key-file) to use SSL/TLS.'')
      else bind_result (get_string opts ''server.key-file'' '''') (\<lambda>key.
        if \<not> is_set opts ''server.crt-file'' then
          Inl (Invalid_argument ''You have to specify a certificate file (--server.crt-file) to use SSL/TLS.'')
        else bind_result (get_string opts ''server.crt-file'' '''') (\<lambda>crt.
          bind_result (to_key tls key) (\<lambda>_.
          bind_result (to_crt tls crt) (\<lambda>_.
            if to_configure tls \<noteq> 0 then Inl (Runtime_error (message (to_configure tls)))
            else run_http2_server opts serve message io sv)))))"

text \<open>\<open>start_http2\<close>, whose handler is \<open>http2_handle\<close>, and \<open>start\<close>.\<close>

record outside =
  os_resolve :: "string \<Rightarrow> string \<Rightarrow> endpoint_ops list result"
  os_message :: "nat \<Rightarrow> string"
  os_serve :: "string \<Rightarrow> string \<Rightarrow> nat option"
  os_serve_tls :: "string \<Rightarrow> string \<Rightarrow> nat option"
  os_tls :: tls_ops
  os_threads :: "nat list"

definition start_http2 :: "variables_map \<Rightarrow> outside \<Rightarrow> server \<Rightarrow> server result" where
  "start_http2 opts os sv =
     (case sv_http2 sv of
        None \<Rightarrow> Inl Null_dereference
      | Some n \<Rightarrow>
          (if is_set opts ''server.tls''
           then run_http2_tls_server opts (os_tls os) (os_serve_tls os) (os_message os) (os_threads os) sv
           else run_http2_server opts (os_serve os) (os_message os) (os_threads os) sv))"

definition server_start :: "variables_map \<Rightarrow> outside \<Rightarrow> server \<Rightarrow> server result" where
  "server_start opts os sv =
     (if \<not> is_set opts ''server.http1'' then start_http2 opts os sv
      else start_http opts (os_resolve os) (os_message os) sv)"

section \<open>Initialising and stopping\<close>

text \<open>The calls a successful bootstrap function has made, in order; an exception of one leaves the script.\<close>

datatype boot_call = Boot_route string string | Boot_directory string string

fun boot_calls :: "nat \<Rightarrow> file_system \<Rightarrow> boot_call list \<Rightarrow> server \<Rightarrow> server result option" where
  "boot_calls fuel fs [] sv = Some (Inr sv)"
| "boot_calls fuel fs (Boot_route p fn # calls) sv =
     (case server_add_route p fn sv of Inl e \<Rightarrow> Some (Inl e) | Inr sv \<Rightarrow> boot_calls fuel fs calls sv)"
| "boot_calls fuel fs (Boot_directory p dir # calls) sv =
     (case server_add_directory_route fuel fs p dir sv of
        None \<Rightarrow> None
      | Some (Inl e) \<Rightarrow> Some (Inl e)
      | Some (Inr sv) \<Rightarrow> boot_calls fuel fs calls sv)"

text \<open>The servers and workers of \<open>init\<close>: more than one thread is asked for only when there is more than one.\<close>

definition init_workers :: "variables_map \<Rightarrow> server \<Rightarrow> server" where
  "init_workers opts sv =
     (if \<not> is_set opts ''server.http1'' then
        sv\<lparr>sv_http2 := Some (if sv_num_workers sv > 1 then nat (sv_num_workers sv) else 1)\<rparr>
      else sv\<lparr>sv_workers := sv_workers sv @ replicate (nat (sv_num_workers sv)) new_worker\<rparr>)"

definition no_routes :: cpp_error where
  "no_routes = Runtime_error ''No routes. You have to setup at least one route in your bootstrap function.''"

definition server_init :: "variables_map \<Rightarrow> lua_env \<Rightarrow> (nat \<Rightarrow> lua_script) \<Rightarrow> nat \<Rightarrow> file_system \<Rightarrow>
    boot_call list \<Rightarrow> server \<Rightarrow> server result option" where
  "server_init opts env scripts fuel fs calls sv =
     (let sv = init_workers opts sv in
      case bootstrap env scripts (sv_states sv) of
        (Inl e, m) \<Rightarrow> Some (Inl e)
      | (Inr _, m) \<Rightarrow>
          (case boot_calls fuel fs calls (sv\<lparr>sv_states := m\<rparr>) of
             None \<Rightarrow> None
           | Some (Inl e) \<Rightarrow> Some (Inl e)
           | Some (Inr sv) \<Rightarrow> if sv_num_routes sv = 0 then Some (Inl no_routes) else Some (Inr sv)))"

text \<open>\<open>stop\<close> runs the stop function, then stops the registry; the threads are those registered.\<close>

definition server_stop :: "variables_map \<Rightarrow> outside \<Rightarrow> server \<Rightarrow> server result option" where
  "server_stop opts os sv =
     (case sv_stop_func sv of
        No_func \<Rightarrow> Some (Inr (sv\<lparr>sv_registry := registry_stop (sv_registry sv)\<rparr>))
      | f \<Rightarrow>
          (case unregister_io_services (server_threads opts (os_threads os) sv) sv of
             None \<Rightarrow> None
           | Some (Inl e) \<Rightarrow> Some (Inl e)
           | Some (Inr sv) \<Rightarrow>
               (let sv = (if f = Workers_func then sv\<lparr>sv_workers := map worker_stop (sv_workers sv)\<rparr> else sv) in
                Some (Inr (sv\<lparr>sv_registry := registry_stop (sv_registry sv)\<rparr>)))))"

section \<open>Properties\<close>

definition buffer_ok :: "buffer \<Rightarrow> bool" where
  "buffer_ok b \<longleftrightarrow> length (buf_data b) \<le> buf_capacity b"

lemma receive_chunk_ok:
  "buffer_ok b \<Longrightarrow> buffer_ok (receive_chunk data b) \<and> buf_data (receive_chunk data b) = buf_data b @ data"
  by (auto simp: buffer_ok_def receive_chunk_def Let_def)

lemma receive_chunks:
  "buffer_ok b \<Longrightarrow> buffer_ok (fold receive_chunk cs b) \<and> buf_data (fold receive_chunk cs b) = buf_data b @ concat cs"
  by (induction cs arbitrary: b) (auto simp: receive_chunk_ok)

lemma http2_upload_chunks:
  "[] \<notin> set cs \<Longrightarrow> http2_upload env w req b (cs @ ds) sv = http2_upload env w req (fold receive_chunk cs b) ds sv"
  by (induction cs arbitrary: b) auto

text \<open>
  C16. The content of an HTTP/2 POST is collected completely and in order: the route is called
  once, when the end is signalled, with the concatenation of all chunks as the request's
  content, and before that not at all; the buffer is always large enough for what it is given.
\<close>
theorem http2_post_collected:
  assumes "h2_method req = ''POST''" "[] \<notin> set cs"
  shows "http2_handle env w req cs sv = Inr ([], sv) \<and>
     http2_handle env w req (cs @ ['''']) sv =
       bind_result (http2_route env w req (Some (concat cs)) sv) (\<lambda>(r, sv). Inr ([r], sv)) \<and>
     buffer_ok (fold receive_chunk cs new_buffer)"
proof -
  have b: "buffer_ok new_buffer" "buf_data new_buffer = ''''" by (simp_all add: buffer_ok_def new_buffer_def)
  note c = receive_chunks [OF b(1), of cs]
  show ?thesis
    using assms(1) http2_upload_chunks [OF assms(2), of env w req new_buffer "[]" sv]
      http2_upload_chunks [OF assms(2), of env w req new_buffer "['''']" sv] c b(2)
    by (simp add: http2_handle_def split_def)
qed

definition sample_post :: http2_request where
  "sample_post = \<lparr>h2_method = ''POST'', h2_scheme = ''https'', h2_host = ''h'', h2_raw_path = ''/p'',
     h2_raw_query = '''', h2_header = [], h2_remote_endpoint = \<lparr>ep_address = ''::1'', ep_is_v4 = False\<rparr>\<rparr>"

theorem http2_post_collected_witness:
  "\<forall>sv. http2_handle sample_handler_env 0 sample_post [''ab'', ''c'', ''''] sv =
     bind_result (http2_route sample_handler_env 0 sample_post (Some ''abc'') sv) (\<lambda>(r, sv). Inr ([r], sv))"
proof
  fix sv
  show "http2_handle sample_handler_env 0 sample_post [''ab'', ''c'', ''''] sv =
      bind_result (http2_route sample_handler_env 0 sample_post (Some ''abc'') sv) (\<lambda>(r, sv). Inr ([r], sv))"
    using http2_post_collected [of sample_post "[''ab'', ''c'']" sample_handler_env 0 sv]
    by (simp add: sample_post_def del: http2_upload.simps)
qed

text \<open>Endpoints whose failures are system errors, as those of the library are.\<close>

definition endpoint_ok :: "variables_map \<Rightarrow> endpoint_ops \<Rightarrow> bool" where
  "endpoint_ok opts eo \<longleftrightarrow> (case listen_steps eo opts of Inr _ \<Rightarrow> True | Inl e \<Rightarrow> \<exists>c. e = System_error c)"

definition listening :: "server \<Rightarrow> nat" where
  "listening sv = sum_list (map (\<lambda>w. length (m_acceptors w)) (sv_workers sv))"

lemma sum_list_update_nat:
  "i < length xs \<Longrightarrow> sum_list (map f (xs[i := y])) + f (xs ! i) = sum_list (map f xs) + (f y :: nat)"
  by (induction xs arbitrary: i) (auto split: nat.split)

lemma listen_all_counts:
  assumes "\<forall>eo\<in>set eos. endpoint_ok opts eo" "sv_workers sv \<noteq> []"
  shows "\<exists>ec' sv'. listen_all opts eos ec ok sv =
       Inr (ec', ok \<or> (\<exists>eo\<in>set eos. is_ok (listen_steps eo opts)), sv') \<and>
     listening sv' = listening sv + length (filter (\<lambda>eo. is_ok (listen_steps eo opts)) eos) \<and>
     length (sv_workers sv') = length (sv_workers sv)"
  using assms
proof (induction eos arbitrary: ec ok sv)
  case (Cons eo eos)
  let ?i = "unat (sv_next_worker sv) mod length (sv_workers sv)"
  have i: "?i < length (sv_workers sv)" using Cons.prems(2) by simp
  have g: "get_worker (sv_next_worker sv) [0..<length (sv_workers sv)] = (Inr ?i, sv_next_worker sv + 1)"
    using Cons.prems(2) i by (simp add: get_worker_def)
  show ?case
  proof (cases "listen_steps eo opts")
    case (Inr u)
    let ?w = "(sv_workers sv ! ?i)\<lparr>m_acceptors := m_acceptors (sv_workers sv ! ?i) @ [True]\<rparr>"
    let ?sv = "sv\<lparr>sv_next_worker := sv_next_worker sv + 1, sv_workers := (sv_workers sv)[?i := ?w]\<rparr>"
    have "listening ?sv = listening sv + 1"
      using sum_list_update_nat [OF i, of "\<lambda>w. length (m_acceptors w)" ?w] by (simp add: listening_def)
    moreover from Cons.IH [of ?sv ec True] Cons.prems obtain ec' sv' where
      "listen_all opts eos ec True ?sv = Inr (ec', True, sv')"
      "listening sv' = listening ?sv + length (filter (\<lambda>eo. is_ok (listen_steps eo opts)) eos)"
      "length (sv_workers sv') = length (sv_workers ?sv)"
      by auto
    ultimately show ?thesis using Inr g by (simp add: add_endpoint_def)
  next
    case (Inl e)
    with Cons.prems(1) obtain c where c: "e = System_error c" by (auto simp: endpoint_ok_def)
    let ?sv = "sv\<lparr>sv_next_worker := sv_next_worker sv + 1, sv_workers := (sv_workers sv)[?i := sv_workers sv ! ?i]\<rparr>"
    have "listening ?sv = listening sv" by (simp add: listening_def)
    moreover from Cons.IH [of ?sv c ok] Cons.prems obtain ec' sv' where
      "listen_all opts eos c ok ?sv = Inr (ec', ok \<or> (\<exists>eo\<in>set eos. is_ok (listen_steps eo opts)), sv')"
      "listening sv' = listening ?sv + length (filter (\<lambda>eo. is_ok (listen_steps eo opts)) eos)"
      "length (sv_workers sv') = length (sv_workers ?sv)"
      by auto
    ultimately show ?thesis using Inl c g by (simp add: add_endpoint_def)
  qed
qed simp

lemma register_io_services_workers [simp]:
  "sv_workers (register_io_services opts io sv) = sv_workers sv"
proof -
  have "sv_workers (fold register_thread ws sv) = sv_workers sv" for ws
    by (induction ws arbitrary: sv) (simp_all add: register_thread_def)
  then show ?thesis by (simp add: register_io_services_def)
qed

text \<open>
  C23. An HTTP/1 server starts exactly when at least one of the endpoints it was configured with
  can be listened on; it then has an open acceptor for each of those, and the fiber of every
  worker is running. Otherwise it reports an error.
\<close>
theorem start_http_listens:
  assumes "get_string opts ''server.listen'' '''' = Inr l" "get_string opts ''server.port'' '''' = Inr p"
    and "resolve l p = Inr eos" "\<forall>eo\<in>set eos. endpoint_ok opts eo" "sv_workers sv \<noteq> []"
  shows "case start_http opts resolve message sv of
       Inl e \<Rightarrow> (\<forall>eo\<in>set eos. \<not> is_ok (listen_steps eo opts)) \<and> (\<exists>c. e = Runtime_error (message c))
     | Inr sv' \<Rightarrow>
         (\<exists>eo\<in>set eos. is_ok (listen_steps eo opts)) \<and>
         listening sv' = listening sv + length (filter (\<lambda>eo. is_ok (listen_steps eo opts)) eos) \<and>
         length (sv_workers sv') = length (sv_workers sv) \<and>
         (\<forall>wk\<in>set (sv_workers sv'). position wk = Testing)"
proof -
  from listen_all_counts [OF assms(4,5), of 0 False] obtain ec' sv' where
    l: "listen_all opts eos 0 False sv = Inr (ec', \<exists>eo\<in>set eos. is_ok (listen_steps eo opts), sv')"
    "listening sv' = listening sv + length (filter (\<lambda>eo. is_ok (listen_steps eo opts)) eos)"
    "length (sv_workers sv') = length (sv_workers sv)"
    by auto
  show ?thesis
  proof (cases "\<exists>eo\<in>set eos. is_ok (listen_steps eo opts)")
    case True
    then have t: "(\<exists>eo\<in>set eos. is_ok (listen_steps eo opts)) = True" by simp
    have "start_http opts resolve message sv =
        Inr ((register_io_services opts [] (sv'\<lparr>sv_workers := map worker_run (sv_workers sv')\<rparr>))
          \<lparr>sv_stop_func := Workers_func, sv_join_func := Workers_func\<rparr>)"
      using assms(1-3) l(1) unfolding t by (simp add: start_http_def Let_def)
    then show ?thesis using l(2,3) True by (simp add: listening_def worker_run_def o_def)
  next
    case False
    then have t: "(\<exists>eo\<in>set eos. is_ok (listen_steps eo opts)) = False" by simp
    have "start_http opts resolve message sv = Inl (Runtime_error (message ec'))"
      using assms(1-3) l(1) unfolding t by (simp add: start_http_def)
    with False show ?thesis by auto
  qed
qed

definition sample_http_opts :: variables_map where
  "sample_http_opts = [''server.listen'' \<mapsto> (String_value ''*'', False), ''server.port'' \<mapsto> (String_value ''80'', False),
     ''server.backlog'' \<mapsto> (Int_value 0, False), ''server.http1'' \<mapsto> (Int_value 1, False)]"

definition sample_endpoints :: "endpoint_ops list" where
  "sample_endpoints =
     [\<lparr>eo_open = Inr (), eo_set_option = Inr (), eo_bind = Inl (System_error 98), eo_listen = (\<lambda>n. Inr ()), max_connections = 128\<rparr>,
      \<lparr>eo_open = Inr (), eo_set_option = Inr (), eo_bind = Inr (), eo_listen = (\<lambda>n. Inr ()), max_connections = 128\<rparr>]"

theorem start_http_listens_witness:
  "\<exists>sv sv'. sv_workers sv = [new_worker] \<and>
     start_http sample_http_opts (\<lambda>l p. Inr sample_endpoints) (\<lambda>c. '''') sv = Inr sv' \<and> listening sv' = 1"
proof -
  obtain sv0 where "new_server sample_opts 4 (new_state_manager False [] []) = Inr sv0"
    using sample_new_server by blast
  let ?sv = "sv0\<lparr>sv_workers := [new_worker]\<rparr>"
  have g: "get_string sample_http_opts ''server.listen'' '''' = Inr ''*''"
    "get_string sample_http_opts ''server.port'' '''' = Inr ''80''"
    by (simp_all add: get_string_def is_set_def as_string_def sample_http_opts_def)
  have l: "listen_steps (sample_endpoints ! 0) sample_http_opts = Inl (System_error 98)"
    "listen_steps (sample_endpoints ! 1) sample_http_opts = Inr ()"
    by (simp_all add: listen_steps_def sample_endpoints_def as_int_def sample_http_opts_def)
  have e: "sample_endpoints = [sample_endpoints ! 0, sample_endpoints ! 1]" by (simp add: sample_endpoints_def)
  have ok: "\<forall>eo\<in>set sample_endpoints. endpoint_ok sample_http_opts eo"
    by (subst e) (simp add: endpoint_ok_def l del: nth_Cons_0 One_nat_def)
  have c: "length (filter (\<lambda>eo. is_ok (listen_steps eo sample_http_opts)) sample_endpoints) = 1"
    "\<exists>eo\<in>set sample_endpoints. is_ok (listen_steps eo sample_http_opts)"
    by (subst e, simp add: l del: One_nat_def)+
  have "sv_workers ?sv \<noteq> []" "listening ?sv = 0" by (simp_all add: listening_def new_worker_def)
  with start_http_listens [of sample_http_opts "''*''" "''80''" "\<lambda>l p. Inr sample_endpoints" sample_endpoints ?sv
      "\<lambda>c. ''''"] g ok c
  show ?thesis
    by (cases "start_http sample_http_opts (\<lambda>l p. Inr sample_endpoints) (\<lambda>c. '''') ?sv")
       (auto intro: exI [of _ ?sv])
qed

fun is_boot_route :: "boot_call \<Rightarrow> bool" where
  "is_boot_route (Boot_route p fn) = True"
| "is_boot_route (Boot_directory p dir) = False"

lemma server_add_route_fields:
  "server_add_route p fn sv = Inr sv' \<Longrightarrow>
   sv_workers sv' = sv_workers sv \<and> sv_http2 sv' = sv_http2 sv \<and> sv_num_routes sv' = sv_num_routes sv + 1"
  by (auto simp: server_add_route_def bind_result_Inr_iff split_def Let_def)

lemma server_add_directory_route_fields:
  "server_add_directory_route fuel fs p dir sv = Some (Inr sv') \<Longrightarrow>
   sv_workers sv' = sv_workers sv \<and> sv_http2 sv' = sv_http2 sv \<and>
   sv_num_routes sv' \<in> {sv_num_routes sv, sv_num_routes sv + 1}"
  by (auto simp: server_add_directory_route_def bind_result_Inr_iff split_def Let_def split: option.splits bool.splits)

lemma boot_calls_ok:
  "server_ok sv \<Longrightarrow> boot_calls fuel fs calls sv = Some (Inr sv') \<Longrightarrow>
   server_ok sv' \<and> sv_workers sv' = sv_workers sv \<and> sv_http2 sv' = sv_http2 sv \<and>
   sv_num_routes sv + length (filter is_boot_route calls) \<le> sv_num_routes sv' \<and>
   sv_num_routes sv' \<le> sv_num_routes sv + length calls"
proof (induction calls arbitrary: sv)
  case (Cons call calls)
  show ?case
  proof (cases call)
    case (Boot_route p fn)
    with Cons.prems obtain sv1 where 1: "server_add_route p fn sv = Inr sv1" "boot_calls fuel fs calls sv1 = Some (Inr sv')"
      by (auto split: sum.splits)
    with Cons.IH [OF server_add_route_ok [OF Cons.prems(1) 1(1)] 1(2)] server_add_route_fields [OF 1(1)] Boot_route
    show ?thesis by simp
  next
    case (Boot_directory p dir)
    with Cons.prems obtain sv1 where
      1: "server_add_directory_route fuel fs p dir sv = Some (Inr sv1)" "boot_calls fuel fs calls sv1 = Some (Inr sv')"
      by (auto split: sum.splits option.splits)
    with Cons.IH [OF server_add_directory_route_ok [OF Cons.prems(1) 1(1)] 1(2)] server_add_directory_route_fields [OF 1(1)]
      Boot_directory
    show ?thesis by auto
  qed
qed simp

lemma init_workers_fields:
  "sv_registry (init_workers opts sv) = sv_registry sv" "sv_states (init_workers opts sv) = sv_states sv"
  "sv_router (init_workers opts sv) = sv_router sv" "sv_num_routes (init_workers opts sv) = sv_num_routes sv"
  "sv_metric_requests (init_workers opts sv) = sv_metric_requests sv"
  "sv_metric_errors (init_workers opts sv) = sv_metric_errors sv"
  "sv_metric_times (init_workers opts sv) = sv_metric_times sv"
  "sv_metric_not_impl (init_workers opts sv) = sv_metric_not_impl sv"
  by (simp_all add: init_workers_def)

lemma init_workers_ok: "server_ok sv \<Longrightarrow> server_ok ((init_workers opts sv)\<lparr>sv_states := m\<rparr>)"
  by (erule server_ok_grown) (simp_all add: init_workers_fields)

text \<open>
  C24. A new server whose \<open>init\<close> returns has at least one route, metrics behind every pointer
  its handlers capture, and as many workers (HTTP/1) or library threads (HTTP/2) as it was
  configured with, at least one; a script that installs no route makes \<open>init\<close> fail.
\<close>
theorem init_needs_route:
  assumes "new_server opts processors mgr = Inr sv" "server_init opts env scripts fuel fs calls sv = Some res"
  shows "case res of
       Inr sv' \<Rightarrow> server_ok sv' \<and> 0 < sv_num_routes sv' \<and> sv_num_routes sv' \<le> length calls \<and>
         (if is_set opts ''server.http1'' then int (length (sv_workers sv')) = sv_num_workers sv
          else sv_http2 sv' = Some (nat (sv_num_workers sv))) \<and> 1 \<le> sv_num_workers sv
     | Inl e \<Rightarrow> \<forall>m. calls = [] \<and> bootstrap env scripts (sv_states sv) = (Inr (), m) \<longrightarrow> e = no_routes"
proof -
  note new = new_server_fields [OF assms(1)]
  have ok0: "server_ok sv" and n0: "sv_num_routes sv = 0" "1 \<le> sv_num_workers sv" using new by blast+
  have w0: "sv_workers sv = []" using assms(1)
    by (auto simp: new_server_def bind_result_Inr_iff split_def Let_def)
  obtain x m where b: "bootstrap env scripts (sv_states sv) = (x, m)" by fastforce
  let ?sv = "(init_workers opts sv)\<lparr>sv_states := m\<rparr>"
  have i: "server_init opts env scripts fuel fs calls sv =
      (case x of Inl e \<Rightarrow> Some (Inl e)
       | Inr _ \<Rightarrow> (case boot_calls fuel fs calls ?sv of None \<Rightarrow> None | Some (Inl e) \<Rightarrow> Some (Inl e)
           | Some (Inr sv) \<Rightarrow> if sv_num_routes sv = 0 then Some (Inl no_routes) else Some (Inr sv)))"
    by (simp add: server_init_def Let_def init_workers_fields(2) b)
  show ?thesis
  proof (cases res)
    case (Inl e)
    have "e = no_routes" if "calls = []" "x = Inr ()"
      using assms(2) that Inl n0(1) unfolding i by (simp add: init_workers_fields(4))
    with b Inl show ?thesis by simp
  next
    case (Inr sv')
    then obtain y where x: "x = Inr y" using assms(2) by (cases x) (simp_all add: i)
    from assms(2) Inr have r: "(case boot_calls fuel fs calls ?sv of None \<Rightarrow> None | Some (Inl e) \<Rightarrow> Some (Inl e)
           | Some (Inr sv) \<Rightarrow> if sv_num_routes sv = 0 then Some (Inl no_routes) else Some (Inr sv)) = Some (Inr sv')"
      unfolding i x by simp
    have c: "boot_calls fuel fs calls ?sv = Some (Inr sv')" "0 < sv_num_routes sv'"
      using r by (simp_all split: option.splits sum.splits if_splits)
    note ok = boot_calls_ok [OF init_workers_ok [OF ok0] c(1)]
    have "if is_set opts ''server.http1'' then int (length (sv_workers sv')) = sv_num_workers sv
        else sv_http2 sv' = Some (nat (sv_num_workers sv))"
      using n0(2) w0 ok by (simp add: init_workers_def)
    moreover have "sv_num_routes sv' \<le> length calls" using ok n0(1) by (simp add: init_workers_fields)
    ultimately show ?thesis using Inr ok c(2) n0(2) by simp
  qed
qed

theorem init_needs_route_witness:
  "\<exists>sv sv'. new_server sample_opts 4 (new_state_manager False [] []) = Inr sv \<and>
     server_init sample_opts sample_env (\<lambda>a. array_script) 0 (\<lambda>n. None) [Boot_route ''/'' ''f''] sv = Some (Inr sv') \<and>
     0 < sv_num_routes sv'"
proof -
  obtain sv where sv: "new_server sample_opts 4 (new_state_manager False [] []) = Inr sv"
    using sample_new_server by blast
  have f: "sv_router sv = new_router Not_found" "sv_states sv = new_state_manager False [] []"
    using new_server_fields [OF sv] by blast+
  have "\<exists>m. create_state sample_env (new_state_manager False [] []) = (Inr 0, m)"
    by (simp add: create_state_def sample_env_def new_state_manager_def Let_def
        load_code_from_scripts_def load_code_from_strings_def)
  then obtain m0 where "create_state sample_env (new_state_manager False [] []) = (Inr 0, m0)" ..
  then have b: "bootstrap sample_env (\<lambda>a. array_script) (new_state_manager False [] []) = (Inr (), destroy_state (Some 0) m0)"
    by (simp add: bootstrap_def Let_def lua_pcall_def array_script_def)
  let ?sv = "(init_workers sample_opts sv)\<lparr>sv_states := destroy_state (Some 0) m0\<rparr>"
  have r: "sv_router ?sv = new_router Not_found" by (simp add: init_workers_fields f)
  obtain a1 r1 where 1: "register_metric Meter_kind (''requests_'' @ ''f'') (sv_registry ?sv) = (a1, r1)" by fastforce
  obtain a2 r2 where 2: "register_metric Meter_kind (''errors_'' @ ''f'') r1 = (a2, r2)" by fastforce
  obtain a3 r3 where 3: "register_metric Timer_kind (''times_'' @ ''f'') r2 = (a3, r3)" by fastforce
  have "is_ok (Router.add_route (new_router Not_found) ''/'' (Some (Script_route ''f'' a1 a2 a3)))"
    by (simp add: Router.add_route_def new_router_def Let_def)
  then obtain rt where rt: "Router.add_route (sv_router ?sv) ''/'' (Some (Script_route ''f'' a1 a2 a3)) = Inr rt"
    by (auto simp: r is_ok_iff)
  let ?sv' = "?sv\<lparr>sv_registry := r3, sv_router := rt, sv_num_routes := sv_num_routes ?sv + 1\<rparr>"
  have add: "server_add_route ''/'' ''f'' ?sv = Inr ?sv'"
    unfolding server_add_route_def Let_def 1 2 3 prod.case using rt by simp
  have "boot_calls 0 (\<lambda>n. None) [Boot_route ''/'' ''f''] ?sv = Some (Inr ?sv')"
    unfolding boot_calls.simps add by simp
  then have "server_init sample_opts sample_env (\<lambda>a. array_script) 0 (\<lambda>n. None) [Boot_route ''/'' ''f''] sv = Some (Inr ?sv')"
    unfolding server_init_def Let_def init_workers_fields(2) f(2) b by simp
  with init_needs_route [OF sv this] sv show ?thesis
    by (intro exI [of _ sv] exI [of _ ?sv']) simp
qed

end
