(* ===== verification/Petrel_Lib.thy ===== *)
theory Petrel_Lib
  imports Server_Start
begin

text \<open>
  The Lua library \<open>petrel\<close> (\<open>src/lib/builtin/petrel.cpp\<close>): the search path and the loading of
  shared libraries, and the functions by which a bootstrap function installs routes. As in the
  library \<open>metric\<close>, \<open>None\<close> is an argument that \<open>luaL_checkstring\<close> refuses. What a directory
  route serves is proved here for the whole way from Lua to the response.
\<close>

section \<open>The search path\<close>

text \<open>The constants of the build.\<close>

record build_config =
  libdir_suffix :: string
  lib_install_dir :: string
  lib_prefix :: string
  lib_suffix :: string

definition petrel_load :: "build_config \<Rightarrow> string list" where
  "petrel_load cfg =
     (let ps = [''/usr/lib'', ''/usr/local/lib''];
          ps = (if length (libdir_suffix cfg) > 0
                then ps @ [''/usr/lib'' @ libdir_suffix cfg, ''/usr/local/lib'' @ libdir_suffix cfg] else ps) in
      if lib_install_dir cfg \<in> set ps then ps else ps @ [lib_install_dir cfg])"

fun join_paths :: "bool \<Rightarrow> string list \<Rightarrow> string" where
  "join_paths first [] = ''''"
| "join_paths first (p # ps) = (if first then '''' else '':'') @ p @ join_paths False ps"

definition lib_search_path :: "string list \<Rightarrow> string" where
  "lib_search_path ps = c_str (join_paths True ps)"

definition add_lib_search_path :: "string option \<Rightarrow> string list \<Rightarrow> string list result" where
  "add_lib_search_path arg ps = (case arg of None \<Rightarrow> Inl bad_argument | Some p \<Rightarrow> Inr (ps @ [c_str p]))"

section \<open>Loading a library\<close>

text \<open>
  The dynamic linker: whether a file exists (which may throw), and what loading it yields, with
  the symbols found in it; the first one is a function that returns the library's name.
\<close>

record shared_object =
  so_name :: "string option"
  so_has_open :: bool
  so_has_init :: bool
  so_has_load :: bool
  so_has_unload :: bool

record dynamic_linker =
  dl_exists :: "string \<Rightarrow> bool result"
  dl_open :: "string \<Rightarrow> shared_object option"

definition lib_file :: "build_config \<Rightarrow> string \<Rightarrow> string \<Rightarrow> string" where
  "lib_file cfg lib p = p @ ''/'' @ lib_prefix cfg @ lib @ lib_suffix cfg"

text \<open>A missing \<open>petrel_lib_open\<close> returns; every other missing symbol goes on with the next path.\<close>

fun load_from :: "build_config \<Rightarrow> dynamic_linker \<Rightarrow> string \<Rightarrow> string list \<Rightarrow> state_manager \<Rightarrow> state_manager result" where
  "load_from cfg dl lib [] m = Inr m"
| "load_from cfg dl lib (p # ps) m =
     bind_result (dl_exists dl (lib_file cfg lib p)) (\<lambda>ex.
       if \<not> ex then load_from cfg dl lib ps m
       else
         (case dl_open dl (lib_file cfg lib p) of
            None \<Rightarrow> load_from cfg dl lib ps m
          | Some so \<Rightarrow>
              (case so_name so of
                 None \<Rightarrow> load_from cfg dl lib ps m
               | Some name \<Rightarrow>
                   if \<not> so_has_open so then Inr m
                   else if \<not> so_has_init so then load_from cfg dl lib ps m
                   else if \<not> so_has_load so then load_from cfg dl lib ps m
                   else if \<not> so_has_unload so then load_from cfg dl lib ps m
                   else Inr (register_lib name m))))"

definition load_lib :: "build_config \<Rightarrow> dynamic_linker \<Rightarrow> string option \<Rightarrow> string list \<Rightarrow> state_manager \<Rightarrow>
    state_manager result" where
  "load_lib cfg dl arg ps m =
     (case arg of None \<Rightarrow> Inl bad_argument | Some lib \<Rightarrow> load_from cfg dl (c_str lib) ps m)"

section \<open>Routes\<close>

definition petrel_add_route :: "string option \<Rightarrow> string option \<Rightarrow> server \<Rightarrow> server result" where
  "petrel_add_route path_arg func_arg sv =
     (case (path_arg, func_arg) of
        (Some p, Some fn) \<Rightarrow> server_add_route (c_str p) (c_str fn) sv
      | _ \<Rightarrow> Inl bad_argument)"

text \<open>The last character of an empty string is outside of it.\<close>

definition with_slash :: "string \<Rightarrow> string result" where
  "with_slash s = (if s = [] then Inl Bad_access else Inr (if last s \<noteq> CHR ''/'' then s @ ''/'' else s))"

definition petrel_add_directory_route :: "nat \<Rightarrow> file_system \<Rightarrow> string option \<Rightarrow> string option \<Rightarrow> server \<Rightarrow>
    server result option" where
  "petrel_add_directory_route fuel fs path_arg dir_arg sv =
     (case (path_arg, dir_arg) of
        (Some p, Some d) \<Rightarrow>
          (case (with_slash (c_str p), with_slash (c_str d)) of
             (Inr p, Inr d) \<Rightarrow> server_add_directory_route fuel fs p d sv
           | (Inl e, _) \<Rightarrow> Some (Inl e)
           | (_, Inl e) \<Rightarrow> Some (Inl e))
      | _ \<Rightarrow> Some (Inl bad_argument))"

text \<open>The sleeping functions: nanoseconds from a Lua integer cut down to an \<open>int\<close>.\<close>

definition sleep_nanos :: "int \<Rightarrow> int" where
  "sleep_nanos t = to_c_int t"

definition sleep_micros :: "int \<Rightarrow> int" where
  "sleep_micros t = 1000 * to_c_int t"

definition sleep_millis :: "int \<Rightarrow> int" where
  "sleep_millis t = 1000000 * to_c_int t"

section \<open>Which library is loaded\<close>

text \<open>A file that ends the search: it can be loaded and has the symbols up to \<open>petrel_lib_open\<close> or all.\<close>

definition complete_object :: "shared_object \<Rightarrow> bool" where
  "complete_object so \<longleftrightarrow> so_name so \<noteq> None \<and> so_has_open so \<and> so_has_init so \<and> so_has_load so \<and> so_has_unload so"

definition ends_search :: "build_config \<Rightarrow> dynamic_linker \<Rightarrow> string \<Rightarrow> string \<Rightarrow> bool" where
  "ends_search cfg dl lib p \<longleftrightarrow>
     dl_exists dl (lib_file cfg lib p) = Inr True \<and>
     (\<exists>so. dl_open dl (lib_file cfg lib p) = Some so \<and>
        (complete_object so \<or> so_name so \<noteq> None \<and> \<not> so_has_open so))"

lemma load_from_skips:
  assumes "is_ok (dl_exists dl (lib_file cfg lib p))" "\<not> ends_search cfg dl lib p"
  shows "load_from cfg dl lib (p # ps) m = load_from cfg dl lib ps m"
  using assms
  by (auto simp: is_ok_iff ends_search_def complete_object_def split: option.splits)

text \<open>
  \<open>load_lib\<close> registers the library of the first directory of the search path that holds a
  complete one, passing over files that cannot be loaded or lack a symbol, except that one
  without \<open>petrel_lib_open\<close> ends the search with nothing registered.
\<close>
theorem load_lib_result:
  assumes "\<forall>p \<in> set ps. is_ok (dl_exists dl (lib_file cfg (c_str lib) p))"
  shows "load_lib cfg dl (Some lib) ps m =
    (case List.find (ends_search cfg dl (c_str lib)) ps of
       None \<Rightarrow> Inr m
     | Some p \<Rightarrow>
         (let so = the (dl_open dl (lib_file cfg (c_str lib) p)) in
          Inr (if complete_object so then register_lib (the (so_name so)) m else m)))"
proof -
  have "load_from cfg dl (c_str lib) ps m =
    (case List.find (ends_search cfg dl (c_str lib)) ps of
       None \<Rightarrow> Inr m
     | Some p \<Rightarrow>
         (let so = the (dl_open dl (lib_file cfg (c_str lib) p)) in
          Inr (if complete_object so then register_lib (the (so_name so)) m else m)))"
    using assms
  proof (induction ps)
    case (Cons p ps)
    show ?case
    proof (cases "ends_search cfg dl (c_str lib) p")
      case False
      with Cons load_from_skips [of dl cfg "c_str lib" p] show ?thesis by (simp del: load_from.simps)
    next
      case True
      then show ?thesis by (auto simp: ends_search_def complete_object_def)
    qed
  qed simp
  then show ?thesis by (simp add: load_lib_def)
qed

theorem load_lib_result_witness:
  "let cfg = \<lparr>libdir_suffix = ''64'', lib_install_dir = ''/opt'', lib_prefix = ''lib'', lib_suffix = ''.so''\<rparr>;
       so = \<lparr>so_name = Some ''x'', so_has_open = True, so_has_init = True, so_has_load = True, so_has_unload = True\<rparr>;
       dl = \<lparr>dl_exists = (\<lambda>f. Inr (f = ''/opt/libx.so'')), dl_open = (\<lambda>f. Some so)\<rparr> in
   load_lib cfg dl (Some ''x'') (petrel_load cfg) (new_state_manager False [] []) =
     Inr (register_lib ''x'' (new_state_manager False [] []))"
proof -
  let ?cfg = "\<lparr>libdir_suffix = ''64'', lib_install_dir = ''/opt'', lib_prefix = ''lib'', lib_suffix = ''.so''\<rparr>"
  let ?so = "\<lparr>so_name = Some ''x'', so_has_open = True, so_has_init = True, so_has_load = True, so_has_unload = True\<rparr>"
  let ?dl = "\<lparr>dl_exists = (\<lambda>f. Inr (f = ''/opt/libx.so'')), dl_open = (\<lambda>f. Some ?so)\<rparr>"
  have ok: "\<forall>p \<in> set (petrel_load ?cfg). is_ok (dl_exists ?dl (lib_file ?cfg (c_str ''x'') p))" by simp
  have ends: "ends_search ?cfg ?dl (c_str ''x'') p \<longleftrightarrow> p = ''/opt''" for p
    by (auto simp: ends_search_def lib_file_def complete_object_def c_str_def)
  have "List.find (\<lambda>p. p = ''/opt'') (petrel_load ?cfg) = Some ''/opt''" by (simp add: petrel_load_def)
  then have "List.find (ends_search ?cfg ?dl (c_str ''x'')) (petrel_load ?cfg) = Some ''/opt''"
    by (subst ext [of "ends_search ?cfg ?dl (c_str ''x'')" "\<lambda>p. p = ''/opt''", OF ends])
  with load_lib_result [OF ok, of "new_state_manager False [] []"] show ?thesis
    by (simp add: Let_def complete_object_def)
qed

section \<open>What a directory route serves\<close>

lemma with_slash_ok: "with_slash s = Inr t \<Longrightarrow> t \<noteq> [] \<and> last t = CHR ''/''"
  by (auto simp: with_slash_def split: if_splits)

text \<open>A file system whose files have the sizes it reports.\<close>

definition sizes_match :: "file_system \<Rightarrow> bool" where
  "sizes_match fs \<longleftrightarrow> (\<forall>p sz t bytes. fs p = Some (Regular_file sz t (Some bytes)) \<longrightarrow> sz = length bytes)"

lemma files_complete_scanned:
  assumes "files_complete c" "scanned fs c c'" "m_file_map_local c' = m_file_map_local c" "sizes_match fs"
  shows "files_complete c'"
proof -
  have "m_size f \<le> length (File_Cache.m_data f)" if "m_file_map c' n = Some f" for n f
  proof (cases "m_file_map c n")
    case (Some g)
    with assms(2) that have "m_file_map c n = Some f" by (force simp: scanned_def map_le_def dom_def)
    with assms(1) show ?thesis by (auto simp: files_complete_def)
  next
    case None
    with that have "n \<in> dom (m_file_map c') - dom (m_file_map c)" by auto
    with assms(2) have "readable fs n \<and> m_file_map c' n = Some (new_file fs n True)" unfolding scanned_def by blast
    with that have "readable fs n" "f = new_file fs n True" by simp_all
    with assms(4) show ?thesis by (auto simp: readable_iff new_file_def sizes_match_def Let_def)
  qed
  with assms(1,3) show ?thesis by (simp add: files_complete_def)
qed

lemma server_add_directory_route_result:
  assumes "server_add_directory_route fuel fs p d sv = Some (Inr sv')" "fs d = Some (Directory es)"
  shows "\<exists>c req err tmr. add_directory fuel fs d (sv_files sv) = Some (True, c) \<and> sv_files sv' = c \<and>
    Router.add_route (sv_router sv) p (Some (Directory_route p d req err tmr)) = Inr (sv_router sv')"
proof -
  obtain a1 r1 where 1: "register_metric Meter_kind ''requests_static_files'' (sv_registry sv) = (a1, r1)" by fastforce
  obtain a2 r2 where 2: "register_metric Meter_kind ''errors_static_files'' r1 = (a2, r2)" by fastforce
  obtain a3 r3 where 3: "register_metric Timer_kind ''times_static_files'' r2 = (a3, r3)" by fastforce
  obtain b c where c: "add_directory fuel fs d (sv_files sv) = Some (b, c)"
    using assms(1) by (auto simp: server_add_directory_route_def split: option.splits)
  moreover have "b"
    using c assms(2) by (cases fuel) (auto simp: add_directory_def split: option.splits)
  ultimately have c: "add_directory fuel fs d (sv_files sv) = Some (True, c)" by simp
  with assms(1) obtain r where
    "Router.add_route (sv_router sv) p (Some (Directory_route p d a1 a2 a3)) = Inr r"
    "sv' = sv\<lparr>sv_files := c, sv_registry := r3, sv_router := r, sv_num_routes := sv_num_routes sv + 1\<rparr>"
    by (auto simp: server_add_directory_route_def 1 2 3 bind_result_Inr_iff)
  with c show ?thesis by (intro exI [of _ c] exI [of _ a1] exI [of _ a2] exI [of _ a3]) simp
qed

text \<open>
  C5. From Lua to the response: after \<open>petrel.add_directory_route(p, d)\<close>, with or without the
  final slashes, a GET for the route's path followed by the name of a file below the directory
  is answered 200 with exactly the bytes of that file, unless a longer route or an older cached
  file of that name comes before it.
\<close>
theorem directory_served:
  assumes "server_reachable sv" "files_complete (sv_files sv)" "sizes_match fs"
    and "petrel_add_directory_route fuel fs (Some p) (Some d) sv = Some (Inr sv')"
    and "with_slash (c_str p) = Inr p'" "with_slash (c_str d) = Inr d'"
    and "below fs d' f" "fs f = Some (Regular_file (length bytes) time (Some bytes))" "last f \<noteq> CHR ''/''"
    and "m_file_map (sv_files sv) f = None" "\<forall>m. m_file_map_local (sv_files sv) w = Some m \<longrightarrow> m f = None"
    and "Request.path r = p' @ drop (length d') f" "unanswered r" "m_method r = GET"
    and "\<forall>q. prefix q (Request.path r) \<longrightarrow> path_set_entry (m_set (sv_router sv)) q \<noteq> None \<longrightarrow> length q \<le> length p'"
  shows "\<exists>rt r' sv''. find_route (sv_router sv') (Request.path r) = Some rt \<and> call_route env w rt r sv' = Inr (r', sv'') \<and>
    answer r' = Some (200, final_headers (m_mode r) (response_headers r) bytes, response_body r @ bytes)"
proof -
  have add: "server_add_directory_route fuel fs p' d' sv = Some (Inr sv')"
    using assms(4-6) by (simp add: petrel_add_directory_route_def)
  from assms(7) obtain es where es: "fs d' = Some (Directory es)" by (auto elim: belowE)
  from server_add_directory_route_result [OF add es] obtain c req err tmr where
    c: "add_directory fuel fs d' (sv_files sv) = Some (True, c)" "sv_files sv' = c" and
    rt: "Router.add_route (sv_router sv) p' (Some (Directory_route p' d' req err tmr)) = Inr (sv_router sv')"
    by blast
  let ?rt = "Directory_route p' d' req err tmr"
  have found: "find_route (sv_router sv') (Request.path r) = Some ?rt"
    using assms(12,15) by (intro find_route_after_add [OF rt]) auto
  have ok: "full_ok sv'" by (rule reachable_full_ok [OF server_reachable.directory [OF assms(1) add]])
  from find_route_ok [OF ok found] have rok: "route_ok (sv_registry sv') ?rt" by simp
  note scan = add_directory_result [OF c(1)]
  have complete: "files_complete (sv_files sv')"
    unfolding c(2) using scan assms(2,3) by (blast intro: files_complete_scanned)
  have read: "readable fs f" using assms(8) by (auto simp: readable_iff)
  with scan assms(7) have "m_file_map c f \<noteq> None" by blast
  with scan assms(10) have main: "m_file_map c f = Some (new_file fs f True)" by (auto simp: scanned_def)
  from below_prefix [OF assms(7)] have f: "d' @ drop (length d') f = f" by (auto simp: prefix_def)
  have "drop (length d') f \<noteq> []"
  proof
    assume "drop (length d') f = []"
    with f with_slash_ok [OF assms(6)] assms(9) show False by simp
  qed
  with f assms(9) have last: "last (Request.path r) \<noteq> CHR ''/''"
    unfolding assms(12) by (metis last_appendR)
  have got: "fst (get_file w f (sv_files sv')) = Some (new_file fs f True)"
    using main assms(11) scan by (auto simp: c(2) get_file_def get_file_main_def split: option.splits)
  have new: "m_size (new_file fs f True) = length bytes" "File_Cache.m_data (new_file fs f True) = bytes"
    using assms(8) by (simp_all add: new_file_def Let_def)
  have path: "prefix p' (Request.path r)" "Request.path r \<noteq> []" "drop (length p') (Request.path r) = drop (length d') f"
    using assms(12) with_slash_ok [OF assms(5)] by simp_all
  from directory_handler_answers [OF ok rok complete assms(13) path(1,2), of env w] obtain r' sv'' where
    "directory_handler env w p' d' req err tmr r sv' = Inr (r', sv'')"
    "answer r' = Some (200, final_headers (m_mode r) (response_headers r) bytes, response_body r @ bytes)"
    using assms(14) last got new unfolding path(3) f by auto
  with found show ?thesis
    by (intro exI [of _ ?rt] exI [of _ r'] exI [of _ sv'']) (simp add: call_route_def)
qed

definition sample_www :: file_system where
  "sample_www = [''/www/'' \<mapsto> Directory [''x''], ''/www/x'' \<mapsto> Regular_file 2 7 (Some ''hi'')]"

lemma sample_www_facts:
  "sizes_match sample_www" "below sample_www ''/www/'' ''/www/x''"
  "\<exists>c. add_directory 2 sample_www ''/www/'' new_file_cache = Some (True, c)"
proof -
  show "sizes_match sample_www" by (auto simp: sizes_match_def sample_www_def split: if_splits)
  have "below sample_www ''/www/'' (path_append ''/www/'' ''x'')"
    by (rule below.entry [of _ _ "[''x'']"]) (simp_all add: sample_www_def path_append_def)
  then show "below sample_www ''/www/'' ''/www/x''" by (simp add: path_append_def)
  show "\<exists>c. add_directory 2 sample_www ''/www/'' new_file_cache = Some (True, c)"
    by (simp add: numeral_2_eq_2 sample_www_def add_directory_def scan_entry_def path_append_def)
qed

theorem directory_served_witness:
  "\<exists>sv sv' rt r' sv''. petrel_add_directory_route 2 sample_www (Some ''/'') (Some ''/www'') sv = Some (Inr sv') \<and>
     find_route (sv_router sv') ''/x'' = Some rt \<and> call_route sample_handler_env 0 rt get_request sv' = Inr (r', sv'') \<and>
     answer r' = Some (200, {#(''server'', ''petrel'')#}, ''hi'')"
proof -
  obtain sv where new: "new_server sample_opts 4 (new_state_manager False [] []) = Inr sv"
    using sample_new_server by blast
  have f: "sv_files sv = new_file_cache" "sv_router sv = new_router Not_found" "server_reachable sv"
    using new_server_fields [OF new] server_reachable.new [OF new] by blast+
  obtain c where c: "add_directory 2 sample_www ''/www/'' (sv_files sv) = Some (True, c)"
    using sample_www_facts(3) f(1) by auto
  obtain a1 r1 where 1: "register_metric Meter_kind ''requests_static_files'' (sv_registry sv) = (a1, r1)" by fastforce
  obtain a2 r2 where 2: "register_metric Meter_kind ''errors_static_files'' r1 = (a2, r2)" by fastforce
  obtain a3 r3 where 3: "register_metric Timer_kind ''times_static_files'' r2 = (a3, r3)" by fastforce
  have "is_ok (Router.add_route (new_router Not_found) ''/'' (Some (Directory_route ''/'' ''/www/'' a1 a2 a3)))"
    by (simp add: Router.add_route_def new_router_def Let_def)
  then obtain rt where rt: "Router.add_route (sv_router sv) ''/'' (Some (Directory_route ''/'' ''/www/'' a1 a2 a3)) = Inr rt"
    by (auto simp: f is_ok_iff)
  let ?sv = "sv\<lparr>sv_files := c, sv_registry := r3, sv_router := rt, sv_num_routes := sv_num_routes sv + 1\<rparr>"
  have "server_add_directory_route 2 sample_www ''/'' ''/www/'' sv = Some (Inr ?sv)"
    unfolding server_add_directory_route_def c option.case prod.case bool.case Let_def 1 2 3 using rt by simp
  moreover have w: "with_slash (c_str ''/'') = Inr ''/''" "with_slash (c_str ''/www'') = Inr ''/www/''"
    by (simp_all add: with_slash_def c_str_def)
  ultimately have add: "petrel_add_directory_route 2 sample_www (Some ''/'') (Some ''/www'') sv = Some (Inr ?sv)"
    by (simp add: petrel_add_directory_route_def)
  have files: "files_complete (sv_files sv)" "m_file_map (sv_files sv) ''/www/x'' = None"
    "\<forall>m. m_file_map_local (sv_files sv) 0 = Some m \<longrightarrow> m ''/www/x'' = None"
    unfolding f(1) by (simp_all add: sample_files_complete, simp_all add: new_file_cache_def)
  have www: "sample_www ''/www/x'' = Some (Regular_file (length ''hi'') 7 (Some ''hi''))" "last ''/www/x'' \<noteq> CHR ''/''"
    by (simp_all add: sample_www_def)
  have path: "Request.path get_request = ''/'' @ drop (length ''/www/'') ''/www/x''" by (simp add: get_request_facts)
  have routes: "\<forall>q. prefix q (Request.path get_request) \<longrightarrow> path_set_entry (m_set (sv_router sv)) q \<noteq> None \<longrightarrow> length q \<le> length ''/''"
    by (simp add: f new_router_def path_set_entry_new)
  from directory_served [OF f(3) files(1) sample_www_facts(1) add w sample_www_facts(2) www files(2,3) path
      get_request_facts(1,2) routes, of sample_handler_env] obtain rt r' sv'' where
    "find_route (sv_router ?sv) (Request.path get_request) = Some rt"
    "call_route sample_handler_env 0 rt get_request ?sv = Inr (r', sv'')"
    "answer r' = Some (200, final_headers (m_mode get_request) (response_headers get_request) ''hi'', response_body get_request @ ''hi'')"
    by blast
  moreover have "response_headers get_request = {#}"
    by (simp add: get_request_def response_headers_def new_session_request_def new_response_def)
  ultimately show ?thesis using add
    by (intro exI [of _ sv] exI [of _ ?sv] exI [of _ rt] exI [of _ r'] exI [of _ sv''])
       (simp add: final_headers_def get_request_facts)
qed

end
