(* ===== verification/Registration.thy ===== *)
theory Registration
  imports Builtins Petrel_Lib
begin

text \<open>
  How libraries come into a Lua state (\<open>src/lib/library.h\<close>, \<open>src/lib/library_builtin.h\<close>,
  \<open>src/core/lua_state_manager.cpp\<close>): the hooks of a library and the macros that set them, the
  functions a shared library exports, the registration with its load and unload functions, and
  that a library built with the macros is found by \<open>load_lib\<close> and offered in every new state.
\<close>

section \<open>The hooks of a library\<close>

text \<open>
  What \<open>lib_load\<close> and \<open>lib_unload\<close> act on, the static data of the class, is the type \<open>'g\<close>.
\<close>

record 'g hooked = library +
  lib_load :: "('g \<Rightarrow> 'g) option"
  lib_unload :: "('g \<Rightarrow> 'g) option"

definition declare_hooked :: "string \<Rightarrow> 'g hooked" where
  "declare_hooked name =
     \<lparr>lib_name = name, lib_state_init = None, library_functions = [], library_methods = [],
      lib_load = None, lib_unload = None\<rparr>"

definition enable_lib_state_init :: "(lua_api \<Rightarrow> lua_api) \<Rightarrow> 'g hooked \<Rightarrow> 'g hooked" where
  "enable_lib_state_init f l = l\<lparr>lib_state_init := Some f\<rparr>"

definition enable_lib_load :: "('g \<Rightarrow> 'g) \<Rightarrow> 'g hooked \<Rightarrow> 'g hooked" where
  "enable_lib_load f l = l\<lparr>lib_load := Some f\<rparr>"

definition enable_lib_unload :: "('g \<Rightarrow> 'g) \<Rightarrow> 'g hooked \<Rightarrow> 'g hooked" where
  "enable_lib_unload f l = l\<lparr>lib_unload := Some f\<rparr>"

definition call_hook :: "('g \<Rightarrow> 'g) option \<Rightarrow> 'g \<Rightarrow> 'g" where
  "call_hook h g = (case h of None \<Rightarrow> g | Some f \<Rightarrow> f g)"

text \<open>What \<open>DECLARE_LIB_END\<close> exports.\<close>

definition petrel_lib_name :: "'g hooked \<Rightarrow> string" where
  "petrel_lib_name l = lib_name l"

definition petrel_lib_load :: "'g hooked \<Rightarrow> 'g \<Rightarrow> 'g" where
  "petrel_lib_load l g = call_hook (lib_load l) g"

definition petrel_lib_unload :: "'g hooked \<Rightarrow> 'g \<Rightarrow> 'g" where
  "petrel_lib_unload l g = call_hook (lib_unload l) g"

definition petrel_lib_init :: "'g hooked \<Rightarrow> lua_api \<Rightarrow> lua_api result" where
  "petrel_lib_init l = lib_init (library.truncate l)"

definition petrel_lib_open :: "'g hooked \<Rightarrow> lua_api \<Rightarrow> lua_api result" where
  "petrel_lib_open l = lib_open (library.truncate l)"

section \<open>The registration\<close>

record 'g lib_reg =
  reg_name :: string
  open_func :: "lua_api \<Rightarrow> lua_api result"
  init_func :: "lua_api \<Rightarrow> lua_api result"
  unload_func :: "('g \<Rightarrow> 'g) option"

text \<open>The two lists of the manager, and the libraries' static data.\<close>

record 'g lib_registry =
  libs_builtin :: "'g lib_reg list"
  libs_shared :: "'g lib_reg list"
  lib_data :: 'g

definition register_builtin_lib :: "'g lib_reg \<Rightarrow> ('g \<Rightarrow> 'g) option \<Rightarrow> 'g lib_registry \<Rightarrow> 'g lib_registry" where
  "register_builtin_lib lib load_func R =
     R\<lparr>libs_builtin := libs_builtin R @ [lib], lib_data := call_hook load_func (lib_data R)\<rparr>"

definition register_shared_lib :: "'g lib_reg \<Rightarrow> ('g \<Rightarrow> 'g) option \<Rightarrow> 'g lib_registry \<Rightarrow> 'g lib_registry" where
  "register_shared_lib lib load_func R =
     R\<lparr>libs_shared := libs_shared R @ [lib], lib_data := call_hook load_func (lib_data R)\<rparr>"

definition load_registered :: "'g lib_reg list \<Rightarrow> lua_api \<Rightarrow> lua_api result" where
  "load_registered libs s =
     fold_result (\<lambda>s lib. bind_result (lua_requiref (reg_name lib) (open_func lib) True s) (init_func lib)) s libs"

definition load_registry :: "'g lib_registry \<Rightarrow> lua_api \<Rightarrow> lua_api result" where
  "load_registry R s = bind_result (load_registered (libs_builtin R) s) (load_registered (libs_shared R))"

text \<open>The end of the manager: only the shared libraries are unloaded.\<close>

definition unload_registry :: "'g lib_registry \<Rightarrow> 'g lib_registry" where
  "unload_registry R =
     R\<lparr>lib_data := fold (\<lambda>lib. call_hook (unload_func lib)) (libs_shared R) (lib_data R), libs_shared := []\<rparr>"

text \<open>The messages of \<open>print_registered_libs\<close>.\<close>

definition print_registered_libs :: "'g lib_registry \<Rightarrow> string list" where
  "print_registered_libs R =
     ''registered libraries'' # map (\<lambda>lib. ''  '' @ reg_name lib @ '' (builtin)'') (libs_builtin R) @
     map (\<lambda>lib. ''  '' @ reg_name lib) (libs_shared R)"

text \<open>
  What \<open>DECLARE_LIB_BUILTIN_END\<close> passes, where \<open>lib_open\<close> reads the list of functions when it is
  called, with the constructor that is added after the registration; and what \<open>load_lib\<close> passes,
  the functions it has found in the shared object.
\<close>

definition builtin_reg :: "'g hooked \<Rightarrow> 'g lib_reg" where
  "builtin_reg l =
     (let l' = lib_register (library.truncate l) in
      \<lparr>reg_name = lib_name l, open_func = lib_open l', init_func = lib_init l', unload_func = lib_unload l\<rparr>)"

definition shared_reg :: "'g hooked \<Rightarrow> 'g lib_reg" where
  "shared_reg l =
     \<lparr>reg_name = petrel_lib_name l, open_func = petrel_lib_open l, init_func = petrel_lib_init l,
      unload_func = Some (petrel_lib_unload l)\<rparr>"

text \<open>The object file of a library that is built with the macros.\<close>

definition exported :: "'g hooked \<Rightarrow> shared_object" where
  "exported l = \<lparr>so_name = Some (petrel_lib_name l), so_has_open = True, so_has_init = True,
     so_has_load = True, so_has_unload = True\<rparr>"

section \<open>Hooks run once\<close>

definition register_all :: "'g hooked list \<Rightarrow> 'g hooked list \<Rightarrow> 'g lib_registry \<Rightarrow> 'g lib_registry" where
  "register_all bs ls R =
     fold (\<lambda>l. register_shared_lib (shared_reg l) (Some (petrel_lib_load l))) ls
       (fold (\<lambda>l. register_builtin_lib (builtin_reg l) (lib_load l)) bs R)"

lemma fold_register_builtin:
  "fold (\<lambda>l. register_builtin_lib (builtin_reg l) (lib_load l)) bs R =
     R\<lparr>libs_builtin := libs_builtin R @ map builtin_reg bs, lib_data := fold petrel_lib_load bs (lib_data R)\<rparr>"
  by (induction bs arbitrary: R) (simp_all add: register_builtin_lib_def petrel_lib_load_def)

lemma fold_register_shared:
  "fold (\<lambda>l. register_shared_lib (shared_reg l) (Some (petrel_lib_load l))) ls R =
     R\<lparr>libs_shared := libs_shared R @ map shared_reg ls, lib_data := fold petrel_lib_load ls (lib_data R)\<rparr>"
  by (induction ls arbitrary: R) (simp_all add: register_shared_lib_def call_hook_def)

lemma register_all_eq:
  "register_all bs ls R =
     R\<lparr>libs_builtin := libs_builtin R @ map builtin_reg bs, libs_shared := libs_shared R @ map shared_reg ls,
       lib_data := fold petrel_lib_load (bs @ ls) (lib_data R)\<rparr>"
  by (simp add: register_all_def fold_register_builtin fold_register_shared)

text \<open>
  Over the life of the process every registered library's load function has run once, in the
  order of the registrations, and at its end the unload function of every shared library, once
  and in that order; a builtin library's unload function never runs.
\<close>

lemma hooks_run_once:
  "lib_data (unload_registry (register_all bs ls \<lparr>libs_builtin = [], libs_shared = [], lib_data = g\<rparr>)) =
     fold petrel_lib_unload ls (fold petrel_lib_load (bs @ ls) g)"
proof -
  have "fold (\<lambda>lib. call_hook (unload_func lib)) (map shared_reg ls) d = fold petrel_lib_unload ls d" for d
    by (induction ls arbitrary: d) (simp_all add: shared_reg_def call_hook_def)
  then show ?thesis by (simp add: unload_registry_def register_all_eq)
qed

section \<open>What a state offers\<close>

text \<open>Registered libraries are loaded as the libraries they were built from.\<close>

definition as_builtin :: "'g hooked \<Rightarrow> library" where
  "as_builtin l = lib_register (library.truncate l)"

lemma fold_result_map: "fold_result f s (map h xs) = fold_result (\<lambda>s x. f s (h x)) s xs"
  by (induction xs arbitrary: s) (auto split: sum.splits)

lemma as_builtin_name: "lib_name (as_builtin l) = lib_name l"
  by (simp add: as_builtin_def lib_register_def lib_add_function_def library.truncate_def)

lemma load_registered_builtin: "load_registered (map builtin_reg bs) s = load_libs_into (map as_builtin bs) s"
  unfolding load_registered_def load_libs_into_def fold_result_map
  by (simp add: builtin_reg_def as_builtin_name [unfolded as_builtin_def] as_builtin_def Let_def)

lemma load_registered_shared:
  "load_registered (map shared_reg ls) s = load_libs_into (map library.truncate ls) s"
  unfolding load_registered_def load_libs_into_def fold_result_map
  by (simp add: shared_reg_def petrel_lib_name_def petrel_lib_open_def petrel_lib_init_def library.truncate_def)

lemma load_registry_all:
  "load_registry (register_all bs ls \<lparr>libs_builtin = [], libs_shared = [], lib_data = g\<rparr>) s =
     load_libs_into (map as_builtin bs @ map library.truncate ls) s"
  by (cases "load_libs_into (map as_builtin bs) s")
    (simp_all add: load_registry_def register_all_eq load_registered_builtin load_registered_shared,
      simp_all add: load_libs_into_def fold_result_append)

text \<open>
  The whole way of a shared library: \<open>load_lib\<close> registers the one in the first directory whose file
  ends the search, and a state in which no registered name is taken, loaded from the registry,
  offers every registered library, builtin or shared, and each function it declares under its name.
\<close>

lemma shared_library_registered:
  assumes "\<forall>q \<in> set skipped. is_ok (dl_exists dl (lib_file cfg (c_str lib) q)) \<and> \<not> ends_search cfg dl (c_str lib) q"
    and "dl_exists dl (lib_file cfg (c_str lib) p) = Inr True"
    and "dl_open dl (lib_file cfg (c_str lib) p) = Some (exported l)"
  shows "load_lib cfg dl (Some lib) (skipped @ p # rest) m = Inr (register_lib (lib_name l) m)"
proof -
  have "load_from cfg dl (c_str lib) (skipped @ qs) m = load_from cfg dl (c_str lib) qs m" for qs
    using assms(1)
  proof (induction skipped)
    case (Cons q skipped)
    with load_from_skips [of dl cfg "c_str lib" q] show ?case by (simp del: load_from.simps)
  qed simp
  with assms(2,3) show ?thesis by (simp add: load_lib_def exported_def petrel_lib_name_def)
qed

lemma registry_offers:
  assumes "distinct (map lib_name (map as_builtin bs @ map library.truncate ls))"
    and "\<forall>l \<in> set (map as_builtin bs @ map library.truncate ls). Library.complete l \<and> reg s (lib_name l) = Nil_value"
  shows "\<exists>s'. load_registry (register_all bs ls \<lparr>libs_builtin = [], libs_shared = [], lib_data = g\<rparr>) s = Inr s' \<and>
    (\<forall>l \<in> set (map as_builtin bs @ map library.truncate ls). loaded l s' \<and>
      (\<forall>f h. (Some f, h) \<in> set (library_functions l) \<and> f \<notin> {''__index'', ''__metatable''} \<and>
         (\<forall>h'. (Some f, h') \<in> set (library_functions l) \<longrightarrow> h' = h) \<longrightarrow>
         member s' (globals s' (lib_name l)) f = Cfun h))"
proof -
  from load_libs_loaded [OF assms] obtain s' where
    "load_libs_into (map as_builtin bs @ map library.truncate ls) s = Inr s'"
    "\<forall>l \<in> set (map as_builtin bs @ map library.truncate ls). loaded l s'" by blast
  then show ?thesis unfolding load_registry_all by (meson loaded_function)
qed

end
