(* ===== verification/Text.thy ===== *)
theory Text
  imports Lua_Engine
begin

text \<open>
  Text as the C and C++ libraries read it, for the components that parse: \<open>std::getline\<close> on a
  stream over a buffer, \<open>atoi\<close>, searching and the comparison of prefixes without regard to case.
\<close>

section \<open>Streams\<close>

text \<open>The characters left in the buffer, and whether the end has been met.\<close>

record istream =
  unread :: string
  at_end :: bool

definition open_stream :: "string \<Rightarrow> istream" where
  "open_stream buf = \<lparr>unread = buf, at_end = False\<rparr>"

definition newline :: char where
  "newline = CHR 0x0A"

definition carriage_return :: char where
  "carriage_return = CHR 0x0D"

definition crlf :: string where
  "crlf = [carriage_return, newline]"

text \<open>\<open>std::getline\<close>: \<open>None\<close> when the stream fails, which it does when there is nothing to extract.\<close>

definition getline :: "istream \<Rightarrow> (string \<times> istream) option" where
  "getline st =
     (if at_end st \<or> unread st = [] then None
      else
        (let line = takeWhile (\<lambda>c. c \<noteq> newline) (unread st); rest = dropWhile (\<lambda>c. c \<noteq> newline) (unread st) in
         Some (line, if rest = [] then \<lparr>unread = [], at_end = True\<rparr>
                     else st\<lparr>unread := tl rest\<rparr>)))"

lemma getline_shorter: "getline st = Some (line, st') \<Longrightarrow> length (unread st') < length (unread st)"
proof -
  assume g: "getline st = Some (line, st')"
  let ?rest = "dropWhile (\<lambda>c. c \<noteq> newline) (unread st)"
  have "length ?rest \<le> length (unread st)" by (rule length_dropWhile_le)
  moreover have "unread st \<noteq> []" using g by (auto simp: getline_def split: if_splits)
  ultimately show ?thesis using g by (cases "?rest") (auto simp: getline_def Let_def split: if_splits)
qed

text \<open>A complete line is read off the front.\<close>

lemma getline_line:
  "newline \<notin> set line \<Longrightarrow> getline \<lparr>unread = line @ newline # rest, at_end = False\<rparr> =
     Some (line, \<lparr>unread = rest, at_end = False\<rparr>)"
proof -
  assume "newline \<notin> set line"
  then have "\<And>c. c \<in> set line \<Longrightarrow> c \<noteq> newline" by auto
  then show ?thesis by (simp add: getline_def Let_def takeWhile_append2 dropWhile_append2)
qed

section \<open>Numbers\<close>

definition is_space :: "char \<Rightarrow> bool" where
  "is_space c \<longleftrightarrow> (9 \<le> (of_char c :: nat) \<and> (of_char c :: nat) \<le> 13) \<or> (of_char c :: nat) = 32"

definition is_digit :: "char \<Rightarrow> bool" where
  "is_digit c \<longleftrightarrow> 48 \<le> (of_char c :: nat) \<and> (of_char c :: nat) \<le> 57"

text \<open>
  \<open>atoi\<close> up to the range of a \<open>long\<close>, which the C library converts by saturation, and the cast
  to \<open>int\<close>.
\<close>

definition atoi :: "string \<Rightarrow> int" where
  "atoi s =
     (let s = dropWhile is_space s;
          (neg, s) = (case s of c # cs \<Rightarrow> if c = CHR ''-'' then (True, cs) else if c = CHR ''+'' then (False, cs)
                                else (False, s) | [] \<Rightarrow> (False, s));
          n = int (of_decimal (takeWhile is_digit s));
          i = (if neg then - n else n) in
      to_c_int (max (- (2 ^ 63)) (min (2 ^ 63 - 1) i)))"

lemma is_digit_char: "d < 10 \<Longrightarrow> is_digit (char_of (48 + d :: nat))"
  by (simp add: is_digit_def)

lemma to_string_digits: "c \<in> set (to_string n) \<Longrightarrow> is_digit c"
proof (induction n rule: to_string.induct)
  case (1 n)
  then show ?case
    by (subst (asm) to_string.simps) (auto simp: is_digit_char split: if_splits)
qed

lemma to_string_nonempty: "to_string n \<noteq> []"
  by (subst to_string.simps) simp

lemma is_digit_others: "is_digit c \<Longrightarrow> \<not> is_space c \<and> c \<noteq> CHR ''-'' \<and> c \<noteq> CHR ''+''"
  by (auto simp: is_digit_def is_space_def)

lemma to_c_int_id: "- (2 ^ 31) \<le> i \<Longrightarrow> i < 2 ^ 31 \<Longrightarrow> to_c_int i = i"
  by (simp add: to_c_int_def sint32_id)

lemma atoi_to_string:
  assumes "n < 2 ^ 31" "rest = [] \<or> \<not> is_digit (hd rest)"
  shows "atoi (to_string n @ rest) = int n"
proof -
  obtain c cs where c: "to_string n = c # cs" using to_string_nonempty [of n] by (cases "to_string n") auto
  then have d: "is_digit c" using to_string_digits [of c n] by simp
  have "takeWhile is_digit (to_string n @ rest) = to_string n @ takeWhile is_digit rest"
    by (rule takeWhile_append2) (rule to_string_digits)
  also have "takeWhile is_digit rest = []" using assms(2) by (cases rest) auto
  finally have t: "takeWhile is_digit (c # cs @ rest) = to_string n" by (simp add: c)
  have "max (- (2 ^ 63)) (min (2 ^ 63 - 1) (int n)) = int n" using assms(1) by simp
  moreover have "to_c_int (int n) = int n" using assms(1) by (intro to_c_int_id) simp_all
  moreover have "of_decimal (c # cs) = n" using of_decimal_to_string [of n] by (simp add: c)
  ultimately show ?thesis
    using is_digit_others [OF d] t by (simp add: atoi_def c Let_def del: takeWhile.simps)
qed

section \<open>Searching\<close>

text \<open>\<open>s.find(c, n)\<close>, \<open>None\<close> for \<open>npos\<close>, and \<open>s.find(p) == 0\<close>.\<close>

definition find_char :: "char \<Rightarrow> nat \<Rightarrow> string \<Rightarrow> nat option" where
  "find_char c n s = (if c \<in> set (drop n s) then Some (n + index_of c (drop n s)) else None)"

text \<open>\<open>boost::algorithm::istarts_with\<close> with the letters of the classic locale.\<close>

definition to_lower :: "char \<Rightarrow> char" where
  "to_lower c = (if 65 \<le> (of_char c :: nat) \<and> (of_char c :: nat) \<le> 90 then char_of ((of_char c :: nat) + 32) else c)"

definition istarts_with :: "string \<Rightarrow> string \<Rightarrow> bool" where
  "istarts_with s p \<longleftrightarrow> prefix (map to_lower p) (map to_lower s)"

end
