(* ===== verification/Resolver_Cache.thy ===== *)
theory Resolver_Cache
  imports Options
begin

text \<open>
  The cache of host names (\<open>src/core/resolver_cache.h\<close>, \<open>resolver_cache.cpp\<close>): a table for each
  protocol, each behind its mutex, which is released while the name is looked up. Endpoints are
  \<open>'e\<close>, times are the nanoseconds of the system's clock; the resolver is the library's.
\<close>

section \<open>The tables\<close>

record 'e dns_entry =
  expires :: int
  entries :: "'e list"

datatype protocol = Tcp | Udp

record 'e resolver_cache =
  m_ttl :: int
  m_tcp_cache :: "string \<rightharpoonup> 'e dns_entry"
  m_udp_cache :: "string \<rightharpoonup> 'e dns_entry"

definition new_resolver_cache :: "variables_map \<Rightarrow> 'e resolver_cache result" where
  "new_resolver_cache opts =
     bind_result (as_int opts ''server.dns-cache-ttl'') (\<lambda>ttl.
       Inr \<lparr>m_ttl = ttl, m_tcp_cache = Map.empty, m_udp_cache = Map.empty\<rparr>)"

fun get_cache :: "protocol \<Rightarrow> 'e resolver_cache \<Rightarrow> string \<rightharpoonup> 'e dns_entry" where
  "get_cache Tcp r = m_tcp_cache r"
| "get_cache Udp r = m_udp_cache r"

text \<open>A change of the table, through the reference \<open>get_cache\<close> returns.\<close>

fun set_cache :: "protocol \<Rightarrow> (string \<rightharpoonup> 'e dns_entry) \<Rightarrow> 'e resolver_cache \<Rightarrow> 'e resolver_cache" where
  "set_cache Tcp c r = r\<lparr>m_tcp_cache := c\<rparr>"
| "set_cache Udp c r = r\<lparr>m_udp_cache := c\<rparr>"

section \<open>Resolving\<close>

definition cache_key :: "string \<Rightarrow> string \<Rightarrow> string" where
  "cache_key host service = host @ '':'' @ service"

text \<open>The first locked section: an entry that has expired is erased.\<close>

definition check_cache :: "protocol \<Rightarrow> int \<Rightarrow> string \<Rightarrow> 'e resolver_cache \<Rightarrow> 'e list option \<times> 'e resolver_cache" where
  "check_cache p now key r =
     (case get_cache p r key of
        Some e \<Rightarrow>
          (if expires e > now then (Some (entries e), r)
           else (None, set_cache p ((get_cache p r)(key := None)) r))
      | None \<Rightarrow> (None, r))"

definition minutes :: "int \<Rightarrow> int" where
  "minutes n = n * 60 * 10 ^ 9"

text \<open>The second one.\<close>

definition store_answer :: "protocol \<Rightarrow> int \<Rightarrow> string \<Rightarrow> 'e list \<Rightarrow> 'e resolver_cache \<Rightarrow> 'e resolver_cache" where
  "store_answer p now key es r =
     set_cache p ((get_cache p r)(key \<mapsto> \<lparr>expires = now + minutes 5, entries = es\<rparr>)) r"

text \<open>The whole call when nobody else is at work; \<open>dns\<close> is the library's lookup.\<close>

definition async_resolve :: "(string \<Rightarrow> string \<Rightarrow> 'e list result) \<Rightarrow> protocol \<Rightarrow> int \<Rightarrow> string \<Rightarrow> string \<Rightarrow>
    'e resolver_cache \<Rightarrow> 'e list result \<times> 'e resolver_cache" where
  "async_resolve dns p now host service r =
     (let key = cache_key host service in
      case check_cache p now key r of
        (Some es, r) \<Rightarrow> (Inr es, r)
      | (None, r) \<Rightarrow>
          (case dns host service of
             Inl e \<Rightarrow> (Inl e, r)
           | Inr es \<Rightarrow> (Inr es, store_answer p now key es r)))"

section \<open>Concurrent calls\<close>

text \<open>
  Between the two sections other threads and fibers run. A call in flight is its protocol, host,
  service and the time it began; \<open>answers\<close> records what the lookups have yielded for whom.
\<close>

type_synonym query = "protocol \<times> string \<times> string \<times> int"

record 'e resolving =
  the_cache :: "'e resolver_cache"
  in_flight :: "query list"
  answers :: "(query \<times> 'e list) list"

inductive resolver_step :: "'e resolving \<Rightarrow> 'e resolving \<Rightarrow> bool" where
  hit: "check_cache p now (cache_key host service) (the_cache s) = (Some es, r) \<Longrightarrow>
    resolver_step s (s\<lparr>the_cache := r\<rparr>)"
| miss: "check_cache p now (cache_key host service) (the_cache s) = (None, r) \<Longrightarrow>
    resolver_step s (s\<lparr>the_cache := r, in_flight := (p, host, service, now) # in_flight s\<rparr>)"
| answer: "(p, host, service, now) \<in> set (in_flight s) \<Longrightarrow>
    resolver_step s (s\<lparr>the_cache := store_answer p now (cache_key host service) es (the_cache s),
      in_flight := remove1 (p, host, service, now) (in_flight s),
      answers := ((p, host, service, now), es) # answers s\<rparr>)"
| failure: "q \<in> set (in_flight s) \<Longrightarrow> resolver_step s (s\<lparr>in_flight := remove1 q (in_flight s)\<rparr>)"

inductive resolver_reachable :: "'e resolving \<Rightarrow> bool" where
  init: "new_resolver_cache opts = Inr r \<Longrightarrow>
    resolver_reachable \<lparr>the_cache = r, in_flight = [], answers = []\<rparr>"
| step: "resolver_reachable s \<Longrightarrow> resolver_step s s' \<Longrightarrow> resolver_reachable s'"

section \<open>Properties\<close>

lemma get_set_cache [simp]: "get_cache q (set_cache p c r) = (if q = p then c else get_cache q r)"
  by (cases p; cases q) simp_all

text \<open>Every entry is an answer to a question with its key, and expires five minutes after it was asked.\<close>

definition answered_entries :: "'e resolving \<Rightarrow> bool" where
  "answered_entries s \<longleftrightarrow>
     (\<forall>p key e. get_cache p (the_cache s) key = Some e \<longrightarrow>
        (\<exists>host service now. cache_key host service = key \<and>
           ((p, host, service, now), entries e) \<in> set (answers s) \<and> expires e = now + minutes 5))"

lemma check_cache_hit:
  "check_cache p now key r = (Some es, r') \<longleftrightarrow>
     r' = r \<and> (\<exists>e. get_cache p r key = Some e \<and> now < expires e \<and> es = entries e)"
  by (auto simp: check_cache_def split: option.splits)

lemma check_cache_entries:
  "check_cache p now key r = (x, r') \<Longrightarrow> get_cache q r' k = Some e \<Longrightarrow> get_cache q r k = Some e"
  by (auto simp: check_cache_def split: option.splits if_splits)

lemma answered_entries_step:
  assumes "resolver_step s s'" "answered_entries s"
  shows "answered_entries s'"
  using assms
proof (induction rule: resolver_step.induct)
  case (hit p now host service s es r)
  then show ?case by (simp add: check_cache_hit answered_entries_def)
next
  case (miss p now host service s r)
  then show ?case by (auto simp: answered_entries_def dest!: check_cache_entries)
next
  case (answer p host service now s es)
  show ?case unfolding answered_entries_def
  proof (intro allI impI)
    fix q key e
    let ?s = "s\<lparr>the_cache := store_answer p now (cache_key host service) es (the_cache s),
      in_flight := remove1 (p, host, service, now) (in_flight s), answers := ((p, host, service, now), es) # answers s\<rparr>"
    assume e: "get_cache q (the_cache ?s) key = Some e"
    show "\<exists>host service now. cache_key host service = key \<and>
        ((q, host, service, now), entries e) \<in> set (answers ?s) \<and> expires e = now + minutes 5"
    proof (cases "q = p \<and> key = cache_key host service")
      case True
      with e have "e = \<lparr>expires = now + minutes 5, entries = es\<rparr>" by (simp add: store_answer_def)
      with True show ?thesis by (intro exI [of _ host] exI [of _ service] exI [of _ now]) simp
    next
      case False
      with e have "get_cache q (the_cache s) key = Some e" by (auto simp: store_answer_def split: if_splits)
      with answer.prems show ?thesis unfolding answered_entries_def by fastforce
    qed
  qed
next
  case (failure q s)
  then show ?case by (simp add: answered_entries_def)
qed

lemma answered_entries_reachable: "resolver_reachable s \<Longrightarrow> answered_entries s"
proof (induction rule: resolver_reachable.induct)
  case (init opts r)
  then have "get_cache p r key = None" for p key
    by (cases p) (auto simp: new_resolver_cache_def bind_result_Inr_iff)
  then show ?case by (simp add: answered_entries_def)
qed (rule answered_entries_step)

text \<open>The key splits at the last colon.\<close>

lemma cache_key_inject:
  assumes "cache_key host service = cache_key host' service'"
    and "CHR '':'' \<notin> set service" "CHR '':'' \<notin> set service'"
  shows "host = host' \<and> service = service'"
proof -
  have rev: "rev (cache_key h s) = rev s @ CHR '':'' # rev h" for h s by (simp add: cache_key_def)
  have t: "takeWhile (\<lambda>c. c \<noteq> CHR '':'') (rev (cache_key h s)) = rev s"
    if "CHR '':'' \<notin> set s" for h s
    unfolding rev by (subst takeWhile_append2) (use that in auto)
  from t [OF assms(2), of host] t [OF assms(3), of host'] assms(1) have "service = service'" by simp
  with assms(1) show ?thesis by (simp add: cache_key_def)
qed

text \<open>
  C29. Whatever threads and fibers resolve at the same time, an answer from the cache is the answer
  of a lookup that was asked less than five minutes before, for the same protocol and a host and
  service with the same key: the same host and service when services have no colons.
\<close>
theorem cached_answers_fresh:
  assumes "resolver_reachable s" "check_cache p now (cache_key host service) (the_cache s) = (Some es, r)"
  shows "\<exists>h sv asked. ((p, h, sv, asked), es) \<in> set (answers s) \<and> now < asked + minutes 5 \<and>
    cache_key h sv = cache_key host service \<and>
    (CHR '':'' \<notin> set service \<longrightarrow> CHR '':'' \<notin> set sv \<longrightarrow> h = host \<and> sv = service)"
proof -
  from assms(2) obtain e where e: "get_cache p (the_cache s) (cache_key host service) = Some e"
    "now < expires e" "es = entries e"
    by (auto simp: check_cache_hit)
  with answered_entries_reachable [OF assms(1)] obtain h sv asked where
    k: "cache_key h sv = cache_key host service" "((p, h, sv, asked), es) \<in> set (answers s)"
      "expires e = asked + minutes 5"
    unfolding answered_entries_def by metis
  with e(2) cache_key_inject [OF k(1)] show ?thesis
    by (intro exI [of _ h] exI [of _ sv] exI [of _ asked]) simp
qed

theorem cached_answers_fresh_witness:
  "\<exists>s. resolver_reachable s \<and> fst (check_cache Tcp (minutes 4) (cache_key ''h'' ''80'') (the_cache s)) = Some [1 :: int] \<and>
     (\<exists>q. (q, [1]) \<in> set (answers s))"
proof -
  let ?r = "\<lparr>m_ttl = 5, m_tcp_cache = Map.empty, m_udp_cache = Map.empty\<rparr> :: int resolver_cache"
  let ?s0 = "\<lparr>the_cache = ?r, in_flight = [], answers = []\<rparr> :: int resolving"
  let ?s1 = "?s0\<lparr>the_cache := ?r, in_flight := [(Tcp, ''h'', ''80'', 0)]\<rparr>"
  let ?s2 = "?s1\<lparr>the_cache := store_answer Tcp 0 (cache_key ''h'' ''80'') [1] ?r, in_flight := [],
      answers := [((Tcp, ''h'', ''80'', 0), [1])]\<rparr>"
  have "new_resolver_cache [''server.dns-cache-ttl'' \<mapsto> (Int_value 5, False)] = Inr ?r"
    by (simp add: new_resolver_cache_def as_int_def)
  then have "resolver_reachable ?s0" by (rule resolver_reachable.init)
  moreover have "check_cache Tcp 0 (cache_key ''h'' ''80'') (the_cache ?s0) = (None, ?r)"
    by (simp add: check_cache_def)
  from resolver_step.miss [OF this] have "resolver_step ?s0 ?s1" by simp
  ultimately have "resolver_reachable ?s1" by (rule resolver_reachable.step)
  moreover have "(Tcp, ''h'', ''80'', 0) \<in> set (in_flight ?s1)" by simp
  from resolver_step.answer [OF this, of "[1]"] have "resolver_step ?s1 ?s2" by simp
  ultimately have r: "resolver_reachable ?s2" by (rule resolver_reachable.step)
  have c: "check_cache Tcp (minutes 4) (cache_key ''h'' ''80'') (the_cache ?s2) = (Some [1], the_cache ?s2)"
    by (simp add: check_cache_hit store_answer_def minutes_def)
  from cached_answers_fresh [OF r c] r c show ?thesis
    by (intro exI [of _ ?s2]) (simp only: fst_conv simp_thms, blast)
qed

text \<open>A call that nobody disturbs answers the calls of the next five minutes, whatever \<open>m_ttl\<close> is.\<close>

lemma async_resolve_again:
  assumes "async_resolve dns p now host service r = (Inr es, r')" "fst (check_cache p now (cache_key host service) r) = None"
    and "later < now + minutes 5"
  shows "async_resolve dns' p later host service r' = (Inr es, r')"
proof -
  obtain r1 where c: "check_cache p now (cache_key host service) r = (None, r1)"
    using assms(2) by (metis prod.collapse)
  with assms(1) have "r' = store_answer p now (cache_key host service) es r1"
    by (auto simp: async_resolve_def Let_def split: sum.splits)
  then have "check_cache p later (cache_key host service) r' = (Some es, r')"
    using assms(3) by (simp add: check_cache_hit store_answer_def)
  then show ?thesis by (simp add: async_resolve_def)
qed

end
