(* ===== verification/Http_Client.thy ===== *)
theory Http_Client
  imports Text Resolver_Cache Metric_Lib
begin

text \<open>
  The Lua library \<open>http_client\<close> (\<open>src/lib/builtin/http_client.cpp\<close>): connecting through the
  resolver's cache, building a request in the one buffer and reading the response from the
  other. As in the library \<open>metric\<close>, \<open>None\<close> is an argument that \<open>luaL_check\<close> refuses or
  \<open>lua_isstring\<close> denies.
\<close>

section \<open>The object\<close>

text \<open>Timeouts are milliseconds; \<open>'s\<close> is the socket.\<close>

record 's http_client =
  m_sock :: 's
  m_req_buf :: string
  m_res_buf :: string
  m_host :: string
  m_port :: string
  m_read_timeout :: int
  m_connect_timeout :: int
  m_keep_alive :: bool
  m_connected :: bool

definition new_http_client :: "'s \<Rightarrow> 's http_client" where
  "new_http_client k =
     \<lparr>m_sock = k, m_req_buf = '''', m_res_buf = '''', m_host = '''', m_port = '''', m_read_timeout = 5000,
      m_connect_timeout = 5000, m_keep_alive = True, m_connected = False\<rparr>"

text \<open>
  The network library. Error codes are numbers and 0 is none; a timeout that fires cancels the
  operation, which then ends with an error. Writing takes a part of the buffer, reading yields
  what was received: up to the delimiter at least, or a number of bytes at least.
\<close>

record ('e, 's) client_ops =
  co_connect :: "int \<Rightarrow> 'e list \<Rightarrow> 's \<Rightarrow> nat \<times> 's"
  co_close :: "'s \<Rightarrow> 's"
  co_write :: "string \<Rightarrow> 's \<Rightarrow> nat \<times> nat \<times> 's"
  co_read_until :: "string \<Rightarrow> int \<Rightarrow> string \<Rightarrow> 's \<Rightarrow> string \<times> nat \<times> 's"
  co_read_at_least :: "uint64 \<Rightarrow> int \<Rightarrow> 's \<Rightarrow> string \<times> nat \<times> 's"
  co_message :: "nat \<Rightarrow> string"
  co_eof :: nat

section \<open>Connecting\<close>

text \<open>The method, with the resolver's cache at the time \<open>now\<close>; only system errors are caught.\<close>

definition http_connect :: "(string \<Rightarrow> string \<Rightarrow> 'e list result) \<Rightarrow> ('e, 's) client_ops \<Rightarrow> int \<Rightarrow>
    string option \<Rightarrow> string option \<Rightarrow> 'e resolver_cache \<Rightarrow> 's http_client \<Rightarrow>
    unit result \<times> 'e resolver_cache \<times> 's http_client" where
  "http_connect dns ops now host_arg port_arg rc c =
     (case host_arg of
        None \<Rightarrow> (Inl bad_argument, rc, c)
      | Some h \<Rightarrow>
          (let c = c\<lparr>m_host := c_str h\<rparr>;
               c = c\<lparr>m_port := (case port_arg of Some p \<Rightarrow> c_str p | None \<Rightarrow> ''80'')\<rparr> in
           case async_resolve dns Tcp now (m_host c) (m_port c) rc of
             (Inl (System_error e), rc) \<Rightarrow> (Inl (Lua_error (''connect failed: '' @ co_message ops e)), rc, c)
           | (Inl e, rc) \<Rightarrow> (Inl e, rc, c)
           | (Inr eps, rc) \<Rightarrow>
               (case co_connect ops (m_connect_timeout c) eps (m_sock c) of
                  (ec, k) \<Rightarrow>
                    if ec \<noteq> 0 then (Inl (Lua_error (''connect failed: '' @ co_message ops ec)), rc, c\<lparr>m_sock := k\<rparr>)
                    else (Inr (), rc, c\<lparr>m_sock := k, m_connected := True\<rparr>))))"

definition http_close :: "('e, 's) client_ops \<Rightarrow> 's http_client \<Rightarrow> 's http_client" where
  "http_close ops c = (if m_connected c then c\<lparr>m_sock := co_close ops (m_sock c), m_connected := False\<rparr> else c)"

definition http_disconnect :: "('e, 's) client_ops \<Rightarrow> 's http_client \<Rightarrow> 's http_client" where
  "http_disconnect ops c = http_close ops c"

section \<open>Reading a response\<close>

definition invalid_response :: cpp_error where
  "invalid_response = Lua_error ''invalid response''"

text \<open>The status line; a status out of range is reported with a number that is not passed.\<close>

definition read_status_line :: "istream \<Rightarrow> (int \<times> istream) result" where
  "read_status_line st =
     (case getline st of
        None \<Rightarrow> Inl invalid_response
      | Some (line, st) \<Rightarrow>
          if \<not> prefix ''HTTP/'' line then Inl invalid_response
          else
            (case find_char CHR '' '' 5 line of
               None \<Rightarrow> Inl (Lua_error ''invalid response: no status'')
             | Some pos \<Rightarrow>
                 (let status = atoi (drop (pos + 1) line) in
                  if status < 100 \<or> status > 999 then Inl (Lua_error ''invalid response: invalid status %d'')
                  else Inr (status, st))))"

text \<open>\<open>content_len = atoi(...)\<close>: an \<open>int\<close> assigned to a \<open>size_t\<close>.\<close>

definition header_line :: "string \<Rightarrow> string \<times> uint64 \<Rightarrow> string \<times> uint64" where
  "header_line line lc =
     (case lc of (loc, len) \<Rightarrow>
        if istarts_with line ''location: '' then (drop 10 line, len)
        else if istarts_with line ''content-length: '' then (loc, word_of_int (atoi (drop 16 line)))
        else (loc, len))"

function read_header_lines :: "istream \<Rightarrow> string \<times> uint64 \<Rightarrow> (string \<times> uint64) \<times> string" where
  "read_header_lines st lc =
     (case getline st of
        None \<Rightarrow> (lc, unread st)
      | Some (line, st) \<Rightarrow>
          if line = [carriage_return] then (lc, unread st) else read_header_lines st (header_line line lc))"
  by pat_completeness auto
termination
  by (relation "measure (\<lambda>(st, lc). length (unread st))") (auto dest: getline_shorter)

declare read_header_lines.simps [simp del]

text \<open>What follows the header: the rest of the content, if the buffer does not hold it all.\<close>

definition read_content :: "('e, 's) client_ops \<Rightarrow> uint64 \<Rightarrow> 's http_client \<Rightarrow> string result \<times> 's http_client" where
  "read_content ops len c =
     (let to_read = len - of_nat (length (m_res_buf c)) in
      if to_read > 0 then
        (case co_read_at_least ops to_read (m_read_timeout c) (m_sock c) of
           (bytes, ec, k) \<Rightarrow>
             (let c = c\<lparr>m_res_buf := m_res_buf c @ bytes, m_sock := k\<rparr> in
              if ec \<noteq> 0 \<and> ec \<noteq> co_eof ops then (Inl (Lua_error (''read failed: '' @ co_message ops ec)), c)
              else (Inr (m_res_buf c), c)))
      else (Inr (m_res_buf c), c))"

text \<open>From the status line to the results for Lua: the status and the content or the location.\<close>

definition read_response :: "('e, 's) client_ops \<Rightarrow> 's http_client \<Rightarrow> (int \<times> string) result \<times> 's http_client" where
  "read_response ops c =
     (case read_status_line (open_stream (m_res_buf c)) of
        Inl e \<Rightarrow> (Inl e, c\<lparr>m_res_buf := (case getline (open_stream (m_res_buf c)) of
            None \<Rightarrow> m_res_buf c | Some (line, st) \<Rightarrow> unread st)\<rparr>)
      | Inr (status, st) \<Rightarrow>
          (case read_header_lines st ('''', 0) of
             ((loc, len), rest) \<Rightarrow>
               (let c = c\<lparr>m_res_buf := rest\<rparr> in
                if status = 302 then
                  (if loc = [] then (Inl (Lua_error ''invalid 302 redirect: no location header''), c)
                   else (Inr (status, c_str loc), c))
                else if len > 0 then
                  (case read_content ops len c of (x, c) \<Rightarrow> (map_sum id (\<lambda>s. (status, s)) x, c))
                else (Inr (status, ''''), c))))"

definition send_recv :: "('e, 's) client_ops \<Rightarrow> 's http_client \<Rightarrow> (int \<times> string) result \<times> 's http_client" where
  "send_recv ops c =
     (case co_write ops (m_req_buf c) (m_sock c) of
        (n, ec, k) \<Rightarrow>
          (let c = c\<lparr>m_req_buf := drop n (m_req_buf c), m_sock := k\<rparr> in
           if ec \<noteq> 0 then (Inl (Lua_error (co_message ops ec)), c)
           else
             (case co_read_until ops (crlf @ crlf) (m_read_timeout c) (m_res_buf c) (m_sock c) of
                (bytes, ec, k) \<Rightarrow>
                  (let c = c\<lparr>m_res_buf := m_res_buf c @ bytes, m_sock := k\<rparr> in
                   if ec \<noteq> 0 \<and> ec \<noteq> co_eof ops then (Inl (Lua_error (''read failed: '' @ co_message ops ec)), c)
                   else read_response ops c))))"

section \<open>Requests\<close>

text \<open>The lines both methods write; the connection header is there when keep-alive is off.\<close>

definition request_head :: "string \<Rightarrow> string \<Rightarrow> 's http_client \<Rightarrow> string" where
  "request_head meth path_arg c =
     meth @ '' '' @ path_arg @ '' HTTP/1.1'' @ crlf @
     ''Host: '' @ m_host c @ crlf @
     ''Accept: */*'' @ crlf @
     ''User-Agent: petrel/http_client'' @ crlf @
     (if \<not> m_keep_alive c then ''Connection: keep-alive'' @ crlf else '''')"

definition not_connected :: cpp_error where
  "not_connected = Lua_error ''not connected''"

definition http_get :: "('e, 's) client_ops \<Rightarrow> string option \<Rightarrow> 's http_client \<Rightarrow> (int \<times> string) result \<times> 's http_client" where
  "http_get ops path_arg c =
     (case path_arg of
        None \<Rightarrow> (Inl bad_argument, c)
      | Some p \<Rightarrow>
          if \<not> m_connected c then (Inl not_connected, c)
          else send_recv ops (c\<lparr>m_req_buf := m_req_buf c @ request_head ''GET'' (c_str p) c @ crlf\<rparr>))"

definition http_post :: "('e, 's) client_ops \<Rightarrow> string option \<Rightarrow> string option \<Rightarrow> 's http_client \<Rightarrow>
    (int \<times> string) result \<times> 's http_client" where
  "http_post ops path_arg data_arg c =
     (case path_arg of
        None \<Rightarrow> (Inl bad_argument, c)
      | Some p \<Rightarrow>
          (let data = (case data_arg of Some d \<Rightarrow> d | None \<Rightarrow> '''') in
           if \<not> m_connected c then (Inl not_connected, c)
           else send_recv ops (c\<lparr>m_req_buf := m_req_buf c @ request_head ''POST'' (c_str p) c @
                  ''Content-Length: '' @ to_string (length data) @ crlf @ crlf @ data\<rparr>)))"

text \<open>The settings; a Lua integer is cut down to an \<open>int\<close>.\<close>

definition read_timeout :: "int option \<Rightarrow> 's http_client \<Rightarrow> 's http_client result" where
  "read_timeout arg c = (case arg of None \<Rightarrow> Inl bad_argument | Some t \<Rightarrow> Inr (c\<lparr>m_read_timeout := to_c_int t\<rparr>))"

definition connect_timeout :: "int option \<Rightarrow> 's http_client \<Rightarrow> 's http_client result" where
  "connect_timeout arg c = (case arg of None \<Rightarrow> Inl bad_argument | Some t \<Rightarrow> Inr (c\<lparr>m_connect_timeout := to_c_int t\<rparr>))"

definition disable_keepalive :: "'s http_client \<Rightarrow> 's http_client" where
  "disable_keepalive c = c\<lparr>m_keep_alive := False\<rparr>"

section \<open>Well-formed responses\<close>

definition response_text :: "string \<Rightarrow> string list \<Rightarrow> string" where
  "response_text line hs = concat (map (\<lambda>l. l @ crlf) (line # hs)) @ crlf"

definition proper_line :: "string \<Rightarrow> bool" where
  "proper_line l \<longleftrightarrow> l \<noteq> [] \<and> newline \<notin> set l"

lemma newline_return: "newline \<noteq> carriage_return"
  by (simp add: newline_def carriage_return_def)

lemma getline_crlf:
  "newline \<notin> set l \<Longrightarrow> getline \<lparr>unread = l @ crlf @ rest, at_end = False\<rparr> =
     Some (l @ [carriage_return], \<lparr>unread = rest, at_end = False\<rparr>)"
  using getline_line [of "l @ [carriage_return]" rest] newline_return by (simp add: crlf_def)

lemma read_header_lines_text:
  "list_all proper_line hs \<Longrightarrow>
   read_header_lines \<lparr>unread = concat (map (\<lambda>l. l @ crlf) hs) @ crlf @ rest, at_end = False\<rparr> lc =
     (fold header_line (map (\<lambda>l. l @ [carriage_return]) hs) lc, rest)"
proof (induction hs arbitrary: lc)
  case Nil
  show ?case
    using getline_crlf [of "[]" rest] by (subst read_header_lines.simps) simp
next
  case (Cons h hs)
  then have "newline \<notin> set h" "h \<noteq> []" by (simp_all add: proper_line_def)
  with getline_crlf [of h "concat (map (\<lambda>l. l @ crlf) hs) @ crlf @ rest"] Cons show ?case
    by (subst read_header_lines.simps) simp
qed

text \<open>The line of the content's length, and what the lines after it leave of it.\<close>

definition length_line :: "nat \<Rightarrow> string" where
  "length_line n = ''Content-Length: '' @ to_string n"

lemma header_line_length:
  assumes "n < 2 ^ 31"
  shows "header_line (length_line n @ [carriage_return]) (loc, len) = (loc, of_nat n)"
proof -
  have "atoi (to_string n @ [carriage_return]) = int n"
    by (rule atoi_to_string [OF assms]) (simp add: is_digit_def carriage_return_def)
  moreover have "istarts_with (''Content-Length: '' @ s) ''content-length: ''" "\<not> istarts_with (''Content-Length: '' @ s) ''location: ''"
    for s by (simp_all add: istarts_with_def to_lower_def char_of_def bit_0)
  ultimately show ?thesis by (simp add: header_line_def length_line_def)
qed

definition other_line :: "string \<Rightarrow> bool" where
  "other_line l \<longleftrightarrow> \<not> istarts_with (l @ [carriage_return]) ''content-length: ''"

lemma header_lines_keep_length:
  "list_all other_line hs \<Longrightarrow>
   snd (fold header_line (map (\<lambda>l. l @ [carriage_return]) hs) lc) = snd lc"
proof (induction hs arbitrary: lc)
  case (Cons h hs)
  then have "snd (header_line (h @ [carriage_return]) lc) = snd lc"
    by (cases lc) (simp add: header_line_def other_line_def)
  with Cons show ?case by simp
qed simp

lemma header_lines_length:
  assumes "n < 2 ^ 31" "list_all other_line hs2"
  shows "snd (fold header_line (map (\<lambda>l. l @ [carriage_return]) (hs1 @ length_line n # hs2)) lc) = of_nat n"
proof -
  let ?lc = "fold header_line (map (\<lambda>l. l @ [carriage_return]) hs1) lc"
  have "header_line (length_line n @ [carriage_return]) ?lc = (fst ?lc, of_nat n)"
    by (cases ?lc) (simp add: header_line_length [OF assms(1)])
  with header_lines_keep_length [OF assms(2), of "(fst ?lc, of_nat n)"] show ?thesis by simp
qed

text \<open>The status line.\<close>

definition status_line :: "nat \<Rightarrow> string \<Rightarrow> string" where
  "status_line code reason = ''HTTP/1.1 '' @ to_string code @ '' '' @ reason"

lemma read_status_line_text:
  assumes "100 \<le> code" "code \<le> 999" "newline \<notin> set reason"
  shows "read_status_line \<lparr>unread = status_line code reason @ crlf @ rest, at_end = False\<rparr> =
    Inr (int code, \<lparr>unread = rest, at_end = False\<rparr>)"
proof -
  have "newline \<notin> set (to_string code)"
    using to_string_digits [of newline code] by (auto simp: is_digit_def newline_def)
  with assms(3) have "newline \<notin> set (status_line code reason)" by (simp add: status_line_def newline_def)
  note g = getline_crlf [OF this]
  let ?tail = "to_string code @ '' '' @ reason @ [carriage_return]"
  have d: "status_line code reason @ [carriage_return] = ''HTTP/1.1 '' @ ?tail" by (simp add: status_line_def)
  have "find_char CHR '' '' 5 (''HTTP/1.1 '' @ ?tail) = Some 8"
    by (simp add: find_char_def)
  moreover have "drop (8 + 1) (''HTTP/1.1 '' @ ?tail) = ?tail" by simp
  moreover have "atoi ?tail = int code"
    using assms(2) by (intro atoi_to_string) (simp_all add: is_digit_def)
  moreover have "prefix ''HTTP/'' (''HTTP/1.1 '' @ ?tail)" by simp
  ultimately show ?thesis using assms(1,2) unfolding read_status_line_def g d by (simp add: Let_def)
qed

lemma read_response_text:
  assumes "100 \<le> code" "code \<le> 999" "code \<noteq> 302" "newline \<notin> set reason" "0 < n" "n < 2 ^ 31"
    and "list_all proper_line (hs1 @ length_line n # hs2)" "list_all other_line hs2"
    and "m_res_buf c = response_text (status_line code reason) (hs1 @ length_line n # hs2) @ part"
  shows "read_response ops c =
    (case read_content ops (of_nat n) (c\<lparr>m_res_buf := part\<rparr>) of (x, c) \<Rightarrow> (map_sum id (\<lambda>s. (int code, s)) x, c))"
proof -
  let ?hs = "hs1 @ length_line n # hs2"
  let ?rest = "concat (map (\<lambda>l. l @ crlf) ?hs) @ crlf @ part"
  have s: "read_status_line (open_stream (m_res_buf c)) = Inr (int code, \<lparr>unread = ?rest, at_end = False\<rparr>)"
    using read_status_line_text [OF assms(1,2,4), of ?rest] unfolding open_stream_def assms(9) response_text_def by simp
  obtain loc len where l: "fold header_line (map (\<lambda>l. l @ [carriage_return]) ?hs) ('''', 0) = (loc, len)" by fastforce
  have len: "len = of_nat n" using header_lines_length [OF assms(6,8), of hs1 "('''', 0)"] l by simp
  have h: "read_header_lines \<lparr>unread = ?rest, at_end = False\<rparr> ('''', 0) = ((loc, of_nat n), part)"
    using read_header_lines_text [OF assms(7), of part] l len by simp
  have "unat (of_nat n :: uint64) = n" using assms(6) by (simp add: unat_of_nat take_bit_nat_eq_self)
  with assms(5) have "(of_nat n :: uint64) > 0" by (simp add: word_less_nat_alt)
  then show ?thesis using assms(3) unfolding read_response_def s h sum.case prod.case Let_def by simp
qed

lemma send_recv_read:
  assumes "co_write ops (m_req_buf c) (m_sock c) = (w, 0, k1)"
    and "co_read_until ops (crlf @ crlf) (m_read_timeout c) (m_res_buf c) k1 = (bytes, ec, k2)" "ec \<in> {0, co_eof ops}"
  shows "send_recv ops c = read_response ops
    (c\<lparr>m_req_buf := drop w (m_req_buf c), m_res_buf := m_res_buf c @ bytes, m_sock := k2\<rparr>)"
  using assms by (auto simp: send_recv_def)

text \<open>
  What the network does for one request: it takes the request \<open>req\<close>, then delivers the header with
  the first part of the content, and when asked for the bytes that are missing, the second part.
\<close>

definition delivers :: "('e, 's) client_ops \<Rightarrow> int \<Rightarrow> 's \<Rightarrow> string \<Rightarrow> string \<Rightarrow> string \<Rightarrow> string \<Rightarrow> bool" where
  "delivers ops t k req head part1 part2 \<longleftrightarrow>
     (\<exists>k1 k2 ec. co_write ops req k = (length req, 0, k1) \<and>
        co_read_until ops (crlf @ crlf) t '''' k1 = (head @ part1, ec, k2) \<and> ec \<in> {0, co_eof ops} \<and>
        (part2 = '''' \<or> (\<exists>k3 ec. co_read_at_least ops (of_nat (length part2)) t k2 = (part2, ec, k3) \<and> ec \<in> {0, co_eof ops})))"

lemma http_get_reads:
  assumes "m_connected c" "m_req_buf c = ''''" "m_res_buf c = ''''"
    and "100 \<le> code" "code \<le> 999" "code \<noteq> 302" "newline \<notin> set reason" "0 < n" "n < 2 ^ 31"
    and "list_all proper_line (hs1 @ length_line n # hs2)" "list_all other_line hs2"
    and "length (part1 @ part2) = n"
    and "delivers ops (m_read_timeout c) (m_sock c) (request_head ''GET'' (c_str p) c @ crlf)
      (response_text (status_line code reason) (hs1 @ length_line n # hs2)) part1 part2"
  shows "\<exists>c'. http_get ops (Some p) c = (Inr (int code, part1 @ part2), c') \<and> m_connected c' \<and>
    m_req_buf c' = '''' \<and> m_res_buf c' = part1 @ part2"
proof -
  let ?req = "request_head ''GET'' (c_str p) c @ crlf"
  let ?head = "response_text (status_line code reason) (hs1 @ length_line n # hs2)"
  from assms(13) obtain k1 k2 ec where w: "co_write ops ?req (m_sock c) = (length ?req, 0, k1)" and
    r: "co_read_until ops (crlf @ crlf) (m_read_timeout c) '''' k1 = (?head @ part1, ec, k2)" "ec \<in> {0, co_eof ops}" and
    rest: "part2 = '''' \<or> (\<exists>k3 ec. co_read_at_least ops (of_nat (length part2)) (m_read_timeout c) k2 = (part2, ec, k3) \<and>
      ec \<in> {0, co_eof ops})"
    unfolding delivers_def by blast
  let ?c = "c\<lparr>m_req_buf := '''', m_res_buf := ?head @ part1, m_sock := k2\<rparr>"
  have "http_get ops (Some p) c = send_recv ops (c\<lparr>m_req_buf := ?req\<rparr>)"
    using assms(1,2) by (simp add: http_get_def)
  also have "\<dots> = read_response ops ?c"
    using send_recv_read [of ops "c\<lparr>m_req_buf := ?req\<rparr>" "length ?req" k1 "?head @ part1" ec k2] w r assms(3) by simp
  also have "\<dots> = (case read_content ops (of_nat n) (?c\<lparr>m_res_buf := part1\<rparr>) of
      (x, c) \<Rightarrow> (map_sum id (\<lambda>s. (int code, s)) x, c))"
    by (rule read_response_text [OF assms(4-11)]) simp
  finally have g: "http_get ops (Some p) c = \<dots>" .
  have to_read: "(of_nat n :: uint64) - of_nat (length part1) = of_nat (length part2)"
    using assms(12) by auto
  have "length part2 < 2 ^ 64" using assms(9,12) by auto
  then have u: "unat (of_nat (length part2) :: uint64) = length part2" by (simp add: unat_of_nat take_bit_nat_eq_self)
  show ?thesis
  proof (cases "part2 = ''''")
    case True
    then show ?thesis using g to_read assms(1) by (simp add: read_content_def)
  next
    case False
    with u have "(of_nat (length part2) :: uint64) > 0" by (simp add: word_less_nat_alt)
    moreover from rest False obtain k3 ec where
      "co_read_at_least ops (of_nat (length part2)) (m_read_timeout c) k2 = (part2, ec, k3)" "ec \<in> {0, co_eof ops}"
      by blast
    ultimately show ?thesis using g to_read assms(1) by (auto simp: read_content_def Let_def)
  qed
qed

text \<open>
  C27. A well-formed response is read exactly: when the server answers the request, written as it
  should be, with a status other than 302, headers of which \<open>Content-Length\<close> is the last of its
  name, and that many bytes of content, Lua gets the status and those bytes, however the content
  is split between the reads; and the content stays in the client's buffer.
\<close>
theorem http_get_delivers:
  assumes "m_connected c" "m_req_buf c = ''''" "m_res_buf c = ''''"
    and "100 \<le> code" "code \<le> 999" "code \<noteq> 302" "newline \<notin> set reason" "0 < n" "n < 2 ^ 31"
    and "list_all proper_line (hs1 @ length_line n # hs2)" "list_all other_line hs2"
    and "length (part1 @ part2) = n"
    and "delivers ops (m_read_timeout c) (m_sock c) (request_head ''GET'' (c_str p) c @ crlf)
      (response_text (status_line code reason) (hs1 @ length_line n # hs2)) part1 part2"
  shows "\<exists>c'. http_get ops (Some p) c = (Inr (int code, part1 @ part2), c') \<and> m_connected c' \<and>
    m_req_buf c' = '''' \<and> m_res_buf c' = part1 @ part2"
  by (rule http_get_reads) (fact assms)+

text \<open>
  Content is never removed from the client's buffer: after a response with at least five bytes
  of content that do not begin with \<open>HTTP/\<close>, the next request on the connection fails as an invalid
  response, whatever the server answers, although the network reports no error.
\<close>
theorem second_get_fails:
  assumes "http_get ops (Some p) c = (Inr (code, body), c')" "code \<noteq> 302" "5 \<le> length body" "\<not> prefix ''HTTP/'' body"
    and "\<forall>req k. fst (snd (co_write ops' req k)) = 0" "\<forall>d t buf k. fst (snd (co_read_until ops' d t buf k)) = 0"
  shows "fst (http_get ops' (Some q) c') = Inl invalid_response"
proof -
  have con: "m_connected c" using assms(1) by (auto simp: http_get_def split: if_splits)
  have buf: "m_res_buf c' = body \<and> m_connected c' = m_connected c0" if "send_recv ops c0 = (Inr (code, body), c')" for c0
  proof -
    have content: "m_res_buf c2 = s \<and> m_connected c2 = m_connected c1" if "read_content ops len c1 = (Inr s, c2)" for len c1 c2 s
      using that by (auto simp: read_content_def Let_def split: if_splits prod.splits)
    have response: "m_res_buf c2 = body \<and> m_connected c2 = m_connected c1" if "read_response ops c1 = (Inr (code, body), c2)" for c1 c2
      using that assms(2,3)
      by (auto simp: read_response_def Let_def map_sum_def dest!: content split: sum.splits prod.splits if_splits)
    from that show ?thesis
      by (auto simp: send_recv_def Let_def dest!: response split: prod.splits if_splits)
  qed
  let ?c0 = "c\<lparr>m_req_buf := m_req_buf c @ request_head ''GET'' (c_str p) c @ crlf\<rparr>"
  have "send_recv ops ?c0 = (Inr (code, body), c')" using assms(1) con by (simp add: http_get_def)
  from buf [OF this] con have c': "m_res_buf c' = body" "m_connected c'" by simp_all
  let ?c1 = "c'\<lparr>m_req_buf := m_req_buf c' @ request_head ''GET'' (c_str q) c' @ crlf\<rparr>"
  obtain w k1 where w: "co_write ops' (m_req_buf ?c1) (m_sock ?c1) = (w, 0, k1)"
    using assms(5) by (metis prod.collapse)
  obtain bytes k2 where r: "co_read_until ops' (crlf @ crlf) (m_read_timeout ?c1) (m_res_buf ?c1) k1 = (bytes, 0, k2)"
    using assms(6) by (metis prod.collapse)
  let ?line = "takeWhile (\<lambda>c. c \<noteq> newline) (body @ bytes)"
  have "\<not> prefix ''HTTP/'' ?line"
  proof
    assume "prefix ''HTTP/'' ?line"
    then have "prefix ''HTTP/'' (body @ bytes)"
      by (metis takeWhile_is_prefix prefix_order.trans)
    moreover have "prefix body (body @ bytes)" "length ''HTTP/'' \<le> length body" using assms(3) by simp_all
    ultimately have "prefix ''HTTP/'' body" by (rule prefix_length_prefix)
    with assms(4) show False ..
  qed
  moreover have "body @ bytes \<noteq> []" using assms(3) by auto
  ultimately have "read_status_line (open_stream (body @ bytes)) = Inl invalid_response"
    by (simp add: read_status_line_def getline_def open_stream_def Let_def)
  then show ?thesis
    using send_recv_read [OF w r] c' by (simp add: http_get_def read_response_def)
qed

text \<open>A server that answers every request with the same five bytes, in two parts.\<close>

definition sample_client_ops :: "(nat, unit) client_ops" where
  "sample_client_ops =
     \<lparr>co_connect = (\<lambda>t es k. (0, ())), co_close = (\<lambda>k. ()), co_write = (\<lambda>req k. (length req, 0, ())),
      co_read_until = (\<lambda>d t buf k. (response_text (status_line 200 ''OK'') [length_line 5] @ ''he'', 0, ())),
      co_read_at_least = (\<lambda>n t k. (''llo'', 0, ())), co_message = (\<lambda>e. ''''), co_eof = 2\<rparr>"

definition sample_client :: "unit http_client" where
  "sample_client = (new_http_client ())\<lparr>m_host := ''h'', m_connected := True\<rparr>"

lemma sample_client_delivers:
  "delivers sample_client_ops t k req (response_text (status_line 200 ''OK'') ([] @ length_line 5 # [])) ''he'' ''llo''"
  by (simp add: delivers_def sample_client_ops_def)

lemma sample_response_lines: "list_all proper_line ([] @ length_line 5 # [])"
  by (simp add: proper_line_def length_line_def newline_def to_string.simps char_of_def bit_0)

lemma sample_get:
  "\<exists>c'. http_get sample_client_ops (Some ''/'') sample_client = (Inr (200, ''hello''), c')"
proof -
  have c: "m_connected sample_client" "m_req_buf sample_client = ''''" "m_res_buf sample_client = ''''"
    by (simp_all add: sample_client_def new_http_client_def)
  have n: "newline \<notin> set ''OK''" by (simp add: newline_def)
  from http_get_reads [OF c _ _ _ n _ _ sample_response_lines _ _ sample_client_delivers, of "''/''"]
  show ?thesis by auto
qed

theorem http_get_delivers_witness:
  "\<exists>c'. http_get sample_client_ops (Some ''/'') sample_client = (Inr (200, ''hello''), c')"
proof -
  have c: "m_connected sample_client" "m_req_buf sample_client = ''''" "m_res_buf sample_client = ''''"
    by (simp_all add: sample_client_def new_http_client_def)
  have n: "newline \<notin> set ''OK''" by (simp add: newline_def)
  from http_get_delivers [OF c _ _ _ n _ _ sample_response_lines _ _ sample_client_delivers, of "''/''"]
  show ?thesis by auto
qed

theorem second_get_fails_witness:
  "\<exists>c'. http_get sample_client_ops (Some ''/'') sample_client = (Inr (200, ''hello''), c') \<and>
     fst (http_get sample_client_ops (Some ''/'') c') = Inl invalid_response"
proof -
  obtain c' where c': "http_get sample_client_ops (Some ''/'') sample_client = (Inr (200, ''hello''), c')"
    using sample_get by blast
  have "(200 :: int) \<noteq> 302" "5 \<le> length ''hello''" "\<not> prefix ''HTTP/'' ''hello''"
    "\<forall>req k. fst (snd (co_write sample_client_ops req k)) = 0"
    "\<forall>d t buf k. fst (snd (co_read_until sample_client_ops d t buf k)) = 0"
    by (simp_all add: sample_client_ops_def)
  from second_get_fails [OF c' this] c' show ?thesis by blast
qed

lemma missing_underflows:
  assumes "n < m" "m < 2 ^ 63"
  shows "2 ^ 63 \<le> unat ((of_nat n :: uint64) - of_nat m)"
proof -
  have "unat (of_nat n :: uint64) = n" "unat (of_nat m :: uint64) = m"
    using assms by (simp_all add: unat_of_nat take_bit_nat_eq_self)
  then show ?thesis using assms by (simp add: unat_sub_if_size word_size)
qed

text \<open>
  When the first read already holds more than the announced content, the client waits for
  \<open>2^63\<close> bytes or more: the number of missing bytes wraps around. On a network that ends such a
  wait with an error, the request fails although the whole content has been received.
\<close>
theorem excess_content_fails:
  assumes "m_connected c" "m_req_buf c = ''''" "m_res_buf c = ''''"
    and "100 \<le> code" "code \<le> 999" "code \<noteq> 302" "newline \<notin> set reason" "0 < n" "n < 2 ^ 31"
    and "list_all proper_line (hs1 @ length_line n # hs2)" "list_all other_line hs2"
    and "n < length received" "length received < 2 ^ 63"
    and "delivers ops (m_read_timeout c) (m_sock c) (request_head ''GET'' (c_str p) c @ crlf)
      (response_text (status_line code reason) (hs1 @ length_line n # hs2)) received ''''"
    and "\<forall>w t k. 2 ^ 63 \<le> unat w \<longrightarrow> fst (snd (co_read_at_least ops w t k)) = aborted" "aborted \<notin> {0, co_eof ops}"
  shows "fst (http_get ops (Some p) c) = Inl (Lua_error (''read failed: '' @ co_message ops aborted))"
proof -
  let ?req = "request_head ''GET'' (c_str p) c @ crlf"
  let ?head = "response_text (status_line code reason) (hs1 @ length_line n # hs2)"
  from assms(14) obtain k1 k2 ec where w: "co_write ops ?req (m_sock c) = (length ?req, 0, k1)" and
    r: "co_read_until ops (crlf @ crlf) (m_read_timeout c) '''' k1 = (?head @ received, ec, k2)" "ec \<in> {0, co_eof ops}"
    unfolding delivers_def by blast
  let ?c = "c\<lparr>m_req_buf := '''', m_res_buf := ?head @ received, m_sock := k2\<rparr>"
  have "http_get ops (Some p) c = send_recv ops (c\<lparr>m_req_buf := ?req\<rparr>)"
    using assms(1,2) by (simp add: http_get_def)
  also have "\<dots> = read_response ops ?c"
    using send_recv_read [of ops "c\<lparr>m_req_buf := ?req\<rparr>" "length ?req" k1 "?head @ received" ec k2] w r assms(3) by simp
  also have "\<dots> = (case read_content ops (of_nat n) (?c\<lparr>m_res_buf := received\<rparr>) of
      (x, c) \<Rightarrow> (map_sum id (\<lambda>s. (int code, s)) x, c))"
    by (rule read_response_text [OF assms(4-11)]) simp
  finally have g: "http_get ops (Some p) c = \<dots>" .
  let ?w = "(of_nat n :: uint64) - of_nat (length received)"
  have u: "2 ^ 63 \<le> unat ?w" by (rule missing_underflows [OF assms(12,13)])
  then have "?w > 0" by (simp add: word_less_nat_alt)
  moreover obtain bytes k3 where "co_read_at_least ops ?w (m_read_timeout c) k2 = (bytes, aborted, k3)"
    using assms(15) u by (metis prod.collapse)
  ultimately show ?thesis using g assms(16) by (simp add: read_content_def Let_def)
qed

theorem excess_content_fails_witness:
  "fst (http_get (sample_client_ops\<lparr>co_read_until := (\<lambda>d t buf k.
       (response_text (status_line 200 ''OK'') [length_line 5] @ ''hello!'', 0, ())),
     co_read_at_least := (\<lambda>n t k. ('''', 125, ()))\<rparr>) (Some ''/'') sample_client) = Inl (Lua_error ''read failed: '')"
proof -
  let ?ops = "sample_client_ops\<lparr>co_read_until := (\<lambda>d t buf k.
       (response_text (status_line 200 ''OK'') [length_line 5] @ ''hello!'', 0, ())),
     co_read_at_least := (\<lambda>n t k. ('''', 125, ()))\<rparr>"
  have c: "m_connected sample_client" "m_req_buf sample_client = ''''" "m_res_buf sample_client = ''''"
    by (simp_all add: sample_client_def new_http_client_def)
  have n: "newline \<notin> set ''OK''" by (simp add: newline_def)
  have d: "delivers ?ops t k req (response_text (status_line 200 ''OK'') ([] @ length_line 5 # [])) ''hello!'' ''''" for t k req
    by (simp add: delivers_def sample_client_ops_def)
  have a: "\<forall>w t k. 2 ^ 63 \<le> unat w \<longrightarrow> fst (snd (co_read_at_least ?ops w t k)) = 125" "125 \<notin> {0, co_eof ?ops}"
    by (simp_all add: sample_client_ops_def)
  have m: "co_message ?ops 125 = ''''" by (simp add: sample_client_ops_def)
  from excess_content_fails [OF c _ _ _ n _ _ sample_response_lines _ _ _ d a, of "''/''"] show ?thesis
    unfolding m by simp
qed

end
