(* ===== verification/Yield.thy ===== *)
theory Yield
  imports Prelude
begin

text \<open>
  Waiting for an asynchronous operation in a fiber (\<open>src/fiber/yield.hpp\<close>,
  \<open>src/fiber/detail/yield.hpp\<close>): the token \<open>yield\<close>, the completion handler made from it, and the
  result object whose \<open>get\<close> suspends the fiber until the handler has been called. The handler
  and the fiber are two parties of a step relation, on one thread or on two.
\<close>

section \<open>Tokens, handlers and results\<close>

text \<open>
  \<open>yield_t::ec_\<close>: null, the error code the caller has bound with \<open>yield[ec]\<close>, or the one of the
  result object.
\<close>

datatype ec_pointer = Ec_null | Ec_bound | Ec_local

definition yield_bound :: ec_pointer where
  "yield_bound = Ec_bound"

text \<open>
  asio asks \<open>handler_type\<close> which handler to make of the token, by the parameters an operation's
  completion callback takes. \<open>ReturnType(error_code)\<close> is more specialised than
  \<open>ReturnType(Arg1)\<close>. For other signatures there is no handler.
\<close>

datatype parameter = Error_code_param | Other_param

datatype handler_class = Yield_void | Yield_value

fun handler_type :: "parameter list \<Rightarrow> handler_class option" where
  "handler_type [] = Some Yield_void"
| "handler_type [Error_code_param] = Some Yield_void"
| "handler_type [Other_param] = Some Yield_value"
| "handler_type [Error_code_param, p] = Some Yield_value"
| "handler_type _ = None"

text \<open>\<open>yield_handler<T>\<close> and \<open>yield_handler<void>\<close>: the pointers are injected after the construction.\<close>

record yield_handler =
  hclass :: handler_class
  ctx :: nat
  yt_ec :: ec_pointer
  ycomp :: bool
  value_ptr :: bool

definition new_yield_handler :: "handler_class \<Rightarrow> nat \<Rightarrow> ec_pointer \<Rightarrow> yield_handler" where
  "new_yield_handler cl active y = \<lparr>hclass = cl, ctx = active, yt_ec = y, ycomp = False, value_ptr = False\<rparr>"

text \<open>The constructors of \<open>async_result_base\<close> and \<open>async_result\<close>.\<close>

definition inject_base :: "yield_handler \<Rightarrow> yield_handler" where
  "inject_base h =
     (let h = h\<lparr>ycomp := True\<rparr> in if yt_ec h = Ec_null then h\<lparr>yt_ec := Ec_local\<rparr> else h)"

definition inject_value :: "yield_handler \<Rightarrow> yield_handler" where
  "inject_value h = (inject_base h)\<lparr>value_ptr := True\<rparr>"

definition async_result :: "yield_handler \<Rightarrow> yield_handler" where
  "async_result h = (case hclass h of Yield_value \<Rightarrow> inject_value h | Yield_void \<Rightarrow> inject_base h)"

text \<open>
  One operation. The fiber's side: where it is, and what \<open>get\<close> has returned or thrown. The
  handler's: how far its call has come, the context that runs it and the arguments passed. The
  spinlock is held by one of them or by nobody. \<open>misfired\<close> records a \<open>set_ready\<close> on a fiber that
  is not suspended, which the fiber library does not allow.
\<close>

datatype fiber_place = Initiating | Testing | Suspended | Ready | Resumed | Returned

datatype handler_stage = Not_called | Called | Stored | Locked | Notified | Done

datatype party = Fiber_side | Handler_side

record 'a await =
  hdl :: yield_handler
  mtx :: "party option"
  completed :: bool
  bound_ec :: nat
  local_ec :: nat
  result_value :: 'a
  place :: fiber_place
  got :: "'a result option"
  stage :: handler_stage
  caller :: nat
  passed :: "nat \<times> 'a"
  misfired :: bool

definition new_await :: "handler_class \<Rightarrow> nat \<Rightarrow> ec_pointer \<Rightarrow> nat \<Rightarrow> 'a \<Rightarrow> 'a await" where
  "new_await cl c y e v =
     \<lparr>hdl = async_result (new_yield_handler cl c y), mtx = None, completed = False, bound_ec = e,
      local_ec = 0, result_value = v, place = Initiating, got = None, stage = Not_called, caller = c,
      passed = (0, v), misfired = False\<rparr>"

section \<open>The handler's call\<close>

text \<open>
  The call: the overloads of \<open>operator()\<close>. Those without an error code pass a default one, 0. The
  overloads of \<open>yield_handler<T>\<close> hide the base's, and \<open>yield_handler<void>\<close> has no value to store: it
  goes on with the base's call, whose first piece is the lock. \<open>None\<close> is a call without an overload.
\<close>

datatype 'a completion = Complete | Complete_value 'a | Complete_ec nat | Complete_ec_value nat 'a

fun parameters :: "'a completion \<Rightarrow> parameter list" where
  "parameters Complete = []"
| "parameters (Complete_value v) = [Other_param]"
| "parameters (Complete_ec ec) = [Error_code_param]"
| "parameters (Complete_ec_value ec v) = [Error_code_param, Other_param]"

definition call_value :: "'a completion \<Rightarrow> 'a await \<Rightarrow> 'a await option" where
  "call_value c s =
     (case c of
        Complete_value v \<Rightarrow> Some (s\<lparr>stage := Called, passed := (0, v)\<rparr>)
      | Complete_ec_value ec v \<Rightarrow> Some (s\<lparr>stage := Called, passed := (ec, v)\<rparr>)
      | _ \<Rightarrow> None)"

definition call_void :: "'a completion \<Rightarrow> 'a await \<Rightarrow> 'a await option" where
  "call_void c s =
     (case c of
        Complete \<Rightarrow> Some (s\<lparr>stage := Stored, passed := (0, result_value s)\<rparr>)
      | Complete_ec ec \<Rightarrow> Some (s\<lparr>stage := Stored, passed := (ec, result_value s)\<rparr>)
      | _ \<Rightarrow> None)"

definition handler_call :: "nat \<Rightarrow> 'a completion \<Rightarrow> 'a await \<Rightarrow> 'a await option" where
  "handler_call act c s =
     (let s = s\<lparr>caller := act\<rparr> in
      case hclass (hdl s) of Yield_value \<Rightarrow> call_value c s | Yield_void \<Rightarrow> call_void c s)"

lemma handler_call_fields:
  "handler_call act c s = Some s' \<Longrightarrow> place s' = place s \<and> (stage s' = Called \<or> stage s' = Stored)"
  by (auto simp: handler_call_def call_value_def call_void_def Let_def
      split: handler_class.splits completion.splits)

text \<open>The handler that asio selects has an overload for the callback's arguments.\<close>

lemma selected_accepts: "handler_type (parameters c) = Some (hclass (hdl s)) \<longleftrightarrow> handler_call act c s \<noteq> None"
  by (cases c; cases "hclass (hdl s)") (simp_all add: handler_call_def call_value_def call_void_def)

text \<open>
  \<open>operator()(ec, t)\<close>, in the pieces other threads can see: the value is stored, the spinlock
  taken, completion and error code noted and the fiber woken unless it is the caller, and the
  spinlock released.
\<close>

definition handler_store :: "'a await \<Rightarrow> 'a await result" where
  "handler_store s =
     (if \<not> value_ptr (hdl s) then Inl Null_dereference
      else Inr (s\<lparr>result_value := snd (passed s), stage := Stored\<rparr>))"

definition handler_lock :: "'a await \<Rightarrow> 'a await result" where
  "handler_lock s =
     (if \<not> ycomp (hdl s) then Inl Null_dereference
      else Inr (s\<lparr>mtx := Some Handler_side, stage := Locked\<rparr>))"

definition set_ready :: "'a await \<Rightarrow> 'a await" where
  "set_ready s = (if place s = Suspended then s\<lparr>place := Ready\<rparr> else s\<lparr>misfired := True\<rparr>)"

definition handler_notify :: "'a await \<Rightarrow> 'a await result" where
  "handler_notify s =
     (let s = s\<lparr>completed := True, stage := Notified\<rparr>; ec = fst (passed s);
          wake = (\<lambda>s. if caller s \<noteq> ctx (hdl s) then set_ready s else s) in
      case yt_ec (hdl s) of
        Ec_null \<Rightarrow> Inl Null_dereference
      | Ec_bound \<Rightarrow> Inr (wake (s\<lparr>bound_ec := ec\<rparr>))
      | Ec_local \<Rightarrow> Inr (wake (s\<lparr>local_ec := ec\<rparr>)))"

definition handler_unlock :: "'a await \<Rightarrow> 'a await" where
  "handler_unlock s = s\<lparr>mtx := None, stage := Done\<rparr>"

section \<open>The fiber\<close>

text \<open>\<open>yield_completion::wait\<close>: the lock, then the test; suspending releases the lock.\<close>

definition wait_lock :: "'a await \<Rightarrow> 'a await" where
  "wait_lock s = s\<lparr>mtx := Some Fiber_side, place := Testing\<rparr>"

definition wait_test :: "'a await \<Rightarrow> 'a await" where
  "wait_test s = s\<lparr>mtx := None, place := (if \<not> completed s then Suspended else Resumed)\<rparr>"

text \<open>The scheduler runs a fiber that is ready; then \<open>get\<close> throws or returns.\<close>

definition run_ready :: "'a await \<Rightarrow> 'a await" where
  "run_ready s = s\<lparr>place := Resumed\<rparr>"

definition get_result :: "'a await \<Rightarrow> 'a result" where
  "get_result s = (if local_ec s \<noteq> 0 then Inl (System_error (local_ec s)) else Inr (result_value s))"

section \<open>Interleavings\<close>

text \<open>
  Fibers of one thread take turns: another context runs only when this fiber is suspended, and
  the fiber runs only when no handler is half done. With \<open>threads\<close> another thread may call the
  handler at any time. A call by the fiber itself happens while it initiates the operation.
\<close>

definition may_call :: "bool \<Rightarrow> nat \<Rightarrow> 'a await \<Rightarrow> bool" where
  "may_call threads act s \<longleftrightarrow>
     (if act = ctx (hdl s) then place s = Initiating else threads \<or> place s = Suspended)"

definition may_run :: "bool \<Rightarrow> 'a await \<Rightarrow> bool" where
  "may_run threads s \<longleftrightarrow> stage s \<in> {Not_called, Done} \<or> threads \<and> caller s \<noteq> ctx (hdl s)"

inductive await_step :: "bool \<Rightarrow> 'a await \<Rightarrow> 'a await \<Rightarrow> bool" for threads where
  call: "stage s = Not_called \<Longrightarrow> may_call threads act s \<Longrightarrow> handler_call act c s = Some s' \<Longrightarrow>
    await_step threads s s'"
| store: "stage s = Called \<Longrightarrow> handler_store s = Inr s' \<Longrightarrow> await_step threads s s'"
| hlock: "stage s = Stored \<Longrightarrow> mtx s = None \<Longrightarrow> handler_lock s = Inr s' \<Longrightarrow> await_step threads s s'"
| notify: "stage s = Locked \<Longrightarrow> handler_notify s = Inr s' \<Longrightarrow> await_step threads s s'"
| unlock: "stage s = Notified \<Longrightarrow> await_step threads s (handler_unlock s)"
| wlock: "place s = Initiating \<Longrightarrow> may_run threads s \<Longrightarrow> mtx s = None \<Longrightarrow> await_step threads s (wait_lock s)"
| test: "place s = Testing \<Longrightarrow> may_run threads s \<Longrightarrow> await_step threads s (wait_test s)"
| ready: "place s = Ready \<Longrightarrow> may_run threads s \<Longrightarrow> await_step threads s (run_ready s)"
| return: "place s = Resumed \<Longrightarrow> may_run threads s \<Longrightarrow>
    await_step threads s (s\<lparr>place := Returned, got := Some (get_result s)\<rparr>)"

inductive_cases await_stepE: "await_step threads s s'"

inductive await_reachable :: "bool \<Rightarrow> 'a await \<Rightarrow> bool" for threads where
  init: "y \<in> {Ec_null, yield_bound} \<Longrightarrow> await_reachable threads (new_await cl c y e v)"
| step: "await_reachable threads s \<Longrightarrow> await_step threads s s' \<Longrightarrow> await_reachable threads s'"

section \<open>On one thread\<close>

definition outcome :: "'a await \<Rightarrow> 'a result" where
  "outcome s =
     (case passed s of (ec, v) \<Rightarrow>
        if yt_ec (hdl s) = Ec_local \<and> ec \<noteq> 0 then Inl (System_error ec) else Inr v)"

text \<open>Where the fiber can be at each stage of the handler's call.\<close>

fun places :: "handler_stage \<Rightarrow> bool \<Rightarrow> fiber_place set" where
  "places Not_called inline = {Initiating, Testing, Suspended}"
| "places Notified inline = {if inline then Initiating else Ready}"
| "places Done inline = {Initiating, Testing, Ready, Resumed, Returned}"
| "places _ inline = {if inline then Initiating else Suspended}"

definition await_inv :: "'a await \<Rightarrow> bool" where
  "await_inv s \<longleftrightarrow>
     ycomp (hdl s) \<and> value_ptr (hdl s) = (hclass (hdl s) = Yield_value) \<and>
     (stage s = Called \<longrightarrow> hclass (hdl s) = Yield_value) \<and> yt_ec (hdl s) \<noteq> Ec_null \<and> \<not> misfired s \<and>
     place s \<in> places (stage s) (caller s = ctx (hdl s)) \<and>
     mtx s = (if place s = Testing then Some Fiber_side
              else if stage s \<in> {Locked, Notified} then Some Handler_side else None) \<and>
     completed s = (stage s \<in> {Notified, Done}) \<and>
     (stage s \<in> {Not_called, Called} \<or> result_value s = snd (passed s)) \<and>
     (yt_ec (hdl s) = Ec_bound \<and> completed s \<longrightarrow> bound_ec s = fst (passed s)) \<and>
     local_ec s = (if yt_ec (hdl s) = Ec_local \<and> completed s then fst (passed s) else 0) \<and>
     got s = (if place s = Returned then Some (outcome s) else None)"

lemma await_inv_init: "y \<in> {Ec_null, yield_bound} \<Longrightarrow> await_inv (new_await cl c y e v)"
  by (cases cl) (auto simp: await_inv_def new_await_def async_result_def inject_value_def inject_base_def new_yield_handler_def yield_bound_def)

lemma await_inv_store: "await_inv s \<Longrightarrow> stage s = Called \<Longrightarrow> handler_store s = Inr s' \<Longrightarrow> await_inv s'"
  by (clarsimp simp: await_inv_def outcome_def handler_store_def)

lemma await_inv_hlock: "await_inv s \<Longrightarrow> stage s = Stored \<Longrightarrow> handler_lock s = Inr s' \<Longrightarrow> await_inv s'"
  by (clarsimp simp: await_inv_def outcome_def handler_lock_def split: if_splits)

lemma await_inv_unlock: "await_inv s \<Longrightarrow> stage s = Notified \<Longrightarrow> await_inv (handler_unlock s)"
  by (clarsimp simp: await_inv_def outcome_def handler_unlock_def split: if_splits)

lemma await_inv_wlock: "await_inv s \<Longrightarrow> may_run False s \<Longrightarrow> place s = Initiating \<Longrightarrow> await_inv (wait_lock s)"
  by (clarsimp simp: await_inv_def outcome_def wait_lock_def may_run_def) (elim disjE; simp)

lemma await_inv_notify:
  assumes "await_inv s" "stage s = Locked" "handler_notify s = Inr s'"
  shows "await_inv s'"
proof (cases "caller s = ctx (hdl s)")
  case True
  with assms show ?thesis
    by (cases "yt_ec (hdl s)") (clarsimp simp: await_inv_def outcome_def handler_notify_def Let_def)+
next
  case False
  with assms show ?thesis
    by (cases "yt_ec (hdl s)") (clarsimp simp: await_inv_def outcome_def handler_notify_def set_ready_def Let_def)+
qed

lemma await_inv_test:
  assumes "await_inv s" "may_run False s" "place s = Testing"
  shows "await_inv (wait_test s)"
proof -
  from assms(2) consider "stage s = Not_called" | "stage s = Done" by (auto simp: may_run_def)
  then show ?thesis using assms
    by cases (clarsimp simp: await_inv_def outcome_def wait_test_def)+
qed

lemma await_inv_ready: "await_inv s \<Longrightarrow> may_run False s \<Longrightarrow> place s = Ready \<Longrightarrow> await_inv (run_ready s)"
  by (clarsimp simp: await_inv_def outcome_def run_ready_def may_run_def) (elim disjE; simp)

lemma await_inv_return:
  assumes "await_inv s" "may_run False s" "place s = Resumed"
  shows "await_inv (s\<lparr>place := Returned, got := Some (get_result s)\<rparr>)"
proof -
  from assms have d: "stage s = Done" by (auto simp: await_inv_def may_run_def)
  show ?thesis using assms d
    by (cases "passed s"; cases "yt_ec (hdl s)") (clarsimp simp: await_inv_def outcome_def get_result_def)+
qed

lemma await_inv_call:
  assumes "await_inv s" "stage s = Not_called" "may_call False act s" "handler_call act c s = Some s'"
  shows "await_inv s'"
proof (cases "hclass (hdl s)")
  case Yield_void
  with assms show ?thesis
    by (cases "act = ctx (hdl s)"; cases c)
       (clarsimp simp: await_inv_def outcome_def may_call_def handler_call_def call_void_def)+
next
  case Yield_value
  with assms show ?thesis
    by (cases "act = ctx (hdl s)"; cases c)
       (clarsimp simp: await_inv_def outcome_def may_call_def handler_call_def call_value_def)+
qed

lemmas await_inv_steps = await_inv_store await_inv_hlock await_inv_notify await_inv_unlock
  await_inv_wlock await_inv_test await_inv_ready await_inv_return await_inv_call

lemma await_inv_step: "await_step False s s' \<Longrightarrow> await_inv s \<Longrightarrow> await_inv s'"
  by (erule await_stepE) (auto intro: await_inv_steps)

lemma await_inv_reachable: "await_reachable False s \<Longrightarrow> await_inv s"
  by (induction rule: await_reachable.induct) (auto intro: await_inv_init [simplified] await_inv_step)

text \<open>
  C14. On one thread, for handlers of both classes and however the fiber and the call interleave, the fiber is woken only
  while it is suspended, and \<open>get\<close> returns only after the handler's call, with its value and with
  its error code in the bound variable, or throws the error code when none is bound.
\<close>
theorem await_delivers:
  assumes "await_reachable False s"
  shows "\<not> misfired s \<and>
    (case got s of
       None \<Rightarrow> place s \<noteq> Returned
     | Some r \<Rightarrow> stage s = Done \<and>
         (case passed s of (ec, v) \<Rightarrow>
            if yt_ec (hdl s) = Ec_bound then r = Inr v \<and> bound_ec s = ec
            else r = (if ec \<noteq> 0 then Inl (System_error ec) else Inr v)))"
proof -
  note inv = await_inv_reachable [OF assms]
  then have m: "\<not> misfired s" "yt_ec (hdl s) \<noteq> Ec_null" by (simp_all add: await_inv_def)
  show ?thesis
  proof (cases "place s = Returned")
    case False
    with inv m show ?thesis by (simp add: await_inv_def)
  next
    case True
    with inv have d: "stage s = Done" by (cases "stage s") (auto simp: await_inv_def split: if_splits)
    with inv True m show ?thesis
      by (cases "yt_ec (hdl s)"; cases "passed s") (simp_all add: await_inv_def outcome_def)
  qed
qed

definition suspend_run :: "nat await" where
  "suspend_run = (wait_test (wait_lock (new_await Yield_value 0 Ec_null 0 0)))
     \<lparr>caller := 1, stage := Called, passed := (5, 7)\<rparr>"

lemmas await_eval = suspend_run_def new_await_def async_result_def handler_call_def call_value_def inject_value_def inject_base_def new_yield_handler_def
  wait_lock_def wait_test_def handler_store_def handler_lock_def handler_notify_def handler_unlock_def
  set_ready_def run_ready_def get_result_def may_call_def may_run_def

lemma suspend_run_reachable: "await_reachable False suspend_run"
proof -
  have "await_reachable False (new_await Yield_value 0 Ec_null 0 (0 :: nat))" by (rule await_reachable.init) simp
  then have "await_reachable False (wait_lock (new_await Yield_value 0 Ec_null 0 (0 :: nat)))"
    by (rule await_reachable.step) (rule await_step.wlock; simp add: await_eval)
  then have "await_reachable False (wait_test (wait_lock (new_await Yield_value 0 Ec_null 0 (0 :: nat))))"
    by (rule await_reachable.step) (rule await_step.test; simp add: await_eval)
  then show ?thesis unfolding suspend_run_def
    by (rule await_reachable.step) (rule await_step.call [where act = 1 and c = "Complete_ec_value 5 7"]; simp add: await_eval)
qed

theorem await_delivers_witness:
  "\<exists>s :: nat await. await_reachable False s \<and> got s = Some (Inl (System_error 5))"
proof -
  define s1 where "s1 = suspend_run\<lparr>result_value := 7, stage := Stored\<rparr>"
  have "await_step False suspend_run s1"
    by (rule await_step.store) (simp_all add: s1_def await_eval)
  with suspend_run_reachable have "await_reachable False s1" by (rule await_reachable.step)
  moreover define s2 where "s2 = s1\<lparr>mtx := Some Handler_side, stage := Locked\<rparr>"
  have "await_step False s1 s2"
    by (rule await_step.hlock) (simp_all add: s1_def s2_def await_eval)
  ultimately have "await_reachable False s2" by (rule await_reachable.step)
  moreover define s3 where "s3 = s2\<lparr>completed := True, stage := Notified, local_ec := 5, place := Ready\<rparr>"
  have "await_step False s2 s3"
    by (rule await_step.notify) (simp_all add: s1_def s2_def s3_def await_eval Let_def)
  ultimately have "await_reachable False s3" by (rule await_reachable.step)
  then have "await_reachable False (handler_unlock s3)"
    by (rule await_reachable.step) (rule await_step.unlock; simp add: s3_def)
  then have "await_reachable False (run_ready (handler_unlock s3))"
    by (rule await_reachable.step)
       (rule await_step.ready; simp add: s1_def s2_def s3_def await_eval)
  moreover define s4 where "s4 = (run_ready (handler_unlock s3))\<lparr>place := Returned,
    got := Some (get_result (run_ready (handler_unlock s3)))\<rparr>"
  have "await_step False (run_ready (handler_unlock s3)) s4"
    unfolding s4_def by (rule await_step.return) (simp_all add: s1_def s2_def s3_def await_eval)
  ultimately have r: "await_reachable False s4" by (rule await_reachable.step)
  have p: "place s4 = Returned" "passed s4 = (5, 7)" "yt_ec (hdl s4) = Ec_local"
    by (simp_all add: s1_def s2_def s3_def s4_def await_eval Let_def)
  from await_delivers [OF r] p r show ?thesis
    by (intro exI [of _ s4]) (auto split: option.splits)
qed

text \<open>What is left to do once the handler has been called.\<close>

fun stage_left :: "handler_stage \<Rightarrow> nat" where
  "stage_left Not_called = 5"
| "stage_left Called = 4"
| "stage_left Stored = 3"
| "stage_left Locked = 2"
| "stage_left Notified = 1"
| "stage_left Done = 0"

fun place_left :: "fiber_place \<Rightarrow> nat" where
  "place_left Initiating = 5"
| "place_left Testing = 4"
| "place_left Suspended = 3"
| "place_left Ready = 2"
| "place_left Resumed = 1"
| "place_left Returned = 0"

definition left_to_do :: "'a await \<Rightarrow> nat" where
  "left_to_do s = stage_left (stage s) + place_left (place s)"

lemma await_step_decreases: "await_step threads s s' \<Longrightarrow> left_to_do s' < left_to_do s"
  by (erule await_stepE)
     (auto simp: left_to_do_def handler_store_def handler_lock_def handler_notify_def handler_unlock_def
       set_ready_def wait_lock_def wait_test_def run_ready_def Let_def
       dest!: handler_call_fields split: if_splits ec_pointer.splits)

lemma await_steps_bounded: "(await_step threads ^^ n) s s' \<Longrightarrow> n + left_to_do s' \<le> left_to_do s"
proof (induction n arbitrary: s')
  case (Suc n)
  then obtain t where "(await_step threads ^^ n) s t" "await_step threads t s'" by auto
  with Suc.IH [of t] await_step_decreases [of threads t s'] show ?case by simp
qed simp

lemma await_inv_steps_n:
  "(await_step False ^^ n) s s' \<Longrightarrow> await_inv s \<Longrightarrow> stage s \<noteq> Not_called \<Longrightarrow> await_inv s' \<and> stage s' \<noteq> Not_called"
proof (induction n arbitrary: s')
  case (Suc n)
  then obtain t where t: "(await_step False ^^ n) s t" "await_step False t s'" by auto
  with Suc have "await_inv t" "stage t \<noteq> Not_called" by auto
  then show ?case using t(2) await_inv_step [OF t(2)]
    by (auto simp: handler_store_def handler_lock_def handler_notify_def handler_unlock_def set_ready_def
        wait_lock_def wait_test_def run_ready_def Let_def elim!: await_stepE split: if_splits ec_pointer.splits)
qed simp

lemma await_progress:
  assumes "await_inv s" "stage s \<noteq> Not_called" "place s \<noteq> Returned"
  shows "\<exists>s'. await_step False s s'"
proof (cases "stage s")
  case Not_called
  with assms(2) show ?thesis by simp
next
  case Called
  with assms(1) have "handler_store s = Inr (s\<lparr>result_value := snd (passed s), stage := Stored\<rparr>)"
    by (simp add: handler_store_def await_inv_def)
  with Called show ?thesis by (blast intro: await_step.store)
next
  case Stored
  with assms(1) have "mtx s = None" "handler_lock s = Inr (s\<lparr>mtx := Some Handler_side, stage := Locked\<rparr>)"
    by (auto simp: handler_lock_def await_inv_def split: if_splits)
  with Stored show ?thesis by (blast intro: await_step.hlock)
next
  case Locked
  with assms(1) have "\<exists>s'. handler_notify s = Inr s'"
    by (cases "yt_ec (hdl s)") (simp_all add: handler_notify_def await_inv_def Let_def)
  with Locked show ?thesis by (blast intro: await_step.notify)
next
  case Notified
  then show ?thesis by (blast intro: await_step.unlock)
next
  case Done
  then have run: "may_run False s" by (simp add: may_run_def)
  from Done assms(1,3) have "place s \<in> {Initiating, Testing, Ready, Resumed}"
    "place s = Initiating \<longrightarrow> mtx s = None"
    by (auto simp: await_inv_def)
  with run show ?thesis by (auto intro: await_step.wlock await_step.test await_step.ready await_step.return)
qed

text \<open>
  C15. On one thread, once the handler has been called, \<open>get\<close> returns: whatever the order of the
  next steps, there are at most nine of them, and they end only when it has returned or thrown.
\<close>
theorem await_returns:
  assumes "await_reachable False s" "stage s \<noteq> Not_called" "(await_step False ^^ n) s s'"
  shows "n \<le> 9 \<and> (got s' \<noteq> None \<or> (\<exists>s''. await_step False s' s''))"
proof -
  note inv = await_inv_reachable [OF assms(1)]
  with await_inv_steps_n [OF assms(3) inv assms(2)] await_progress have
    "await_inv s'" "place s' = Returned \<or> (\<exists>s''. await_step False s' s'')" by blast+
  moreover have "left_to_do s \<le> 9"
    using assms(2) by (cases "stage s"; cases "place s") (simp_all add: left_to_do_def)
  ultimately show ?thesis using await_steps_bounded [OF assms(3)] by (auto simp: await_inv_def)
qed

theorem await_returns_witness:
  "\<exists>s :: nat await. stage s = Called \<and> (\<exists>s''. await_step False s s'')"
proof -
  have "(await_step False ^^ 0) suspend_run suspend_run" "stage suspend_run \<noteq> Not_called" "got suspend_run = None"
    "stage suspend_run = Called"
    by (simp_all add: await_eval)
  with await_returns [OF suspend_run_reachable this(2,1)] show ?thesis by blast
qed

section \<open>On two threads\<close>

text \<open>A handler called by another thread before the fiber waits wakes a fiber that runs.\<close>

lemma two_threads_misfire: "\<exists>s :: nat await. await_reachable True s \<and> misfired s"
proof -
  let ?s0 = "new_await Yield_value 0 Ec_null 0 0 :: nat await"
  have "await_reachable True ?s0" by (rule await_reachable.init) simp
  moreover define s1 where "s1 = ?s0\<lparr>caller := 1, stage := Called, passed := (0, 0)\<rparr>"
  have "await_step True ?s0 s1"
    unfolding s1_def by (rule await_step.call [where act = 1 and c = "Complete_value 0"]) (simp_all add: await_eval)
  ultimately have "await_reachable True s1" by (rule await_reachable.step)
  moreover define s2 where "s2 = s1\<lparr>result_value := 0, stage := Stored\<rparr>"
  have "await_step True s1 s2" by (rule await_step.store) (simp_all add: s1_def s2_def await_eval)
  ultimately have "await_reachable True s2" by (rule await_reachable.step)
  moreover define s3 where "s3 = s2\<lparr>mtx := Some Handler_side, stage := Locked\<rparr>"
  have "await_step True s2 s3" by (rule await_step.hlock) (simp_all add: s1_def s2_def s3_def await_eval)
  ultimately have "await_reachable True s3" by (rule await_reachable.step)
  moreover define s4 where "s4 = s3\<lparr>completed := True, stage := Notified, local_ec := 0, misfired := True\<rparr>"
  have "await_step True s3 s4"
    by (rule await_step.notify) (simp_all add: s1_def s2_def s3_def s4_def await_eval Let_def)
  ultimately have "await_reachable True s4" by (rule await_reachable.step)
  then show ?thesis by (intro exI [of _ s4]) (simp add: s4_def)
qed

end
