(* ===== verification/Digest.thy ===== *)
theory Digest
  imports Metric_Lib Text
begin

unbundle bit_operations_syntax

text \<open>
  The Lua libraries \<open>hash\<close> (\<open>src/lib/builtin/hash.cpp\<close>) and \<open>base64\<close> (\<open>base64.cpp\<close>). The message
  digests are OpenSSL's and the iterators that change the width of the symbols are Boost's:
  parameters here. An argument is \<open>None\<close> when \<open>luaL_checkstring\<close> refuses it, and ends at its first
  NUL character.
\<close>

section \<open>Message digests\<close>

text \<open>The library: whether its steps succeed, and the digest of a text.\<close>

record evp_ops =
  ev_create :: bool
  ev_init :: bool
  ev_update :: bool
  ev_final :: bool
  ev_digest :: "string \<Rightarrow> uint8 list"

definition evp_hash :: "evp_ops \<Rightarrow> string \<Rightarrow> uint8 list result" where
  "evp_hash ops data =
     (if \<not> ev_create ops then Inl (Lua_error ''failed to create md_ctx'')
      else if \<not> ev_init ops then Inl (Lua_error ''failed to initialize digest'')
      else if \<not> ev_update ops then Inl (Lua_error ''failed to update digest'')
      else if \<not> ev_final ops then Inl (Lua_error ''failed to finalize digest'')
      else Inr (ev_digest ops data))"

text \<open>A number in hexadecimal, at least two characters wide and filled with zeros.\<close>

definition hex_digit :: "nat \<Rightarrow> char" where
  "hex_digit n = (if n < 10 then char_of (48 + n) else char_of (87 + n))"

fun hex_number :: "nat \<Rightarrow> string" where
  "hex_number n = (if n < 16 then [hex_digit n] else hex_number (n div 16) @ [hex_digit (n mod 16)])"

declare hex_number.simps [simp del]

definition put_hex :: "uint8 \<Rightarrow> string" where
  "put_hex b = (let s = hex_number (unat b) in replicate (2 - length s) CHR ''0'' @ s)"

definition evp_pushhash :: "uint8 list \<Rightarrow> string" where
  "evp_pushhash h = c_str (concat (map put_hex h))"

text \<open>\<open>md5\<close> and \<open>sha1\<close> differ in the digest only; \<open>None\<close> is a digest the library does not have.\<close>

definition hash_digest :: "evp_ops option \<Rightarrow> string option \<Rightarrow> string result" where
  "hash_digest md arg =
     (case arg of
        None \<Rightarrow> Inl bad_argument
      | Some s \<Rightarrow>
          (case md of
             None \<Rightarrow> Inl (Lua_error ''failed to get sha1 md'')
           | Some ops \<Rightarrow> bind_result (evp_hash ops (c_str s)) (\<lambda>h. Inr (evp_pushhash h))))"

section \<open>FNV\<close>

fun fnv_loop :: "uint32 \<Rightarrow> string \<Rightarrow> uint32" where
  "fnv_loop h [] = h"
| "fnv_loop h (c # cs) = fnv_loop ((h * 16777619) XOR ucast (to_uint8 c)) cs"

definition fnv :: "string option \<Rightarrow> int result" where
  "fnv arg = (case arg of None \<Rightarrow> Inl bad_argument | Some s \<Rightarrow> Inr (uint (fnv_loop 2166136261 (c_str s))))"

section \<open>Base 64\<close>

definition base64_encode :: "(string \<Rightarrow> string) \<Rightarrow> string option \<Rightarrow> string result" where
  "base64_encode to64 arg =
     (case arg of
        None \<Rightarrow> Inl bad_argument
      | Some s \<Rightarrow>
          (let str = c_str s in
           Inr (c_str (to64 str @ replicate ((3 - length str mod 3) mod 3) CHR ''=''))))"

definition trim_right_nul :: "string \<Rightarrow> string" where
  "trim_right_nul s = rev (dropWhile (\<lambda>c. c = CHR 0x00) (rev s))"

definition base64_decode :: "(string \<Rightarrow> string result) \<Rightarrow> string option \<Rightarrow> string result" where
  "base64_decode from64 arg =
     (case arg of
        None \<Rightarrow> Inl bad_argument
      | Some s \<Rightarrow> bind_result (from64 (c_str s)) (\<lambda>out. Inr (c_str (trim_right_nul out))))"

section \<open>Reading the digest back\<close>

definition of_hex_digit :: "char \<Rightarrow> nat" where
  "of_hex_digit c = (let n = of_char c in if n < 58 then n - 48 else n - 87)"

fun of_hex :: "string \<Rightarrow> uint8 list" where
  "of_hex (a # b # s) = of_nat (16 * of_hex_digit a + of_hex_digit b) # of_hex s"
| "of_hex _ = []"

lemma of_hex_digit [simp]: "n < 16 \<Longrightarrow> of_hex_digit (hex_digit n) = n"
  by (simp add: of_hex_digit_def hex_digit_def Let_def)

lemma hex_digit_no_nul: "n < 16 \<Longrightarrow> hex_digit n \<noteq> CHR 0x00"
proof
  assume "n < 16" "hex_digit n = CHR 0x00"
  then have "(of_char (hex_digit n) :: nat) = 0" by simp
  with \<open>n < 16\<close> show False by (simp add: hex_digit_def split: if_splits)
qed

lemma put_hex_digits: "put_hex b = [hex_digit (unat b div 16), hex_digit (unat b mod 16)]"
proof -
  have b: "unat b < 256" using unsigned_less [of b, where 'a = nat] by simp
  show ?thesis
  proof (cases "unat b < 16")
    case True
    have "hex_digit 0 = CHR ''0''" by (simp add: hex_digit_def char_of_def bit_0)
    with True show ?thesis by (simp add: put_hex_def hex_number.simps [of "unat b"])
  next
    case False
    with b have "unat b div 16 < 16" by simp
    with False show ?thesis
      by (simp add: put_hex_def hex_number.simps [of "unat b"] hex_number.simps [of "unat b div 16"])
  qed
qed

lemma concat_put_hex:
  "length (concat (map put_hex h)) = 2 * length h \<and> CHR 0x00 \<notin> set (concat (map put_hex h)) \<and>
   of_hex (concat (map put_hex h)) = h"
proof (induction h)
  case (Cons b h)
  have d: "unat b div 16 < 16" "unat b mod 16 < 16" using unsigned_less [of b, where 'a = nat] by simp_all
  have "16 * (unat b div 16) + unat b mod 16 = unat b" by simp
  then have "(of_nat (16 * (unat b div 16) + unat b mod 16) :: uint8) = of_nat (unat b)" by (rule arg_cong)
  also have "\<dots> = b" by simp
  finally have "(of_nat (16 * (unat b div 16) + unat b mod 16) :: uint8) = b" .
  moreover from hex_digit_no_nul [OF d(1)] hex_digit_no_nul [OF d(2)]
  have "CHR 0x00 \<notin> set (put_hex b)" by (simp add: put_hex_digits)
  ultimately show ?case using Cons d by (simp add: put_hex_digits)
qed simp

text \<open>
  C40. \<open>hash.md5\<close> and \<open>hash.sha1\<close> return the digest of their argument up to its first NUL as twice
  as many hexadecimal digits, from which the digest can be read back, whatever its bytes.
\<close>
theorem hash_digest_roundtrip:
  assumes "hash_digest (Some ops) (Some s) = Inr text"
  shows "of_hex text = ev_digest ops (c_str s) \<and> length text = 2 * length (ev_digest ops (c_str s))"
proof -
  let ?h = "ev_digest ops (c_str s)"
  from assms have "text = evp_pushhash ?h"
    by (auto simp: hash_digest_def evp_hash_def split: if_splits)
  with concat_put_hex [of ?h] show ?thesis by (simp add: evp_pushhash_def c_str_id)
qed

theorem hash_digest_roundtrip_witness:
  "\<exists>text. hash_digest (Some \<lparr>ev_create = True, ev_init = True, ev_update = True, ev_final = True,
     ev_digest = (\<lambda>s. [0, 255])\<rparr>) (Some ''a'') = Inr text \<and> of_hex text = [0, 255] \<and> length text = 4"
proof -
  let ?ops = "\<lparr>ev_create = True, ev_init = True, ev_update = True, ev_final = True, ev_digest = (\<lambda>s. [0, 255])\<rparr>"
  have "\<exists>text. hash_digest (Some ?ops) (Some ''a'') = Inr text" by (simp add: hash_digest_def evp_hash_def)
  then obtain t where t: "hash_digest (Some ?ops) (Some ''a'') = Inr t" ..
  with hash_digest_roundtrip [OF t] show ?thesis by simp
qed

section \<open>FNV against its definition\<close>

text \<open>The 32-bit FNV-1 hash over numbers: multiply modulo \<open>2^32\<close>, then combine with the octet.\<close>

definition fnv1 :: "nat list \<Rightarrow> nat" where
  "fnv1 bs = foldl (\<lambda>h b. (h * 16777619 mod 2 ^ 32) XOR b) 2166136261 bs"

lemma unat_fnv_step:
  "unat ((h * 16777619) XOR ucast (to_uint8 c) :: uint32) = (unat h * 16777619 mod 2 ^ 32) XOR of_char c"
proof -
  have "unat (ucast (to_uint8 c) :: uint32) = of_char c"
  proof -
    have "(of_char c :: nat) < 2 ^ 32" by (rule less_trans [OF nat_of_char_less_256]) simp
    then have "take_bit 32 (of_char c :: nat) = of_char c" by (rule take_bit_nat_eq_self)
    then show ?thesis by (simp add: unsigned_ucast_eq)
  qed
  then show ?thesis by (simp add: unsigned_xor_eq unat_word_ariths)
qed

lemma fnv_loop_fnv1: "unat (fnv_loop h cs) = foldl (\<lambda>h b. (h * 16777619 mod 2 ^ 32) XOR b) (unat h) (map of_char cs)"
  by (induction cs arbitrary: h) (simp_all only: fnv_loop.simps list.map foldl.simps unat_fnv_step)

lemma fnv_is_fnv1: "fnv (Some s) = Inr (int (fnv1 (map of_char (c_str s))))"
proof -
  have "uint (fnv_loop 2166136261 (c_str s)) = int (unat (fnv_loop 2166136261 (c_str s)))" by simp
  also have "unat (fnv_loop 2166136261 (c_str s)) = fnv1 (map of_char (c_str s))"
    by (simp add: fnv_loop_fnv1 fnv1_def)
  finally show ?thesis by (simp add: fnv_def)
qed

section \<open>Decoding what was encoded\<close>

text \<open>
  With iterators that yield the text followed by NULs for its encoding and padding, decoding gives
  back the argument up to its first NUL.
\<close>

lemma base64_roundtrip:
  assumes "base64_encode to64 (Some s) = Inr t" "\<And>str. CHR 0x00 \<notin> set (to64 str)"
    and "from64 (to64 (c_str s) @ replicate ((3 - length (c_str s) mod 3) mod 3) CHR ''='') = Inr (c_str s @ replicate k CHR 0x00)"
  shows "base64_decode from64 (Some t) = Inr (c_str s)"
proof -
  let ?e = "to64 (c_str s) @ replicate ((3 - length (c_str s) mod 3) mod 3) CHR ''=''"
  have "CHR 0x00 \<notin> set ?e" using assms(2) [of "c_str s"] by simp
  then have e: "c_str ?e = ?e" by (rule c_str_id)
  with assms(1) have "t = ?e" by (simp add: base64_encode_def Let_def)
  with e have "c_str t = ?e" by simp
  moreover have "trim_right_nul (c_str s @ replicate k CHR 0x00) = c_str s"
  proof -
    have "dropWhile (\<lambda>c. c = CHR 0x00) (replicate k CHR 0x00 @ rev (c_str s)) = dropWhile (\<lambda>c. c = CHR 0x00) (rev (c_str s))"
      by (rule dropWhile_append2) simp
    also have "\<dots> = rev (c_str s)"
      using c_str_no_nul [of s] by (cases "c_str s" rule: rev_cases) auto
    finally show ?thesis by (simp add: trim_right_nul_def)
  qed
  ultimately show ?thesis using assms(3) c_str_id [OF c_str_no_nul [of s]] by (simp add: base64_decode_def)
qed

end
