(* ===== verification/Printing.thy ===== *)
theory Printing
  imports Lua_Utils Complex_Main
begin

text \<open>
  Printing Lua values (\<open>src/core/lua_utils.cpp\<close>): \<open>print_type\<close>, \<open>print_type_simple\<close>, \<open>print_table\<close>, Lua's
  \<open>print\<close> on top of them and \<open>dump_stack\<close>. Tables are references, as they may contain each other:
  the recursion takes fuel, and \<open>None\<close> is a call that has not returned within it.
\<close>

section \<open>Values\<close>

datatype lua_obj =
    Nil_obj
  | Bool_obj bool
  | Number_obj real
  | String_obj string
  | Lua_function nat
  | C_function nat
  | Userdata_obj nat
  | Light_userdata nat
  | Thread_obj nat
  | Table_obj nat

text \<open>
  The tables by their addresses, as pairs in the order of \<open>lua_next\<close>; how the stream writes a number
  and the pointer of \<open>lua_topointer\<close>; the escape sequences of the colours.
\<close>

record printer =
  tables :: "nat \<Rightarrow> (lua_obj \<times> lua_obj) list"
  number_text :: "real \<Rightarrow> string"
  pointer_text :: "lua_obj \<Rightarrow> string"
  yellow :: string
  white :: string
  reset :: string

fun type_name :: "lua_obj \<Rightarrow> string" where
  "type_name Nil_obj = ''nil''"
| "type_name (Bool_obj b) = ''boolean''"
| "type_name (Number_obj x) = ''number''"
| "type_name (String_obj s) = ''string''"
| "type_name (Lua_function f) = ''function''"
| "type_name (C_function f) = ''function''"
| "type_name (Userdata_obj u) = ''userdata''"
| "type_name (Light_userdata u) = ''userdata''"
| "type_name (Thread_obj t) = ''thread''"
| "type_name (Table_obj a) = ''table''"

section \<open>Printing\<close>

text \<open>\<open>show_table\<close> is whether a table is printed, by \<open>tbl\<close>.\<close>

definition print_type_simple :: "(nat \<Rightarrow> string option) \<Rightarrow> printer \<Rightarrow> lua_obj \<Rightarrow> bool \<Rightarrow> bool \<Rightarrow> string option" where
  "print_type_simple tbl pr v string_quotes show_table =
     (case v of
        String_obj s \<Rightarrow> Some (if string_quotes then ''\"'' @ c_str s @ ''\"'' else c_str s)
      | Number_obj x \<Rightarrow> Some (number_text pr x)
      | Table_obj a \<Rightarrow> (if show_table then tbl a else Some ''table...'')
      | _ \<Rightarrow> Some (type_name v))"

definition print_entry :: "(nat \<Rightarrow> string option) \<Rightarrow> printer \<Rightarrow> int \<Rightarrow> int \<Rightarrow> lua_obj \<times> lua_obj \<Rightarrow> string option" where
  "print_entry tbl pr level max_level kv =
     (case print_type_simple tbl pr (fst kv) True False of
        None \<Rightarrow> None
      | Some k \<Rightarrow>
          (case (case snd kv of
                   Table_obj a \<Rightarrow> (if max_level < 0 \<or> level < max_level then tbl a
                                  else print_type_simple tbl pr (snd kv) True False)
                 | _ \<Rightarrow> print_type_simple tbl pr (snd kv) True False) of
             None \<Rightarrow> None
           | Some v \<Rightarrow> Some (white pr @ ''{'' @ reset pr @ k @ '', '' @ v @ white pr @ ''}'' @ reset pr)))"

fun print_entries :: "(nat \<Rightarrow> string option) \<Rightarrow> printer \<Rightarrow> int \<Rightarrow> int \<Rightarrow> bool \<Rightarrow> (lua_obj \<times> lua_obj) list \<Rightarrow> string option" where
  "print_entries tbl pr level max_level first [] = Some ''''"
| "print_entries tbl pr level max_level first (kv # kvs) =
     (case print_entry tbl pr level max_level kv of
        None \<Rightarrow> None
      | Some t \<Rightarrow>
          map_option (\<lambda>ts. (if first then '''' else '', '') @ t @ ts)
            (print_entries tbl pr level max_level False kvs))"

fun print_table :: "nat \<Rightarrow> printer \<Rightarrow> int \<Rightarrow> int \<Rightarrow> nat \<Rightarrow> string option" where
  "print_table 0 pr level max_level a = None"
| "print_table (Suc n) pr level max_level a =
     map_option (\<lambda>t. yellow pr @ ''{'' @ reset pr @ t @ yellow pr @ ''}'' @ reset pr)
       (print_entries (print_table n pr (level + 1) max_level) pr level max_level True (tables pr a))"

definition print_type :: "nat \<Rightarrow> printer \<Rightarrow> lua_obj \<Rightarrow> bool \<Rightarrow> bool \<Rightarrow> int \<Rightarrow> string option" where
  "print_type fuel pr v show_type_name show_table_content max_table_depth =
     (let name = (if show_type_name then type_name v @ '': '' else '''') in
      case v of
        String_obj s \<Rightarrow> print_type_simple (\<lambda>a. None) pr v False False
      | Number_obj x \<Rightarrow> print_type_simple (\<lambda>a. None) pr v False False
      | Table_obj a \<Rightarrow>
          (if show_table_content then
             map_option (\<lambda>t. name @ pointer_text pr v @ '': '' @ t) (print_table fuel pr 0 max_table_depth a)
           else Some (name @ pointer_text pr v))
      | _ \<Rightarrow> Some (name @ pointer_text pr v))"

text \<open>Lua's \<open>print\<close> of these values; \<open>as_number\<close> is a value that Lua converts to an integer.\<close>

definition print_values :: "nat \<Rightarrow> printer \<Rightarrow> (lua_obj \<Rightarrow> int option) \<Rightarrow> lua_obj list \<Rightarrow> (int \<times> string) option" where
  "print_values fuel pr as_number args =
     map_option (\<lambda>ts. lua_print (zip (map as_number args) ts))
       (those (map (\<lambda>v. print_type fuel pr v True True (- 1)) args))"

text \<open>The lines of \<open>dump_stack\<close>, from the top of the stack down; the stack is as before.\<close>

fun dump_from :: "nat \<Rightarrow> printer \<Rightarrow> (nat \<Rightarrow> string) \<Rightarrow> lua_obj list \<Rightarrow> nat \<Rightarrow> string list option" where
  "dump_from fuel pr num st 0 = Some []"
| "dump_from fuel pr num st (Suc i) =
     (case print_type fuel pr (st ! i) False True 1 of
        None \<Rightarrow> None
      | Some t \<Rightarrow>
          map_option (Cons (''  '' @ white pr @ num (Suc i) @ '': '' @ reset pr @ type_name (st ! i) @ '': '' @ t))
            (dump_from fuel pr num st i))"

definition dump_stack :: "nat \<Rightarrow> printer \<Rightarrow> (nat \<Rightarrow> string) \<Rightarrow> lua_obj list \<Rightarrow> string list option" where
  "dump_stack fuel pr num st = dump_from fuel pr num st (length st)"

section \<open>When printing returns\<close>

text \<open>A table that is a value in another.\<close>

definition inside :: "printer \<Rightarrow> (nat \<times> nat) set" where
  "inside pr = {(b, a). \<exists>k. (k, Table_obj b) \<in> set (tables pr a)}"

lemma print_type_simple_returns: "\<exists>t. print_type_simple tbl pr v q False = Some t"
  by (cases v) (simp_all add: print_type_simple_def)

lemma print_entry_returns_iff:
  "print_entry tbl pr level max_level (k, v) \<noteq> None \<longleftrightarrow>
     (\<forall>a. v = Table_obj a \<longrightarrow> max_level < 0 \<or> level < max_level \<longrightarrow> tbl a \<noteq> None)"
  using print_type_simple_returns [of tbl pr k True] print_type_simple_returns [of tbl pr v True]
  by (cases v) (auto simp: print_entry_def split: option.splits)

lemma print_entries_returns_iff:
  "print_entries tbl pr level max_level first kvs \<noteq> None \<longleftrightarrow>
     (\<forall>k a. (k, Table_obj a) \<in> set kvs \<longrightarrow> max_level < 0 \<or> level < max_level \<longrightarrow> tbl a \<noteq> None)"
proof (induction kvs arbitrary: first)
  case (Cons kv kvs)
  obtain k v where kv: "kv = (k, v)" by (cases kv)
  have "print_entries tbl pr level max_level first (kv # kvs) \<noteq> None \<longleftrightarrow>
      print_entry tbl pr level max_level kv \<noteq> None \<and> print_entries tbl pr level max_level False kvs \<noteq> None"
    by (cases "print_entry tbl pr level max_level kv") auto
  also have "\<dots> \<longleftrightarrow> (\<forall>k a. (k, Table_obj a) \<in> set (kv # kvs) \<longrightarrow> max_level < 0 \<or> level < max_level \<longrightarrow> tbl a \<noteq> None)"
    unfolding Cons.IH kv print_entry_returns_iff by auto
  finally show ?case .
qed simp

lemma print_table_returns_iff:
  "print_table (Suc n) pr level max_level a \<noteq> None \<longleftrightarrow>
     (\<forall>b. (b, a) \<in> inside pr \<longrightarrow> max_level < 0 \<or> level < max_level \<longrightarrow> print_table n pr (level + 1) max_level b \<noteq> None)"
  using print_entries_returns_iff [of "print_table n pr (level + 1) max_level" pr level max_level True "tables pr a"]
  by (auto simp: inside_def)

lemma print_table_more:
  "n \<le> m \<Longrightarrow> print_table n pr level max_level a \<noteq> None \<Longrightarrow> print_table m pr level max_level a \<noteq> None"
proof (induction n arbitrary: m level a)
  case (Suc n)
  from Suc.prems(1) obtain m' where m: "m = Suc m'" "n \<le> m'" by (cases m) auto
  have "print_table m' pr (level + 1) max_level b \<noteq> None" if "(b, a) \<in> inside pr" "max_level < 0 \<or> level < max_level" for b
  proof -
    from Suc.prems(2) [unfolded print_table_returns_iff] that have "print_table n pr (level + 1) max_level b \<noteq> None" by blast
    then show ?thesis by (rule Suc.IH [OF m(2)])
  qed
  then show ?case unfolding m(1) print_table_returns_iff by blast
qed simp

text \<open>With a limit the depth of the recursion is bounded by it.\<close>

lemma print_table_limited:
  "level \<le> max_level \<Longrightarrow> nat (max_level - level) < n \<Longrightarrow> print_table n pr level max_level a \<noteq> None \<or> max_level < 0"
proof (induction n arbitrary: level a)
  case (Suc n)
  show ?case
  proof (cases "max_level < 0")
    case False
    have "print_table n pr (level + 1) max_level b \<noteq> None" if "level < max_level" for b
      using Suc.IH [of "level + 1" b] Suc.prems that False by simp
    with False have "print_table (Suc n) pr level max_level a \<noteq> None" unfolding print_table_returns_iff by blast
    then show ?thesis ..
  qed simp
qed simp

lemma finite_inside: "finite {b. (b, a) \<in> inside pr}"
proof -
  have "{b. (b, a) \<in> inside pr} \<subseteq> (\<lambda>kv. case snd kv of Table_obj b \<Rightarrow> b | _ \<Rightarrow> 0) ` set (tables pr a)"
    by (force simp: inside_def)
  then show ?thesis by (rule finite_subset) simp
qed

lemma print_table_unlimited:
  assumes "max_level < 0"
  shows "a \<in> Wellfounded.acc (inside pr) \<Longrightarrow> \<exists>n. \<forall>level. print_table n pr level max_level a \<noteq> None"
proof (induction rule: acc.induct)
  case (accI a)
  let ?B = "{b. (b, a) \<in> inside pr}"
  from accI have "\<forall>b\<in>?B. \<exists>n. \<forall>level. print_table n pr level max_level b \<noteq> None" by blast
  then obtain f where f: "\<forall>b\<in>?B. \<forall>level. print_table (f b) pr level max_level b \<noteq> None" by (rule bchoice [THEN exE])
  have "print_table (Max (f ` ?B)) pr level max_level b \<noteq> None" if "(b, a) \<in> inside pr" for b level
  proof (rule print_table_more)
    show "f b \<le> Max (f ` ?B)" using that finite_inside [of a pr] by (intro Max_ge) simp_all
    show "print_table (f b) pr level max_level b \<noteq> None" using f that by simp
  qed
  then have "\<forall>level. print_table (Suc (Max (f ` ?B))) pr level max_level a \<noteq> None"
    unfolding print_table_returns_iff by blast
  then show ?case by (rule exI)
qed

lemma print_table_acc:
  assumes "max_level < 0"
  shows "print_table n pr level max_level a \<noteq> None \<Longrightarrow> a \<in> Wellfounded.acc (inside pr)"
proof (induction n arbitrary: level a)
  case (Suc n)
  have "b \<in> Wellfounded.acc (inside pr)" if "(b, a) \<in> inside pr" for b
  proof -
    from Suc.prems [unfolded print_table_returns_iff] that assms have "print_table n pr (level + 1) max_level b \<noteq> None" by blast
    then show ?thesis by (rule Suc.IH)
  qed
  then show ?case by (rule acc.accI)
qed simp

lemma acc_not_cyclic: "a \<in> Wellfounded.acc R \<Longrightarrow> (a, a) \<notin> R\<^sup>+"
proof (induction rule: acc.induct)
  case (accI a)
  show ?case
  proof
    assume "(a, a) \<in> R\<^sup>+"
    then obtain b where b: "(a, b) \<in> R\<^sup>*" "(b, a) \<in> R" by (auto dest: tranclD2)
    then have "(b, b) \<in> R\<^sup>+" by auto
    with accI b(2) show False by blast
  qed
qed

text \<open>
  C21. Printing a table returns, whatever it contains, when a depth is given, after at most that
  many nested calls; without a limit, as in Lua's \<open>print\<close>, it returns exactly when no chain of
  tables inside each other goes on for ever from it: never when a table contains itself.
\<close>
theorem print_table_returns:
  "(0 \<le> max_level \<longrightarrow> print_table (Suc (nat max_level)) pr 0 max_level a \<noteq> None) \<and>
   (max_level < 0 \<longrightarrow> ((\<exists>n. print_table n pr 0 max_level a \<noteq> None) \<longleftrightarrow> a \<in> Wellfounded.acc (inside pr)) \<and>
     ((a, a) \<in> (inside pr)\<^sup>+ \<longrightarrow> (\<forall>n. print_table n pr 0 max_level a = None)))"
proof (intro conjI impI)
  assume "0 \<le> max_level"
  with print_table_limited [of 0 max_level "Suc (nat max_level)" pr a]
  show "print_table (Suc (nat max_level)) pr 0 max_level a \<noteq> None" by simp
next
  assume m: "max_level < 0"
  show iff: "(\<exists>n. print_table n pr 0 max_level a \<noteq> None) \<longleftrightarrow> a \<in> Wellfounded.acc (inside pr)"
    using print_table_unlimited [OF m, of a pr] print_table_acc [OF m, of _ pr 0 a] by blast
  assume c: "(a, a) \<in> (inside pr)\<^sup>+"
  with acc_not_cyclic [of a "inside pr"] have "a \<notin> Wellfounded.acc (inside pr)" by blast
  with iff show "\<forall>n. print_table n pr 0 max_level a = None" by blast
qed

definition cyclic_printer :: printer where
  "cyclic_printer = \<lparr>tables = (\<lambda>a. [(Number_obj 1, Table_obj a)]), number_text = (\<lambda>x. ''1''),
     pointer_text = (\<lambda>v. ''p''), yellow = '''', white = '''', reset = ''''\<rparr>"

theorem print_table_returns_witness:
  "print_table 2 cyclic_printer 0 1 7 \<noteq> None \<and> (\<forall>n. print_table n cyclic_printer 0 (- 1) 7 = None)"
proof -
  have "(7, 7) \<in> inside cyclic_printer" by (simp add: inside_def cyclic_printer_def)
  then have "(7, 7) \<in> (inside cyclic_printer)\<^sup>+" ..
  with print_table_returns [of "- 1" cyclic_printer 7] print_table_returns [of 1 cyclic_printer 7] show ?thesis
    by (simp add: numeral_2_eq_2 del: print_table.simps)
qed

end
