(* ===== verification/Reporting.thy ===== *)
theory Reporting
  imports Registry Log Resolver_Cache
begin

text \<open>
  What the registry reports (\<open>src/metrics/registry.cpp\<close>, \<open>run\<close>, and the \<open>log\<close> and \<open>graphite\<close>
  functions of \<open>counter.h\<close>, \<open>meter.h\<close> and \<open>timer.h\<close>): the text of numbers, the lines of each
  metric, a round of the periodic log and a round of the fiber that sends to graphite.
\<close>

section \<open>Text of floating point numbers\<close>

text \<open>Rounding to a whole number, to the even one of two that are equally near.\<close>

definition round_even :: "real \<Rightarrow> int" where
  "round_even x =
     (let f = \<lfloor>x\<rfloor>; d = x - of_int f in
      if d < 1 / 2 then f else if d > 1 / 2 then f + 1 else if even f then f else f + 1)"

text \<open>\<open>std::fixed\<close> with \<open>std::setprecision(2)\<close>, as \<open>log::init\<close> sets on \<open>std::clog\<close>.\<close>

definition two_digits :: "nat \<Rightarrow> string" where
  "two_digits n = (if n < 10 then ''0'' else '''') @ dec_string n"

definition show_fixed2 :: "real \<Rightarrow> string" where
  "show_fixed2 x =
     (let n = nat (round_even (\<bar>x\<bar> * 100)) in
      (if x < 0 then ''-'' else '''') @ dec_string (n div 100) @ ''.'' @ two_digits (n mod 100))"

text \<open>
  A stream's own format: six significant digits without trailing zeros, and an exponent when it
  is below -4 or above 5. \<open>scale\<close> finds the exponent; 400 steps are enough for a \<open>double\<close>,
  whose exponents lie between -324 and 308.
\<close>

fun scale :: "nat \<Rightarrow> real \<Rightarrow> int \<Rightarrow> real \<times> int" where
  "scale 0 y e = (y, e)"
| "scale (Suc k) y e =
     (if y \<ge> 10 then scale k (y / 10) (e + 1) else if y < 1 then scale k (y * 10) (e - 1) else (y, e))"

definition six_digits :: "real \<Rightarrow> nat \<times> int" where
  "six_digits x =
     (let (y, e) = scale 400 x 0; m = nat (round_even (y * 10 ^ 5)) in
      if m \<ge> 10 ^ 6 then (10 ^ 5, e + 1) else (m, e))"

definition strip_zeros :: "string \<Rightarrow> string" where
  "strip_zeros s = rev (dropWhile (\<lambda>c. c = CHR ''0'') (rev s))"

definition point :: "string \<Rightarrow> string" where
  "point ds = (if strip_zeros ds = '''' then '''' else ''.'' @ strip_zeros ds)"

definition show_double :: "real \<Rightarrow> string" where
  "show_double x =
     (if x = 0 then ''0''
      else
        (let (m, e) = six_digits \<bar>x\<bar>; ds = dec_string m in
         (if x < 0 then ''-'' else '''') @
         (if e < -4 \<or> e \<ge> 6 then
            take 1 ds @ point (drop 1 ds) @ ''e'' @ (if e < 0 then ''-'' else ''+'') @
            two_digits (nat \<bar>e\<bar>)
          else if e < 0 then ''0'' @ point (replicate (nat (- e) - 1) CHR ''0'' @ ds)
          else take (nat e + 1) ds @ point (drop (nat e + 1) ds))))"

text \<open>\<open>static_cast<int>\<close> and the text of an \<open>int\<close>.\<close>

definition truncate_int :: "real \<Rightarrow> int" where
  "truncate_int x = (if x < 0 then \<lceil>x\<rceil> else \<lfloor>x\<rfloor>)"

definition show_int :: "int \<Rightarrow> string" where
  "show_int i = (if i < 0 then ''-'' else '''') @ dec_string (nat \<bar>i\<bar>)"

section \<open>Lines for graphite\<close>

definition meter_graphite :: "string \<Rightarrow> nat \<Rightarrow> meter \<Rightarrow> string" where
  "meter_graphite name ts m =
     name @ ''.1m_rate'' @ '' '' @ show_double (m_rate_1min m) @ '' '' @ dec_string ts @ [CHR 0x0A] @
     name @ ''.5m_rate'' @ '' '' @ show_double (m_rate_5min m) @ '' '' @ dec_string ts @ [CHR 0x0A] @
     name @ ''.15m_rate'' @ '' '' @ show_double (m_rate_15min m) @ '' '' @ dec_string ts @ [CHR 0x0A] @
     name @ ''.1hr_rate'' @ '' '' @ show_double (m_rate_1hr m) @ '' '' @ dec_string ts @ [CHR 0x0A]"

definition percent :: "histogram \<Rightarrow> nat \<Rightarrow> real" where
  "percent hist n = (if h_count hist > 0 then real n / real (h_count hist) * 100 else 0)"

definition bin_graphite :: "string \<Rightarrow> nat \<Rightarrow> histogram \<Rightarrow> real \<times> nat \<Rightarrow> string" where
  "bin_graphite name ts hist p =
     name @ ''.1m_dist_'' @ show_int (truncate_int (fst p / 1000000)) @ ''ms_percent '' @
     show_double (percent hist (snd p)) @ '' '' @ dec_string ts @ [CHR 0x0A] @
     name @ ''.1m_dist_'' @ show_int (truncate_int (fst p / 1000000)) @ ''ms_count '' @
     dec_string (snd p) @ '' '' @ dec_string ts @ [CHR 0x0A]"

definition timer_graphite :: "string \<Rightarrow> nat \<Rightarrow> timer \<Rightarrow> string result" where
  "timer_graphite name ts t =
     bind_result (get_1min_histogram t) (\<lambda>hist. Inr (
       name @ ''.1m_avg_ms '' @ show_double (h_avg hist / 1000000) @ '' '' @ dec_string ts @ [CHR 0x0A] @
       name @ ''.1m_min_ms '' @ show_double (h_min hist / 1000000) @ '' '' @ dec_string ts @ [CHR 0x0A] @
       name @ ''.1m_max_ms '' @ show_double (h_max hist / 1000000) @ '' '' @ dec_string ts @ [CHR 0x0A] @
       name @ ''.1m_count '' @ dec_string (h_count hist) @ '' '' @ dec_string ts @ [CHR 0x0A] @
       concat (map (bin_graphite name ts hist) (h_dist hist))))"

text \<open>The virtual call.\<close>

fun metric_graphite :: "string \<Rightarrow> nat \<Rightarrow> metric \<Rightarrow> string result" where
  "metric_graphite name ts (Counter_metric c) = Inr (counter_graphite name ts c)"
| "metric_graphite name ts (Meter_metric m) = Inr (meter_graphite name ts m)"
| "metric_graphite name ts (Timer_metric t) = timer_graphite name ts t"

section \<open>Lines for the log\<close>

text \<open>What a statement streams to \<open>std::clog\<close>: text, \<open>std::endl\<close>, tags and priorities.\<close>

datatype out = Chars string | Endl | Tag string | Priority log_priority

fun put_out :: "string \<Rightarrow> out \<Rightarrow> log_sink \<Rightarrow> log_sink" where
  "put_out now (Chars s) l = put now s l"
| "put_out now Endl l = sync now (put now [CHR 0x0A] l)"
| "put_out now (Tag tag) l = put_tag now tag l"
| "put_out now (Priority p) l = put_priority now p l"

text \<open>\<open>log_info(M)\<close> under the tag of the scope; \<open>log_err\<close> differs in the priority.\<close>

definition log_stream :: "string \<Rightarrow> string \<Rightarrow> log_priority \<Rightarrow> out list \<Rightarrow> log_sink \<Rightarrow> log_sink" where
  "log_stream now tag p items l =
     (if to_int p \<le> m_filter_priority l
      then fold (put_out now) ([Tag tag, Priority p] @ items @ [Endl]) l else l)"

definition meter_log :: "meter \<Rightarrow> out list" where
  "meter_log m = [Chars ''1m rate '', Chars (show_fixed2 (m_rate_1min m))]"

text \<open>The loop over the bins, with its variable \<open>count\<close>.\<close>

fun bins_log :: "histogram \<Rightarrow> nat \<Rightarrow> (real \<times> nat) list \<Rightarrow> out list" where
  "bins_log hist cnt [] = []"
| "bins_log hist cnt (p # ps) =
     (if cnt > 0 then [Chars '', ''] else []) @
     [Chars (setw 5 (show_fixed2 (percent hist (snd p)))), Chars ''% >'',
      Chars (show_fixed2 (fst p / 1000000)), Chars ''ms''] @
     (if (cnt + 1) mod 5 = 0
      then [Endl, Tag '''', Priority Info, Chars ''        ''] @ bins_log hist 0 ps
      else bins_log hist (cnt + 1) ps)"

definition timer_log :: "timer \<Rightarrow> out list result" where
  "timer_log t =
     bind_result (get_1min_histogram t) (\<lambda>hist. Inr (
       [Chars ''1m  avg '', Chars (show_fixed2 (h_avg hist / 1000000)), Chars ''ms, min '',
        Chars (show_fixed2 (h_min hist / 1000000)), Chars ''ms, max '',
        Chars (show_fixed2 (h_max hist / 1000000)), Chars ''ms'', Endl,
        Tag '''', Priority Info, Chars ''1m hist ''] @ bins_log hist 0 (h_dist hist)))"

fun metric_log :: "metric \<Rightarrow> out list result" where
  "metric_log (Counter_metric c) = Inr [Chars (counter_log c)]"
| "metric_log (Meter_metric m) = Inr (meter_log m)"
| "metric_log (Timer_metric t) = timer_log t"

fun metric_visible :: "metric \<Rightarrow> bool" where
  "metric_visible (Counter_metric c) = visible_in_log c"
| "metric_visible (Meter_metric m) = visible_in_log m"
| "metric_visible (Timer_metric t) = visible_in_log t"

section \<open>The fibers of \<open>run\<close>\<close>

text \<open>
  The order in which \<open>m_metrics\<close>, an unordered map, is iterated: its elements, each once.
\<close>

definition iterates :: "registry \<Rightarrow> (string \<times> nat) list \<Rightarrow> bool" where
  "iterates r es \<longleftrightarrow> distinct (map fst es) \<and> map_of es = m_metrics r"

definition log_metric :: "string \<Rightarrow> registry \<Rightarrow> log_sink \<Rightarrow> string \<times> nat \<Rightarrow> log_sink result" where
  "log_metric now r l e =
     (let metric = heap r ! snd e in
      if metric_visible metric then
        bind_result (metric_log metric) (\<lambda>items. Inr (log_stream now (''m:'' @ fst e) Info items l))
      else Inr l)"

definition log_round :: "string \<Rightarrow> (string \<times> nat) list \<Rightarrow> registry \<Rightarrow> log_sink \<Rightarrow> log_sink result" where
  "log_round now es r l =
     bind_result (fold_result (log_metric now r)
         (log_stream now ''metrics'' Info [Chars ''----- metrics -----''] l) es)
       (\<lambda>l. Inr (log_stream now ''metrics'' Info [Chars ''-------------------''] l))"

text \<open>
  The outside of the graphite fiber: the lookup of names, the attempt to connect to one of the
  endpoints, and a write, which reports how many bytes it has transferred and an error.
\<close>

record 'e carbon =
  look_up :: "string \<Rightarrow> string \<Rightarrow> 'e list result"
  connect_to :: "'e list \<Rightarrow> unit result"
  write_all :: "string \<Rightarrow> nat \<times> nat option"

definition graphite_prefix :: "variables_map \<Rightarrow> string \<Rightarrow> string result" where
  "graphite_prefix opts host =
     bind_result (as_string opts ''metrics.graphite.prefix'') (\<lambda>p. Inr (p @ ''.'' @ host @ ''.''))"

definition graphite_lines :: "string \<Rightarrow> nat \<Rightarrow> registry \<Rightarrow> (string \<times> nat) list \<Rightarrow> string result" where
  "graphite_lines pfx ts r es =
     fold_result (\<lambda>buf (name, a). bind_result (metric_graphite (pfx @ name) ts (heap r ! a))
       (\<lambda>s. Inr (buf @ s))) '''' es"

text \<open>
  One round: what the server has received, whether an error was caught (and logged), and the
  resolver's cache. Only a \<open>system_error\<close> is caught.
\<close>

definition graphite_round :: "'e carbon \<Rightarrow> int \<Rightarrow> nat \<Rightarrow> string \<Rightarrow> (string \<times> nat) list \<Rightarrow> registry \<Rightarrow>
    'e resolver_cache \<Rightarrow> (string \<times> nat option) result \<times> 'e resolver_cache" where
  "graphite_round w now ts pfx es r c =
     (let (eps, c) = async_resolve (look_up w) Tcp now (m_graphite_host r) (m_graphite_port r) c;
          sent = bind_result eps (\<lambda>eps. bind_result (connect_to w eps) (\<lambda>_.
            bind_result (graphite_lines pfx ts r es) (\<lambda>buf.
              (case write_all w buf of (n, ec) \<Rightarrow> Inr (take n buf, ec))))) in
      (case sent of
         Inl (System_error code) \<Rightarrow> Inr ('''', Some code)
       | _ \<Rightarrow> sent, c))"

text \<open>The fibers that \<open>run\<close> starts: the log's, graphite's and the one for new metrics.\<close>

datatype run_fiber = Log_fiber | Graphite_fiber | New_metrics_fiber

definition run_fibers :: "registry \<Rightarrow> run_fiber list" where
  "run_fibers r =
     (if m_log_interval r > 0 then [Log_fiber] else []) @
     (if m_graphite_enabled r then [Graphite_fiber] else []) @ [New_metrics_fiber]"

text \<open>
  Graphite without a positive interval stays enabled, but has neither a host nor a pause
  between its rounds.
\<close>

lemma graphite_without_interval:
  assumes "new_registry opts = Inr r" "is_set opts ''metrics.graphite''"
    "as_int opts ''metrics.graphite.interval'' = Inr i" "i \<le> 0"
  shows "Graphite_fiber \<in> set (run_fibers r) \<and> m_graphite_host r = '''' \<and> m_graphite_interval r \<le> 0"
  using assms by (auto simp: new_registry_def run_fibers_def Let_def split: sum.splits)

section \<open>The plaintext protocol\<close>

text \<open>How the receiver reads it: lines, each of three fields separated by blanks.\<close>

fun split_on :: "char \<Rightarrow> string \<Rightarrow> string list" where
  "split_on c [] = [[]]"
| "split_on c (x # xs) =
     (if x = c then [] # split_on c xs
      else (case split_on c xs of [] \<Rightarrow> [[x]] | w # ws \<Rightarrow> (x # w) # ws))"

definition carbon_parse :: "string \<Rightarrow> string list list" where
  "carbon_parse s = map (split_on CHR '' '') (butlast (split_on CHR 0x0A s))"

lemma split_on_append: "c \<notin> set a \<Longrightarrow> split_on c (a @ c # b) = a # split_on c b"
  by (induction a) auto

lemma split_on_single: "c \<notin> set a \<Longrightarrow> split_on c a = [a]"
  by (induction a) auto

lemma split_on_not_Nil [simp]: "split_on c s \<noteq> []"
  by (cases s) (auto split: list.splits)

text \<open>The points a metric stands for: name, number and time.\<close>

type_synonym point_line = "string \<times> string \<times> nat"

definition line_of :: "point_line \<Rightarrow> string" where
  "line_of p = fst p @ '' '' @ fst (snd p) @ '' '' @ dec_string (snd (snd p)) @ [CHR 0x0A]"

definition fields_of :: "point_line \<Rightarrow> string list" where
  "fields_of p = [fst p, fst (snd p), dec_string (snd (snd p))]"

definition plain :: "string \<Rightarrow> bool" where
  "plain s \<longleftrightarrow> CHR '' '' \<notin> set s \<and> CHR 0x0A \<notin> set s"

lemma plain_append [simp]: "plain (a @ b) \<longleftrightarrow> plain a \<and> plain b"
  by (auto simp: plain_def)

lemma plain_Cons [simp]: "plain (c # b) \<longleftrightarrow> c \<noteq> CHR '' '' \<and> c \<noteq> CHR 0x0A \<and> plain b"
  by (auto simp: plain_def)

lemma plain_Nil [simp]: "plain []"
  by (simp add: plain_def)

lemma plain_subset: "set b \<subseteq> set a \<Longrightarrow> plain a \<Longrightarrow> plain b"
  by (auto simp: plain_def)

lemma plain_digit: "k < 10 \<Longrightarrow> char_of (48 + k :: nat) \<noteq> CHR '' '' \<and> char_of (48 + k) \<noteq> CHR 0x0A"
proof -
  assume "k < 10"
  then have "of_char (char_of (48 + k) :: char) = 48 + k" by (simp add: of_char_of)
  moreover have "of_char CHR '' '' = (32 :: nat)" "of_char CHR 0x0A = (10 :: nat)" by simp_all
  ultimately show ?thesis by fastforce
qed

lemma plain_dec_string [simp]: "plain (dec_string n)"
proof (induction n rule: dec_string.induct)
  case (1 n)
  have "n mod 10 < 10" by simp
  with 1 show ?case by (subst dec_string.simps) (simp add: plain_digit)
qed

lemma plain_strip [simp]: "plain s \<Longrightarrow> plain (strip_zeros s)"
  by (rule plain_subset [of _ s]) (auto simp: strip_zeros_def dest: set_dropWhileD)

lemma plain_point [simp]: "plain s \<Longrightarrow> plain (point s)"
  by (simp add: point_def)

lemma plain_take [simp]: "plain s \<Longrightarrow> plain (take n s)"
  by (rule plain_subset [of _ s]) (simp_all add: set_take_subset)

lemma plain_drop [simp]: "plain s \<Longrightarrow> plain (drop n s)"
  by (rule plain_subset [of _ s]) (simp_all add: set_drop_subset)

lemma plain_replicate [simp]: "plain (replicate n CHR ''0'')"
  by (induction n) simp_all

lemma plain_two_digits [simp]: "plain (two_digits n)"
  by (simp add: two_digits_def)

lemma plain_show_double [simp]: "plain (show_double x)"
  by (simp add: show_double_def Let_def split: prod.split)

lemma plain_show_int [simp]: "plain (show_int i)"
  by (simp add: show_int_def)

lemma carbon_parse_line:
  assumes "plain (fst p)" "plain (fst (snd p))"
  shows "carbon_parse (line_of p @ s) = fields_of p # carbon_parse s"
proof -
  let ?l = "fst p @ '' '' @ fst (snd p) @ '' '' @ dec_string (snd (snd p))"
  have "CHR 0x0A \<notin> set ?l" using assms plain_dec_string [of "snd (snd p)"] by (auto simp: plain_def)
  then have "split_on CHR 0x0A (line_of p @ s) = ?l # split_on CHR 0x0A s"
    using split_on_append [of "CHR 0x0A" ?l s] by (simp add: line_of_def)
  moreover have "split_on CHR '' '' ?l = fields_of p"
    using assms plain_dec_string [of "snd (snd p)"]
    by (simp add: fields_of_def plain_def split_on_append split_on_single)
  ultimately show ?thesis by (simp add: carbon_parse_def)
qed

lemma carbon_parse_lines:
  assumes "\<forall>p \<in> set ps. plain (fst p) \<and> plain (fst (snd p))"
  shows "carbon_parse (concat (map line_of ps)) = map fields_of ps"
  using assms by (induction ps) (simp_all add: carbon_parse_line, simp add: carbon_parse_def)

section \<open>What graphite receives\<close>

definition histogram_points :: "string \<Rightarrow> nat \<Rightarrow> histogram \<Rightarrow> point_line list" where
  "histogram_points name ts h =
     [(name @ ''.1m_avg_ms'', show_double (h_avg h / 1000000), ts),
      (name @ ''.1m_min_ms'', show_double (h_min h / 1000000), ts),
      (name @ ''.1m_max_ms'', show_double (h_max h / 1000000), ts),
      (name @ ''.1m_count'', dec_string (h_count h), ts)] @
     concat (map (\<lambda>(lower, n).
       (let bin = name @ ''.1m_dist_'' @ show_int (truncate_int (lower / 1000000)) in
        [(bin @ ''ms_percent'', show_double (percent h n), ts), (bin @ ''ms_count'', dec_string n, ts)]))
       (h_dist h))"

fun points :: "string \<Rightarrow> nat \<Rightarrow> metric \<Rightarrow> point_line list" where
  "points name ts (Counter_metric c) = [(name, dec_string (unat (get c)), ts)]"
| "points name ts (Meter_metric m) =
     [(name @ ''.1m_rate'', show_double (m_rate_1min m), ts),
      (name @ ''.5m_rate'', show_double (m_rate_5min m), ts),
      (name @ ''.15m_rate'', show_double (m_rate_15min m), ts),
      (name @ ''.1hr_rate'', show_double (m_rate_1hr m), ts)]"
| "points name ts (Timer_metric t) =
     (case get_1min_histogram t of Inl e \<Rightarrow> [] | Inr h \<Rightarrow> histogram_points name ts h)"

lemma timer_ok_histogram: "timer_ok t \<Longrightarrow> \<exists>h. get_1min_histogram t = Inr h"
  unfolding timer_ok_def timer_rel_def by (metis one_minute_totals)

lemma bin_graphite_points:
  "concat (map (bin_graphite name ts h) ds) =
   concat (map line_of (concat (map (\<lambda>(lower, n).
     (let bin = name @ ''.1m_dist_'' @ show_int (truncate_int (lower / 1000000)) in
      [(bin @ ''ms_percent'', show_double (percent h n), ts), (bin @ ''ms_count'', dec_string n, ts)])) ds)))"
  by (induction ds) (auto simp: bin_graphite_def line_of_def Let_def)

lemma metric_graphite_points:
  assumes "metric_ok m"
  shows "metric_graphite name ts m = Inr (concat (map line_of (points name ts m)))"
proof (cases m)
  case (Counter_metric c)
  then show ?thesis by (simp add: counter_graphite_def line_of_def get_def)
next
  case (Meter_metric m')
  then show ?thesis by (simp add: meter_graphite_def line_of_def)
next
  case (Timer_metric t)
  with assms timer_ok_histogram obtain h where "get_1min_histogram t = Inr h" by auto
  with Timer_metric show ?thesis
    by (simp add: timer_graphite_def histogram_points_def bin_graphite_points)
      (simp add: line_of_def)
qed

lemma plain_points: "plain name \<Longrightarrow> p \<in> set (points name ts m) \<Longrightarrow> plain (fst p) \<and> plain (fst (snd p))"
  by (cases m) (auto simp: histogram_points_def Let_def split: sum.splits)

definition registry_points :: "string \<Rightarrow> nat \<Rightarrow> registry \<Rightarrow> (string \<times> nat) list \<Rightarrow> point_line list" where
  "registry_points pfx ts r es = concat (map (\<lambda>(name, a). points (pfx @ name) ts (heap r ! a)) es)"

lemma graphite_lines_from:
  assumes "\<forall>e \<in> set es. metric_ok (heap r ! snd e)"
  shows "fold_result (\<lambda>buf (name, a). bind_result (metric_graphite (pfx @ name) ts (heap r ! a))
       (\<lambda>s. Inr (buf @ s))) buf es = Inr (buf @ concat (map line_of (registry_points pfx ts r es)))"
  using assms
  by (induction es arbitrary: buf) (auto simp: registry_points_def metric_graphite_points)

lemma graphite_lines_points:
  assumes "registry_inv r" "iterates r es"
  shows "graphite_lines pfx ts r es = Inr (concat (map line_of (registry_points pfx ts r es)))"
proof -
  have "metric_ok (heap r ! a)" if "(n, a) \<in> set es" for n a
  proof -
    from that assms(2) have "m_metrics r n = Some a"
      by (metis iterates_def map_of_is_SomeI)
    then have "a < length (heap r)" using assms(1) by (auto simp: registry_inv_def ran_def)
    then show ?thesis using assms(1) by (simp add: registry_inv_def list_all_length)
  qed
  then have "\<forall>e \<in> set es. metric_ok (heap r ! snd e)" by auto
  from graphite_lines_from [OF this, of pfx ts "''''"] show ?thesis by (simp add: graphite_lines_def)
qed

text \<open>
  C37. What graphite receives in a round that reaches it: whatever the threads have done to the
  registry before, reading the bytes by the plaintext protocol gives, for every metric under its
  name and for nothing else, its points under the prefix with the round's time, in the order of
  the iteration, provided that prefix and names hold neither blanks nor newlines.
\<close>
theorem graphite_receives_points:
  assumes "registry_reachable opts r" "iterates r es"
    and "plain pfx" "\<forall>e \<in> set es. plain (fst e)"
    and "async_resolve (look_up w) Tcp now (m_graphite_host r) (m_graphite_port r) c = (Inr eps, c')"
    and "connect_to w eps = Inr ()" "\<forall>s. write_all w s = (length s, None)"
  shows "\<exists>sent. graphite_round w now ts pfx es r c = (Inr (sent, None), c') \<and>
    carbon_parse sent = map fields_of (registry_points pfx ts r es)"
proof -
  let ?ps = "registry_points pfx ts r es"
  have "plain (fst p) \<and> plain (fst (snd p))" if p: "p \<in> set ?ps" for p
  proof -
    from p obtain n a where e: "(n, a) \<in> set es" "p \<in> set (points (pfx @ n) ts (heap r ! a))"
      unfolding registry_points_def by auto
    with assms(3,4) have "plain (pfx @ n)" by fastforce
    then show ?thesis by (rule plain_points [OF _ e(2)])
  qed
  then have "carbon_parse (concat (map line_of ?ps)) = map fields_of ?ps"
    by (intro carbon_parse_lines ballI)
  moreover have "graphite_round w now ts pfx es r c = (Inr (concat (map line_of ?ps), None), c')"
    using assms(5-7) graphite_lines_points [OF registry_inv_reachable [OF assms(1)] assms(2)]
    by (simp add: graphite_round_def)
  ultimately show ?thesis by blast
qed

theorem graphite_receives_points_witness:
  "\<exists>r sent. registry_reachable sample_opts r \<and>
     fst (graphite_round \<lparr>look_up = \<lambda>h s. Inr [1 :: nat], connect_to = \<lambda>es. Inr (),
         write_all = \<lambda>s. (length s, None)\<rparr> 0 17 ''petrel.h.'' [(''hits'', 0)] r
       \<lparr>m_ttl = 5, m_tcp_cache = Map.empty, m_udp_cache = Map.empty\<rparr>) = Inr (sent, None) \<and>
     carbon_parse sent = [[''petrel.h.hits'', ''0'', ''17'']]"
proof -
  obtain r0 where r0: "new_registry sample_opts = Inr r0" using new_registry_sample by blast
  then have init: "heap r0 = []" "m_metrics r0 = Map.empty"
    by (auto simp: new_registry_def Let_def split: sum.splits if_splits)
  let ?r = "snd (register_metric Counter_kind ''hits'' r0)"
  let ?w = "\<lparr>look_up = \<lambda>h s. Inr [1 :: nat], connect_to = \<lambda>es. Inr (), write_all = \<lambda>s. (length s, None)\<rparr>"
  let ?c = "\<lparr>m_ttl = 5, m_tcp_cache = Map.empty, m_udp_cache = Map.empty\<rparr> :: nat resolver_cache"
  have r: "heap ?r = [Counter_metric new_counter]" "m_metrics ?r = [''hits'' \<mapsto> 0]"
    using init by (simp_all add: register_metric_def get_metric_def Let_def)
  have reach: "registry_reachable sample_opts ?r"
    by (rule registry_reachable.step [OF registry_reachable.init [OF r0] registry_step.register])
  obtain c' where "async_resolve (look_up ?w) Tcp 0 (m_graphite_host ?r) (m_graphite_port ?r) ?c = (Inr [1], c')"
    by (simp add: async_resolve_def check_cache_def)
  from graphite_receives_points [OF reach _ _ _ this, of "[(''hits'', 0)]" "''petrel.h.''" 17] r
  obtain sent where "graphite_round ?w 0 17 ''petrel.h.'' [(''hits'', 0)] ?r ?c = (Inr (sent, None), c')"
    "carbon_parse sent = map fields_of (registry_points ''petrel.h.'' 17 ?r [(''hits'', 0)])"
    by (auto simp: iterates_def)
  moreover have "registry_points ''petrel.h.'' 17 ?r [(''hits'', 0)] = [(''petrel.h.hits'', ''0'', 17)]"
    using r by (simp add: registry_points_def new_counter_def get_def dec_string.simps char_of_def bit_0)
  moreover have "dec_string 17 = ''17''" by (simp add: dec_string.simps char_of_def bit_0)
  ultimately show ?thesis using reach by (intro exI [of _ ?r] exI [of _ sent]) (simp add: fields_of_def)
qed

text \<open>
  A round that fails, wherever it fails, leaves the fiber running: the error is the round's
  result, and the server has received at most a prefix of the lines.
\<close>

lemma graphite_round_failure:
  assumes "registry_inv r" "iterates r es"
    and "\<And>h s e. look_up w h s = Inl e \<Longrightarrow> \<exists>code. e = System_error code"
    and "\<And>eps e. connect_to w eps = Inl e \<Longrightarrow> \<exists>code. e = System_error code"
  shows "\<exists>sent ec. fst (graphite_round w now ts pfx es r c) = Inr (sent, ec) \<and>
    (\<exists>rest. concat (map line_of (registry_points pfx ts r es)) = sent @ rest)"
proof -
  let ?text = "concat (map line_of (registry_points pfx ts r es))"
  obtain eps c' where res: "async_resolve (look_up w) Tcp now (m_graphite_host r) (m_graphite_port r) c = (eps, c')"
    by force
  note lines = graphite_lines_points [OF assms(1,2)]
  show ?thesis
  proof (cases eps)
    case (Inl e)
    with res obtain h s where "look_up w h s = Inl e"
      by (auto simp: async_resolve_def Let_def split: prod.splits option.splits sum.splits)
    with assms(3) obtain code where "e = System_error code" by blast
    with Inl res have "fst (graphite_round w now ts pfx es r c) = Inr ('''', Some code)"
      by (simp add: graphite_round_def)
    then show ?thesis by simp
  next
    case (Inr es')
    show ?thesis
    proof (cases "connect_to w es'")
      case (Inl e)
      with assms(4) \<open>eps = Inr es'\<close> res show ?thesis by (fastforce simp: graphite_round_def)
    next
      case (Inr u)
      obtain n ec where "write_all w ?text = (n, ec)" by force
      with Inr \<open>eps = Inr es'\<close> res lines have
        "fst (graphite_round w now ts pfx es r c) = Inr (take n ?text, ec)"
        by (simp add: graphite_round_def)
      then show ?thesis by (metis append_take_drop_id)
    qed
  qed
qed

section \<open>Numbers are printed as they are\<close>

lemma length_dec_string: "10 ^ e \<le> n \<Longrightarrow> n < 10 ^ (e + 1) \<Longrightarrow> length (dec_string n) = e + 1"
proof (induction e arbitrary: n)
  case 0
  then show ?case by (simp add: dec_string.simps)
next
  case (Suc e)
  have "(1 :: nat) \<le> 10 ^ e" by simp
  with Suc.prems(1) have "\<not> n < 10" unfolding power_Suc by linarith
  moreover from Suc.prems have "10 ^ e \<le> n div 10" "n div 10 < 10 ^ (e + 1)"
    by (auto simp: less_eq_div_iff_mult_less_eq div_less_iff_less_mult)
  ultimately show ?case using Suc.IH by (subst dec_string.simps) simp
qed

lemma dec_string_shift: "0 < n \<Longrightarrow> dec_string (n * 10 ^ k) = dec_string n @ replicate k CHR ''0''"
proof (induction k)
  case (Suc k)
  have "\<not> n * 10 ^ Suc k < 10" using Suc.prems by simp
  then have "dec_string (n * 10 ^ Suc k) = dec_string (n * 10 ^ k) @ [CHR ''0'']"
    by (subst dec_string.simps) (simp add: char_of_def bit_0 mult.assoc)
  with Suc show ?case by (simp add: replicate_append_same)
qed simp

lemma scale_whole:
  "10 ^ e \<le> y \<Longrightarrow> y < 10 ^ (e + 1) \<Longrightarrow> e < k \<Longrightarrow> scale k y e0 = (y / 10 ^ e, e0 + int e)"
proof (induction e arbitrary: k y e0)
  case 0
  then obtain j where "k = Suc j" by (cases k) auto
  with 0 show ?case by simp
next
  case (Suc e)
  then obtain j where j: "k = Suc j" "e < j" by (cases k) auto
  have "(1 :: real) \<le> 10 ^ e" by simp
  with Suc.prems(1) have "10 \<le> y" unfolding power_Suc by linarith
  moreover have "10 ^ e \<le> y / 10" "y / 10 < 10 ^ (e + 1)" using Suc.prems by simp_all
  from Suc.IH [OF this j(2), of "e0 + 1"] have "scale j (y / 10) (e0 + 1) = (y / 10 ^ Suc e, e0 + int (Suc e))"
    by simp
  ultimately show ?case by (simp add: j(1))
qed

lemma round_even_int [simp]: "round_even (real n) = int n"
  by (simp add: round_even_def)

lemma magnitude: "0 < (n :: nat) \<Longrightarrow> n < 10 ^ 6 \<Longrightarrow> \<exists>e \<le> 5. 10 ^ e \<le> n \<and> n < 10 ^ (e + 1)"
proof -
  assume n: "0 < n" "n < 10 ^ 6"
  define e where "e = (LEAST e. n < 10 ^ (e + 1))"
  have ex: "n < 10 ^ (5 + 1)" using n by simp
  have e: "n < 10 ^ (e + 1)" "e \<le> 5"
    unfolding e_def by (rule LeastI [where P = "\<lambda>e. n < 10 ^ (e + 1)", OF ex],
      rule Least_le [where P = "\<lambda>e. n < 10 ^ (e + 1)", OF ex])
  have "10 ^ e \<le> n"
  proof (cases e)
    case (Suc d)
    then have "\<not> n < 10 ^ (d + 1)" using not_less_Least [of d "\<lambda>e. n < 10 ^ (e + 1)"] by (simp add: e_def)
    with Suc show ?thesis by simp
  qed (use n in simp)
  with e show ?thesis by blast
qed

text \<open>A whole number below a million is sent to graphite exactly.\<close>

lemma show_double_whole:
  assumes "0 < n" "n < 10 ^ 6"
  shows "show_double (real n) = dec_string n"
proof -
  from magnitude [OF assms] obtain e where e: "e \<le> 5" "10 ^ e \<le> n" "n < 10 ^ (e + 1)" by blast
  then have "scale 400 (real n) 0 = (real n / 10 ^ e, int e)"
    using scale_whole [of e "real n" 400 0] of_nat_mono [OF e(2), where ?'a = real]
      of_nat_less_iff [of n "10 ^ (e + 1)", where ?'a = real] by simp
  moreover have "real n / 10 ^ e * 10 ^ 5 = real (n * 10 ^ (5 - e))"
  proof -
    have "(10 :: real) ^ 5 = 10 ^ e * 10 ^ (5 - e)" using e(1) by (simp only: power_add [symmetric]) simp
    then show ?thesis by (simp add: field_simps)
  qed
  moreover have "n * 10 ^ (5 - e) < 10 ^ 6"
  proof -
    have "n * 10 ^ (5 - e) < 10 ^ (e + 1) * 10 ^ (5 - e)" using e(3) by simp
    also have "\<dots> = 10 ^ 6" using e(1) by (simp add: power_add [symmetric])
    finally show ?thesis .
  qed
  ultimately have "six_digits (real n) = (n * 10 ^ (5 - e), int e)"
    by (simp add: six_digits_def del: of_nat_mult of_nat_power)
  moreover have "dec_string (n * 10 ^ (5 - e)) = dec_string n @ replicate (5 - e) CHR ''0''"
    using assms(1) by (rule dec_string_shift)
  moreover have "length (dec_string n) = e + 1" using e by (intro length_dec_string)
  moreover have "strip_zeros (replicate k CHR ''0'') = ''''" for k by (simp add: strip_zeros_def)
  ultimately show ?thesis using assms(1) e(1) by (simp add: show_double_def point_def)
qed

section \<open>The log's round\<close>

lemma log_stream_base: "p \<noteq> No_priority \<Longrightarrow> log_base now tag (to_int p) msg l = Inr (log_stream now tag p [Chars msg] l)"
  by (simp add: log_base_def log_stream_def to_priority_to_int put_eq Let_def)

text \<open>A visible counter is one record of the round, a hidden metric none.\<close>

lemma log_metric_counter:
  assumes "heap r ! a = Counter_metric c"
  shows "log_metric now r l (name, a) =
    (if visible_in_log c then log_base now (''m:'' @ name) (to_int Info) (counter_log c) l else Inr l)"
  using assms log_stream_base [of Info now "''m:'' @ name" "counter_log c" l]
  by (simp add: log_metric_def)

end
