(* ===== verification/Reporting_Fibers.thy ===== *)
theory Reporting_Fibers
  imports Reporting
begin

text \<open>
  The lives of the fibers that \<open>registry::run\<close> starts for the log and for graphite
  (\<open>src/metrics/registry.cpp\<close>): loops of rounds with a pause before each, until \<open>m_stop\<close> is set,
  and that nothing but \<open>m_stop\<close> ends them.
\<close>

section \<open>The loops\<close>

text \<open>
  An exception that leaves a fiber's function terminates the process. A fiber whose rounds are all
  done is in its pause.
\<close>

datatype fiber_end = Sleeping | Stopped | Crashed cpp_error

text \<open>
  What a pass of a loop meets: whether \<open>m_stop\<close> was set when it was tested, and, after the pause,
  the text of the clock, the order in which the metrics are iterated, and the registry.
\<close>

record log_pass =
  lp_stop :: bool
  lp_now :: string
  lp_metrics :: "(string \<times> nat) list"
  lp_registry :: registry

fun log_fiber :: "log_pass list \<Rightarrow> log_sink \<Rightarrow> fiber_end \<times> log_sink" where
  "log_fiber [] l = (Sleeping, l)"
| "log_fiber (p # ps) l =
     (if lp_stop p then (Stopped, l)
      else
        (case log_round (lp_now p) (lp_metrics p) (lp_registry p) l of
           Inl e \<Rightarrow> (Crashed e, l)
         | Inr l' \<Rightarrow> log_fiber ps l'))"

text \<open>For graphite also the outside, the resolver's clock and \<open>std::time\<close>.\<close>

record 'e graphite_pass = log_pass +
  gp_carbon :: "'e carbon"
  gp_clock :: int
  gp_time :: nat

text \<open>\<open>log_err\<close> under the class's tag, with the text of an error code as a parameter.\<close>

definition log_failure :: "(nat \<Rightarrow> string) \<Rightarrow> string \<Rightarrow> nat option \<Rightarrow> log_sink \<Rightarrow> log_sink" where
  "log_failure what now failure l =
     (case failure of
        None \<Rightarrow> l
      | Some code \<Rightarrow> log_stream now ''metrics'' Err
          [Chars ''sending metrics to graphite failed: '', Chars (what code)] l)"

fun graphite_passes :: "(nat \<Rightarrow> string) \<Rightarrow> string \<Rightarrow> 'e graphite_pass list \<Rightarrow> 'e resolver_cache \<Rightarrow> log_sink \<Rightarrow>
    fiber_end \<times> string list \<times> 'e resolver_cache \<times> log_sink" where
  "graphite_passes what pfx [] c l = (Sleeping, [], c, l)"
| "graphite_passes what pfx (p # ps) c l =
     (if lp_stop p then (Stopped, [], c, l)
      else
        (case graphite_round (gp_carbon p) (gp_clock p) (gp_time p) pfx (lp_metrics p) (lp_registry p) c of
           (Inl e, c') \<Rightarrow> (Crashed e, [], c', l)
         | (Inr (sent, failure), c') \<Rightarrow>
             (case graphite_passes what pfx ps c' (log_failure what (lp_now p) failure l) of
                (end, rest, c'', l') \<Rightarrow> (end, sent # rest, c'', l'))))"

definition graphite_fiber :: "(nat \<Rightarrow> string) \<Rightarrow> variables_map \<Rightarrow> string \<Rightarrow> 'e graphite_pass list \<Rightarrow>
    'e resolver_cache \<Rightarrow> log_sink \<Rightarrow> fiber_end \<times> string list \<times> 'e resolver_cache \<times> log_sink" where
  "graphite_fiber what opts host ps c l =
     (case graphite_prefix opts host of
        Inl e \<Rightarrow> (Crashed e, [], c, l)
      | Inr pfx \<Rightarrow> graphite_passes what pfx ps c l)"

section \<open>Only \<open>m_stop\<close> ends them\<close>

text \<open>The passes before the first at which \<open>m_stop\<close> is set, and how the loop is left then.\<close>

definition running :: "'a log_pass_scheme list \<Rightarrow> 'a log_pass_scheme list" where
  "running = takeWhile (\<lambda>p. \<not> lp_stop p)"

definition fiber_after :: "'a log_pass_scheme list \<Rightarrow> fiber_end" where
  "fiber_after ps = (if \<exists>p \<in> set ps. lp_stop p then Stopped else Sleeping)"

definition pass_ok :: "'a log_pass_scheme \<Rightarrow> bool" where
  "pass_ok p \<longleftrightarrow> registry_inv (lp_registry p) \<and> iterates (lp_registry p) (lp_metrics p)"

lemma running_simps [simp]:
  "running [] = []" "running (p # ps) = (if lp_stop p then [] else p # running ps)"
  by (simp_all add: running_def)

lemma fiber_after_simps [simp]:
  "fiber_after [] = Sleeping" "fiber_after (p # ps) = (if lp_stop p then Stopped else fiber_after ps)"
  by (simp_all add: fiber_after_def)

lemma metric_log_ok: "metric_ok m \<Longrightarrow> \<exists>items. metric_log m = Inr items"
  by (cases m) (auto simp: timer_log_def dest!: timer_ok_histogram)

lemma iterated_metric_ok:
  assumes "registry_inv r" "iterates r es" "e \<in> set es"
  shows "metric_ok (heap r ! snd e)"
proof -
  obtain n a where e: "e = (n, a)" by (cases e)
  with assms(2,3) have "m_metrics r n = Some a" by (metis iterates_def map_of_is_SomeI)
  then have "a < length (heap r)" using assms(1) by (auto simp: registry_inv_def ran_def)
  then show ?thesis using assms(1) by (simp add: registry_inv_def list_all_length e)
qed

lemma log_metrics_ok:
  assumes "\<forall>e \<in> set es. metric_ok (heap r ! snd e)"
  shows "\<exists>l'. fold_result (log_metric now r) l es = Inr l'"
  using assms
proof (induction es arbitrary: l)
  case (Cons e es)
  have "\<exists>l'. log_metric now r l e = Inr l'"
    using metric_log_ok [of "heap r ! snd e"] Cons.prems by (auto simp: log_metric_def Let_def)
  with Cons show ?case by auto
qed simp

lemma log_round_ok: "registry_inv r \<Longrightarrow> iterates r es \<Longrightarrow> \<exists>l'. log_round now es r l = Inr l'"
proof -
  assume "registry_inv r" "iterates r es"
  then have ok: "\<forall>e \<in> set es. metric_ok (heap r ! snd e)" using iterated_metric_ok by blast
  let ?l = "log_stream now ''metrics'' Info [Chars ''----- metrics -----''] l"
  from log_metrics_ok [OF ok, of now ?l] show ?thesis by (auto simp: log_round_def)
qed

lemma log_fiber_survives:
  assumes "\<forall>p \<in> set ps. pass_ok p"
  shows "fst (log_fiber ps l) = fiber_after ps"
  using assms
proof (induction ps arbitrary: l)
  case (Cons p ps)
  then obtain l' where "log_round (lp_now p) (lp_metrics p) (lp_registry p) l = Inr l'"
    using log_round_ok [of "lp_registry p" "lp_metrics p" "lp_now p" l] by (auto simp: pass_ok_def)
  with Cons show ?case by simp
qed simp

text \<open>
  A carbon server that fails only with a \<open>system_error\<close>, as the calls of the library report theirs.
\<close>

definition carbon_ok :: "'e carbon \<Rightarrow> bool" where
  "carbon_ok w \<longleftrightarrow> (\<forall>h s e. look_up w h s = Inl e \<longrightarrow> (\<exists>code. e = System_error code)) \<and>
     (\<forall>eps e. connect_to w eps = Inl e \<longrightarrow> (\<exists>code. e = System_error code))"

definition pass_text :: "string \<Rightarrow> 'e graphite_pass \<Rightarrow> string" where
  "pass_text pfx p = concat (map line_of (registry_points pfx (gp_time p) (lp_registry p) (lp_metrics p)))"

definition starts :: "string \<Rightarrow> string \<Rightarrow> bool" where
  "starts s t \<longleftrightarrow> (\<exists>rest. t = s @ rest)"

text \<open>
  Whatever fails in the rounds, lookups, connections or writes, in any order, the fiber goes on
  until \<open>m_stop\<close> is set, and each pass before that is one round, of which the server has received
  nothing but a beginning of the lines of the metrics that are registered then.
\<close>

lemma graphite_fiber_survives:
  assumes "\<forall>p \<in> set ps. pass_ok p \<and> carbon_ok (gp_carbon p)"
    and "graphite_prefix opts host = Inr pfx"
  shows "fst (graphite_fiber what opts host ps c l) = fiber_after ps \<and>
    list_all2 (\<lambda>s p. starts s (pass_text pfx p)) (fst (snd (graphite_fiber what opts host ps c l))) (running ps)"
proof -
  have "fst (graphite_passes what pfx ps c l) = fiber_after ps \<and>
    list_all2 (\<lambda>s p. starts s (pass_text pfx p)) (fst (snd (graphite_passes what pfx ps c l))) (running ps)"
    using assms(1)
  proof (induction ps arbitrary: c l)
    case (Cons p ps)
    let ?round = "graphite_round (gp_carbon p) (gp_clock p) (gp_time p) pfx (lp_metrics p) (lp_registry p) c"
    have p: "registry_inv (lp_registry p)" "iterates (lp_registry p) (lp_metrics p)" "carbon_ok (gp_carbon p)"
      using Cons.prems by (simp_all add: pass_ok_def)
    obtain sent ec where round: "fst ?round = Inr (sent, ec)" "starts sent (pass_text pfx p)"
      using graphite_round_failure [OF p(1,2), of "gp_carbon p"] p(3) unfolding carbon_ok_def starts_def pass_text_def
      by metis
    then obtain c' where c': "?round = (Inr (sent, ec), c')" by (metis prod.collapse)
    from Cons.prems have "\<forall>p \<in> set ps. pass_ok p \<and> carbon_ok (gp_carbon p)" by simp
    note IH = Cons.IH [OF this, of c' "log_failure what (lp_now p) ec l"]
    show ?case
      by (cases "graphite_passes what pfx ps c' (log_failure what (lp_now p) ec l)") (use IH c' round(2) in simp)
  qed simp
  with assms(2) show ?thesis by (simp add: graphite_fiber_def)
qed

end
