(* ===== verification/Http2_Client.thy ===== *)
theory Http2_Client
  imports Metric_Lib
begin

text \<open>
  The Lua library \<open>http2_client\<close> (\<open>src/lib/builtin/http2_client.cpp\<close>, \<open>http2_client.h\<close>): the
  promise each call waits for, the handlers that hold references to it and to the call's other
  variables, and the events of the session, which is nghttp2's.
\<close>

section \<open>Promises and handlers\<close>

text \<open>
  A promise is a variable of a call of \<open>connect\<close> or \<open>get\<close>; it is \<open>Gone\<close> when the call has ended.
  Setting a promise twice throws; a reference to one that is gone is not to be followed.
\<close>

datatype promise = Unset | Value nat | Gone

definition set_value :: "nat \<Rightarrow> nat \<Rightarrow> promise list \<Rightarrow> promise list result" where
  "set_value p ec ps =
     (case ps ! p of Unset \<Rightarrow> Inr (ps[p := Value ec]) | Value _ \<Rightarrow> Inl Future_error | Gone \<Rightarrow> Inl Bad_access)"

text \<open>The handlers: not set, one that does nothing, or one that sets a promise.\<close>

datatype handler_ref = No_handler | Ignore | Set_promise nat

text \<open>
  A session with its handlers and the request that is under way: the promise that its handlers
  refer to, whether \<open>on_data\<close> is set, and the variables \<open>status\<close> and \<open>content_strm\<close>.
\<close>

record http2_session =
  on_connect :: handler_ref
  on_error :: handler_ref
  requested :: "nat option"
  on_data :: bool
  status :: int
  content_strm :: string

record http2_client =
  m_session :: "http2_session option"
  m_host :: string
  m_port :: string
  m_ssl :: bool
  m_ssl_verify :: bool
  m_tls :: bool
  m_read_timeout :: int
  m_connected :: bool
  promises :: "promise list"

definition new_http2_client :: http2_client where
  "new_http2_client =
     \<lparr>m_session = None, m_host = '''', m_port = '''', m_ssl = False, m_ssl_verify = True, m_tls = False,
      m_read_timeout = 5000, m_connected = False, promises = []\<rparr>"

section \<open>Events\<close>

text \<open>
  What the session reports: the connection, an error, a response with its status, and data,
  which ends with a call without data.
\<close>

datatype event = Connect_ok | Failed nat | Response int | Data string

definition react :: "handler_ref \<Rightarrow> nat \<Rightarrow> http2_client \<Rightarrow> http2_client result" where
  "react h ec c =
     (case h of
        No_handler \<Rightarrow> Inr c
      | Ignore \<Rightarrow> Inr c
      | Set_promise p \<Rightarrow> bind_result (set_value p ec (promises c)) (\<lambda>ps. Inr (c\<lparr>promises := ps\<rparr>)))"

text \<open>The handlers \<open>on_response\<close> and \<open>on_data\<close> of the request.\<close>

definition response_handler :: "int \<Rightarrow> http2_session \<Rightarrow> http2_client \<Rightarrow> http2_client result" where
  "response_handler st s c =
     (case requested s of
        None \<Rightarrow> Inr c
      | Some p \<Rightarrow>
          if promises c ! p = Gone then Inl Bad_access
          else Inr (c\<lparr>m_session := Some (s\<lparr>on_data := True, status := st\<rparr>)\<rparr>))"

definition data_handler :: "string \<Rightarrow> http2_session \<Rightarrow> http2_client \<Rightarrow> http2_client result" where
  "data_handler bytes s c =
     (case requested s of
        None \<Rightarrow> Inr c
      | Some p \<Rightarrow>
          if \<not> on_data s then Inr c
          else if bytes = [] then
            bind_result (set_value p 0 (promises c)) (\<lambda>ps. Inr (c\<lparr>promises := ps\<rparr>))
          else if promises c ! p = Gone then Inl Bad_access
          else Inr (c\<lparr>m_session := Some (s\<lparr>content_strm := content_strm s @ bytes\<rparr>)\<rparr>))"

definition session_event :: "http2_client \<Rightarrow> event \<Rightarrow> http2_client result" where
  "session_event c ev =
     (case m_session c of
        None \<Rightarrow> Inr c
      | Some s \<Rightarrow>
          (case ev of
             Connect_ok \<Rightarrow> react (on_connect s) 0 c
           | Failed ec \<Rightarrow> react (on_error s) ec c
           | Response st \<Rightarrow> response_handler st s c
           | Data bytes \<Rightarrow> data_handler bytes s c))"

text \<open>
  \<open>future.get()\<close>: \<open>evs\<close> are the events handled until the fiber runs again. \<open>None\<close>: the fiber is
  still waiting after them. A handler's exception leaves through the io service instead.
\<close>

definition future_get :: "nat \<Rightarrow> event list \<Rightarrow> http2_client \<Rightarrow> (nat \<times> http2_client) result option" where
  "future_get p evs c =
     (case fold_result session_event c evs of
        Inl e \<Rightarrow> Some (Inl e)
      | Inr c \<Rightarrow> (case promises c ! p of Value ec \<Rightarrow> Some (Inr (ec, c)) | _ \<Rightarrow> None))"

section \<open>The methods\<close>

text \<open>nghttp2: what it makes of the TLS context, and whether a request is accepted.\<close>

record http2_ops =
  configure_tls_context :: "bool \<Rightarrow> nat"
  submit :: "string \<Rightarrow> bool"
  ec_message :: "nat \<Rightarrow> string"

definition leave :: "nat \<Rightarrow> http2_client \<Rightarrow> http2_client" where
  "leave p c = c\<lparr>promises := (promises c)[p := Gone]\<rparr>"

definition set_on_error :: "handler_ref \<Rightarrow> http2_client \<Rightarrow> http2_client" where
  "set_on_error h c = c\<lparr>m_session := map_option (\<lambda>s. s\<lparr>on_error := h\<rparr>) (m_session c)\<rparr>"

definition connect_args :: "string \<Rightarrow> string option \<Rightarrow> bool option \<Rightarrow> bool option \<Rightarrow> http2_client \<Rightarrow> http2_client" where
  "connect_args h port_arg ssl_arg verify_arg c =
     (let c = c\<lparr>m_host := c_str h\<rparr>;
          c = c\<lparr>m_port := (case port_arg of Some p \<Rightarrow> c_str p | None \<Rightarrow> ''80'')\<rparr>;
          c = (case ssl_arg of Some b \<Rightarrow> c\<lparr>m_ssl := b\<rparr> | None \<Rightarrow> c) in
      (case verify_arg of Some b \<Rightarrow> c\<lparr>m_ssl_verify := b\<rparr> | None \<Rightarrow> c))"

definition http2_connect :: "http2_ops \<Rightarrow> string option \<Rightarrow> string option \<Rightarrow> bool option \<Rightarrow> bool option \<Rightarrow>
    event list \<Rightarrow> http2_client \<Rightarrow> (unit result \<times> http2_client) option" where
  "http2_connect ops host_arg port_arg ssl_arg verify_arg evs c =
     (case host_arg of
        None \<Rightarrow> Some (Inl bad_argument, c)
      | Some h \<Rightarrow>
          (let c = connect_args h port_arg ssl_arg verify_arg c;
               c = (if m_ssl c then c\<lparr>m_tls := True\<rparr> else c);
               ec = (if m_ssl c then configure_tls_context ops (m_ssl_verify c) else 0) in
           if ec \<noteq> 0 then
             Some (Inl (Lua_error (''configure_tls_context failed: '' @ ec_message ops ec)), c)
           else
             (let p = length (promises c);
                  c = c\<lparr>m_session := Some \<lparr>on_connect = Set_promise p, on_error = Set_promise p,
                    requested = None, on_data = False, status = 0, content_strm = ''''\<rparr>,
                    promises := promises c @ [Unset]\<rparr> in
              (case future_get p evs c of
                 None \<Rightarrow> None
               | Some (Inl e) \<Rightarrow> Some (Inl e, c)
               | Some (Inr (ec, c)) \<Rightarrow>
                   if ec \<noteq> 0 then
                     Some (Inl (Lua_error (''connect failed: '' @ ec_message ops ec)), leave p c)
                   else Some (Inr (), leave p (set_on_error Ignore c\<lparr>m_connected := True\<rparr>))))))"

definition http2_close :: "http2_client \<Rightarrow> http2_client" where
  "http2_close c = (if m_connected c then c\<lparr>m_session := None, m_connected := False\<rparr> else c)"

definition http2_disconnect :: "http2_client \<Rightarrow> http2_client" where
  "http2_disconnect c = http2_close c"

definition request_url :: "string \<Rightarrow> http2_client \<Rightarrow> string" where
  "request_url path c = ''http://'' @ m_host c @ '':'' @ m_port c @ path"

definition http2_get :: "http2_ops \<Rightarrow> string option \<Rightarrow> event list \<Rightarrow> http2_client \<Rightarrow>
    ((int \<times> string) result \<times> http2_client) option" where
  "http2_get ops path_arg evs c =
     (case path_arg of
        None \<Rightarrow> Some (Inl bad_argument, c)
      | Some path \<Rightarrow>
          if \<not> m_connected c then Some (Inl (Lua_error ''not connected''), c)
          else
            (let p = length (promises c); c = c\<lparr>promises := promises c @ [Unset]\<rparr> in
             case m_session c of
               None \<Rightarrow> Some (Inl Null_dereference, c)
             | Some s \<Rightarrow>
                 (let s = s\<lparr>on_error := Set_promise p\<rparr> in
                  if \<not> submit ops (request_url (c_str path) c) then
                    Some (Inl Null_dereference, c\<lparr>m_session := Some s\<rparr>)
                  else
                    (let c = c\<lparr>m_session := Some (s\<lparr>requested := Some p, on_data := False, content_strm := ''''\<rparr>)\<rparr> in
                     (case future_get p evs c of
                        None \<Rightarrow> None
                      | Some (Inl e) \<Rightarrow> Some (Inl e, c)
                      | Some (Inr (ec, c)) \<Rightarrow>
                          if ec \<noteq> 0 then
                            Some (Inl (Lua_error (''get failed: '' @ ec_message ops ec)), leave p c)
                          else
                            (case m_session c of
                               None \<Rightarrow> Some (Inl Null_dereference, c)
                             | Some s \<Rightarrow>
                                 Some (Inr (status s, c_str (content_strm s)), leave p (set_on_error Ignore c))))))))"

definition http2_read_timeout :: "int option \<Rightarrow> http2_client \<Rightarrow> unit result \<times> http2_client" where
  "http2_read_timeout arg c =
     (case arg of None \<Rightarrow> (Inl bad_argument, c) | Some t \<Rightarrow> (Inr (), c\<lparr>m_read_timeout := t\<rparr>))"

section \<open>Conversations\<close>

text \<open>Between two calls: connected, and errors of the session are ignored.\<close>

definition calm :: "http2_client \<Rightarrow> bool" where
  "calm c \<longleftrightarrow> m_connected c \<and> (\<exists>s. m_session c = Some s \<and> on_error s = Ignore)"

lemma calm_ignores: "calm c \<Longrightarrow> session_event c (Failed ec) = Inr c"
  by (auto simp: calm_def session_event_def react_def)

text \<open>A response as it arrives: the status, the data in pieces and the end.\<close>

definition exchange :: "int \<Rightarrow> string list \<Rightarrow> event list" where
  "exchange st chunks = Response st # map Data chunks @ [Data '''']"

lemma data_run:
  assumes "m_session c = Some s" "requested s = Some p" "on_data s" "promises c ! p = Unset"
    "'''' \<notin> set chunks"
  shows "fold_result session_event c (map Data chunks) =
    Inr (c\<lparr>m_session := Some (s\<lparr>content_strm := content_strm s @ concat chunks\<rparr>)\<rparr>)"
  using assms
  by (induction chunks arbitrary: c s) (auto simp: session_event_def data_handler_def)

lemma exchange_run:
  assumes "m_session c = Some s" "requested s = Some p" "promises c ! p = Unset" "p < length (promises c)"
    "'''' \<notin> set chunks" "content_strm s = ''''"
  shows "future_get p (exchange st chunks) c =
    Some (Inr (0, c\<lparr>m_session := Some (s\<lparr>on_data := True, status := st, content_strm := concat chunks\<rparr>),
      promises := (promises c)[p := Value 0]\<rparr>))"
proof -
  let ?s1 = "s\<lparr>on_data := True, status := st\<rparr>"
  let ?c1 = "c\<lparr>m_session := Some ?s1\<rparr>"
  have "session_event c (Response st) = Inr ?c1"
    using assms by (simp add: session_event_def response_handler_def)
  moreover have "fold_result session_event ?c1 (map Data chunks) =
    Inr (?c1\<lparr>m_session := Some (?s1\<lparr>content_strm := content_strm ?s1 @ concat chunks\<rparr>)\<rparr>)"
    by (rule data_run) (use assms in simp_all)
  ultimately show ?thesis using assms
    by (simp add: exchange_def future_get_def fold_result_append session_event_def data_handler_def set_value_def)
qed

lemma get_exchange:
  assumes "calm c" "\<forall>url. submit ops url" "'''' \<notin> set chunks"
  shows "\<exists>c'. http2_get ops (Some path) (exchange st chunks) c = Some (Inr (st, c_str (concat chunks)), c') \<and> calm c'"
proof -
  from assms(1) obtain s where s: "m_session c = Some s" "m_connected c" by (auto simp: calm_def)
  let ?p = "length (promises c)"
  let ?s = "s\<lparr>on_error := Set_promise ?p, requested := Some ?p, on_data := False, content_strm := ''''\<rparr>"
  let ?c = "c\<lparr>promises := promises c @ [Unset], m_session := Some ?s\<rparr>"
  have "future_get ?p (exchange st chunks) ?c =
    Some (Inr (0, ?c\<lparr>m_session := Some (?s\<lparr>on_data := True, status := st, content_strm := concat chunks\<rparr>),
      promises := (promises ?c)[?p := Value 0]\<rparr>))"
    by (rule exchange_run) (use assms(3) in simp_all)
  with s assms(2) show ?thesis
    by (simp add: http2_get_def Let_def set_on_error_def leave_def calm_def)
qed

lemma connect_calm:
  assumes "\<forall>v. configure_tls_context ops v = 0"
  shows "\<exists>c'. http2_connect ops (Some h) port ssl verify [Connect_ok] c = Some (Inr (), c') \<and> calm c' \<and>
    m_host c' = c_str h"
  using assms
  by (simp add: http2_connect_def future_get_def session_event_def react_def set_value_def Let_def
      connect_args_def leave_def set_on_error_def calm_def split: option.split)

fun http2_gets :: "http2_ops \<Rightarrow> (string \<times> event list) list \<Rightarrow> http2_client \<Rightarrow>
    ((int \<times> string) result list \<times> http2_client) option" where
  "http2_gets ops [] c = Some ([], c)"
| "http2_gets ops ((path, evs) # reqs) c =
     (case http2_get ops (Some path) evs c of
        None \<Rightarrow> None
      | Some (r, c) \<Rightarrow> map_option (\<lambda>(rs, c). (r # rs, c)) (http2_gets ops reqs c))"

lemma gets_exchanges:
  assumes "calm c" "\<forall>url. submit ops url" "\<forall>(path, st, chunks) \<in> set reqs. '''' \<notin> set chunks"
  shows "\<exists>c'. http2_gets ops (map (\<lambda>(path, st, chunks). (path, exchange st chunks)) reqs) c =
    Some (map (\<lambda>(path, st, chunks). Inr (st, c_str (concat chunks))) reqs, c') \<and> calm c'"
  using assms
proof (induction reqs arbitrary: c)
  case Nil
  then show ?case by simp
next
  case (Cons req reqs)
  obtain path st chunks where req: "req = (path, st, chunks)" by (cases req)
  with Cons.prems get_exchange [of c ops chunks path st] obtain c1 where c1:
    "http2_get ops (Some path) (exchange st chunks) c = Some (Inr (st, c_str (concat chunks)), c1)" "calm c1"
    by auto
  with Cons.IH [of c1] Cons.prems(2,3) show ?case by (auto simp: req)
qed

text \<open>
  C28. A conversation over HTTP/2: after a connection any number of requests can follow on it, each
  returns the status and the content of its own response, however it arrives in pieces (up to the
  first NUL, since it is handed to Lua as a C string), and errors that the session reports
  between two requests or after the last one are ignored.
\<close>
theorem http2_conversation:
  assumes "\<forall>v. configure_tls_context ops v = 0" "\<forall>url. submit ops url"
    and "\<forall>(path, st, chunks) \<in> set reqs. '''' \<notin> set chunks"
  shows "\<exists>c1 c2. http2_connect ops (Some h) port ssl verify [Connect_ok] c = Some (Inr (), c1) \<and>
    http2_gets ops (map (\<lambda>(path, st, chunks). (path, exchange st chunks)) reqs) c1 =
      Some (map (\<lambda>(path, st, chunks). Inr (st, c_str (concat chunks))) reqs, c2) \<and>
    (\<forall>ec. session_event c1 (Failed ec) = Inr c1 \<and> session_event c2 (Failed ec) = Inr c2)"
proof -
  obtain c1 where c1: "http2_connect ops (Some h) port ssl verify [Connect_ok] c = Some (Inr (), c1)" "calm c1"
    using connect_calm [OF assms(1)] by blast
  with gets_exchanges [OF c1(2) assms(2,3)] calm_ignores show ?thesis by blast
qed

theorem http2_conversation_witness:
  "\<exists>c1 c2. http2_connect \<lparr>configure_tls_context = \<lambda>v. 0, submit = \<lambda>url. True, ec_message = \<lambda>n. ''''\<rparr>
      (Some ''h'') None None None [Connect_ok] new_http2_client = Some (Inr (), c1) \<and>
    http2_gets \<lparr>configure_tls_context = \<lambda>v. 0, submit = \<lambda>url. True, ec_message = \<lambda>n. ''''\<rparr>
      [(''/a'', exchange 200 [''x'', ''y'']), (''/b'', exchange 404 [])] c1 =
      Some ([Inr (200, ''xy''), Inr (404, '''')], c2)"
  using http2_conversation
    [of "\<lparr>configure_tls_context = \<lambda>v. 0, submit = \<lambda>url. True, ec_message = \<lambda>n. ''''\<rparr>"
        "[(''/a'', 200, [''x'', ''y'']), (''/b'', 404, [])]" "''h''" None None None new_http2_client]
  by (auto simp: c_str_def)

section \<open>Errors\<close>

text \<open>
  A call that fails leaves its handler in place: the next error of the session sets a promise
  that is gone. The same holds for an error between the end of the data and the fiber's turn,
  which sets the promise a second time.
\<close>

lemma failed_get_leaves_handler:
  assumes "calm c" "\<forall>url. submit ops url" "ec \<noteq> 0"
  shows "\<exists>c'. http2_get ops (Some path) [Failed ec] c =
      Some (Inl (Lua_error (''get failed: '' @ ec_message ops ec)), c') \<and>
    session_event c' (Failed ec') = Inl Bad_access"
  using assms
  by (auto simp: http2_get_def calm_def future_get_def session_event_def react_def set_value_def Let_def leave_def)

lemma late_error_thrown:
  assumes "calm c" "\<forall>url. submit ops url" "'''' \<notin> set chunks"
  shows "\<exists>c'. http2_get ops (Some path) (exchange st chunks @ [Failed ec]) c = Some (Inl Future_error, c')"
proof -
  from assms(1) obtain s where s: "m_session c = Some s" "m_connected c" by (auto simp: calm_def)
  let ?p = "length (promises c)"
  let ?s = "s\<lparr>on_error := Set_promise ?p, requested := Some ?p, on_data := False, content_strm := ''''\<rparr>"
  let ?c = "c\<lparr>promises := promises c @ [Unset], m_session := Some ?s\<rparr>"
  have "future_get ?p (exchange st chunks) ?c =
    Some (Inr (0, ?c\<lparr>m_session := Some (?s\<lparr>on_data := True, status := st, content_strm := concat chunks\<rparr>),
      promises := (promises ?c)[?p := Value 0]\<rparr>))"
    by (rule exchange_run) (use assms(3) in simp_all)
  then have "fold_result session_event ?c (exchange st chunks) =
    Inr (?c\<lparr>m_session := Some (?s\<lparr>on_data := True, status := st, content_strm := concat chunks\<rparr>),
      promises := (promises ?c)[?p := Value 0]\<rparr>)"
    by (auto simp: future_get_def split: sum.splits promise.splits)
  then have "future_get ?p (exchange st chunks @ [Failed ec]) ?c = Some (Inl Future_error)"
    by (simp add: future_get_def fold_result_append session_event_def react_def set_value_def)
  with s assms(2) show ?thesis by (simp add: http2_get_def Let_def)
qed

text \<open>A stream that ends without data after all, for instance by a reset, leaves the fiber waiting.\<close>

lemma no_response_waits:
  assumes "calm c" "\<forall>url. submit ops url"
  shows "http2_get ops (Some path) [] c = None"
  using assms by (auto simp: calm_def http2_get_def Let_def future_get_def)

end
