(* ===== verification/Server_Main.thy ===== *)
theory Server_Main
  imports Server_Start
begin

text \<open>
  The program (\<open>src/main.cpp\<close>): the command line, the log, and a server from its construction to
  the signal that stops it. What it prints and logs is part of the outcome.
\<close>

section \<open>A run of the server\<close>

text \<open>
  The outside of a run: processors, the Lua states and scripts, the calls of the bootstrap
  function, the files and the network; and the signal with which \<open>async_wait\<close> ends.
\<close>

record server_env =
  se_processors :: int
  se_states :: state_manager
  se_lua :: lua_env
  se_scripts :: "nat \<Rightarrow> lua_script"
  se_fuel :: nat
  se_fs :: file_system
  se_calls :: "boot_call list"
  se_outside :: outside
  se_signal :: "nat \<times> int"

text \<open>
  \<open>sig_handler\<close>; \<open>None\<close>: without a stop the threads that \<open>join\<close> waits for do not end.
\<close>

definition sig_handler :: "variables_map \<Rightarrow> server_env \<Rightarrow> server \<Rightarrow> server result option" where
  "sig_handler opts env sv =
     (case se_signal env of (ec, sig) \<Rightarrow>
        if ec = 0 then server_stop opts (se_outside env) sv
        else if sv_join_func sv = No_func then Some (Inr sv) else None)"

definition run_server :: "variables_map \<Rightarrow> server_env \<Rightarrow> server result option" where
  "run_server opts env =
     (case new_server opts (se_processors env) (se_states env) of
        Inl e \<Rightarrow> Some (Inl e)
      | Inr sv \<Rightarrow>
          (case server_init opts (se_lua env) (se_scripts env) (se_fuel env) (se_fs env) (se_calls env) sv of
             None \<Rightarrow> None
           | Some (Inl e) \<Rightarrow> Some (Inl e)
           | Some (Inr sv) \<Rightarrow>
               (case server_start opts (se_outside env) sv of
                  Inl e \<Rightarrow> Some (Inl e)
                | Inr sv \<Rightarrow> sig_handler opts env sv)))"

section \<open>The main function\<close>

text \<open>The failures that are exceptions derived from \<open>std::exception\<close>; the others end the process.\<close>

fun is_exception :: "cpp_error \<Rightarrow> bool" where
  "is_exception (Lua_error msg) = False"
| "is_exception Bad_access = False"
| "is_exception Null_dereference = False"
| "is_exception _ = True"

datatype exit = Exit int | Terminated cpp_error

text \<open>How the process ends, what it has printed, and its statements for the log.\<close>

record outcome =
  ends :: exit
  printed :: string
  statements :: "(log_priority \<times> string) list"

definition says :: "int \<Rightarrow> string \<Rightarrow> outcome" where
  "says code text = \<lparr>ends = Exit code, printed = text, statements = []\<rparr>"

text \<open>
  \<open>usage\<close> is the library's text of the options, \<open>what\<close> that of an exception and \<open>version\<close> the
  build's \<open>PETREL_VERSION\<close>.
\<close>

definition petrel_main :: "(string list \<Rightarrow> options_description \<Rightarrow> (string \<times> opt_value) list option) \<Rightarrow>
    (string \<Rightarrow> options_description \<Rightarrow> (string \<times> opt_value) list option) \<Rightarrow> (cpp_error \<Rightarrow> string) \<Rightarrow>
    string \<Rightarrow> string \<Rightarrow> server_env \<Rightarrow> string list \<Rightarrow> outcome option" where
  "petrel_main parse_command_line parse_config_file what usage version env argv =
     (let nl = [CHR 0x0A] in
      case parse parse_command_line parse_config_file argv of
        Inl e \<Rightarrow> Some \<lparr>ends = Terminated e, printed = '''', statements = []\<rparr>
      | Inr (False, opts) \<Rightarrow> Some (says 1 '''')
      | Inr (True, opts) \<Rightarrow>
          if is_set opts ''help'' then
            Some (says 0 (''petrel version: petrel/'' @ version @ nl @
              ''Usage: '' @ hd argv @ '' <options>'' @ nl @ usage @ nl))
          else if is_set opts ''version'' then Some (says 0 (''petrel version: petrel/'' @ version @ nl))
          else if is_set opts ''test'' then Some (says 0 (''Config OK'' @ nl))
          else
            (case as_int opts ''log.level'' of
               Inl e \<Rightarrow> Some \<lparr>ends = Terminated e, printed = '''', statements = []\<rparr>
             | Inr level \<Rightarrow>
                 (let started = [(Notice, ''petrel/'' @ version)] in
                  case run_server opts env of
                    None \<Rightarrow> None
                  | Some (Inl e) \<Rightarrow>
                      if is_exception e then
                        Some \<lparr>ends = Exit 1, printed = '''', statements = started @ [(Emerg, what e)]\<rparr>
                      else Some \<lparr>ends = Terminated e, printed = '''', statements = started\<rparr>
                  | Some (Inr sv) \<Rightarrow>
                      Some \<lparr>ends = Exit 0, printed = '''', statements = started @ [(Notice, ''shutdown complete'')]\<rparr>)))"

section \<open>Exit codes\<close>

text \<open>
  A configuration test never starts a server, whatever the configuration would do, and tells a
  valid command line from others by its exit code.
\<close>

lemma config_test:
  assumes "parse pc pf argv = Inr (b, opts)" "b \<longrightarrow> is_set opts ''test''"
    "\<not> is_set opts ''help''" "\<not> is_set opts ''version''"
  shows "petrel_main pc pf what usage version env argv =
    Some (if b then says 0 (''Config OK'' @ [CHR 0x0A]) else says 1 '''')"
  using assms by (cases b) (simp_all add: petrel_main_def)

text \<open>A server without routes ends with code 1 and says why in the log, at the highest priority.\<close>

lemma main_without_routes:
  assumes "parse pc pf argv = Inr (True, opts)" "\<not> is_set opts ''help''" "\<not> is_set opts ''version''"
    "\<not> is_set opts ''test''" "as_int opts ''log.level'' = Inr level"
    and "new_server opts (se_processors env) (se_states env) = Inr sv"
    and "bootstrap (se_lua env) (se_scripts env) (sv_states sv) = (Inr (), m)" "se_calls env = []"
  shows "petrel_main pc pf what usage version env argv =
    Some \<lparr>ends = Exit 1, printed = '''', statements = [(Notice, ''petrel/'' @ version), (Emerg, what no_routes)]\<rparr>"
proof -
  have "sv_num_routes (init_workers opts sv) = 0" "sv_states (init_workers opts sv) = sv_states sv"
    using new_server_fields [OF assms(6)] by (simp_all add: init_workers_fields)
  then have "server_init opts (se_lua env) (se_scripts env) (se_fuel env) (se_fs env) (se_calls env) sv =
      Some (Inl no_routes)"
    using assms(7,8) by (simp add: server_init_def Let_def)
  then have "run_server opts env = Some (Inl no_routes)"
    using assms(6) by (simp add: run_server_def)
  with assms(1-5) show ?thesis by (simp add: petrel_main_def no_routes_def)
qed

end
