(* ===== verification/Serving.thy ===== *)
theory Serving
  imports Server
begin

text \<open>
  A connection over HTTP/1 served by the server: the loop of \<open>session::start\<close> with the handlers
  that \<open>server_impl\<close> has installed in the router. While the session's fiber waits for a response,
  and between two requests, the other fibers of the server work: \<open>others\<close>.
\<close>

section \<open>The handler behind a route\<close>

text \<open>
  What the other fibers do to the server while request number \<open>n\<close> of the connection waits for a
  job, or, without a job, before the next request.
\<close>

type_synonym others = "nat \<Rightarrow> job option \<Rightarrow> server \<Rightarrow> server"

text \<open>The job a route hands to a fiber, if it does; then the session waits until it has run.\<close>

definition started_job :: "handler_env \<Rightarrow> route \<Rightarrow> request \<Rightarrow> server \<Rightarrow> job option" where
  "started_job env rt r sv =
     (case rt of
        Script_route fn req err tmr \<Rightarrow>
          (if (m_method r = GET \<or> m_method r = POST) \<and> he_fiber_error env = None
           then Some (Job fn r (start_times (he_rnd env) (he_start env) tmr sv) err) else None)
      | _ \<Rightarrow> None)"

text \<open>
  \<open>route(req)\<close> and \<open>req->wait()\<close> on the thread of worker \<open>w\<close>. An exception that leaves the job ends
  the program, as one that leaves the session does. Requests are counted; \<open>envs n\<close> is what the
  environment answers during request \<open>n\<close>.
\<close>

definition session_handler :: "(nat \<Rightarrow> handler_env) \<Rightarrow> others \<Rightarrow> nat \<Rightarrow> (route, nat \<times> server) handler" where
  "session_handler envs oth w rt r =
     (\<lambda>(n, sv).
        let env = envs n in
        case call_route env w rt r sv of
          Inl e \<Rightarrow> (Some (Inl e), n + 1, sv)
        | Inr (r1, sv1) \<Rightarrow>
            (case started_job env rt r sv of
               None \<Rightarrow> (Some (Inr r1), n + 1, oth n None sv1)
             | Some j \<Rightarrow>
                 (let sv2 = oth n (Some j) sv1 in
                  case run_job env w j sv2 of
                    None \<Rightarrow> (None, n + 1, sv2)
                  | Some (Inl e) \<Rightarrow> (Some (Inl e), n + 1, sv2)
                  | Some (Inr (r2, sv3)) \<Rightarrow> (Some (Inr r2), n + 1, oth n None sv3))))"

definition session_router :: "nat \<times> server \<Rightarrow> route router" where
  "session_router = (\<lambda>(n, sv). sv_router sv)"

text \<open>\<open>make_shared<::petrel::request>(req)\<close>.\<close>

definition petrel_request :: "session_request \<Rightarrow> request" where
  "petrel_request req = fst (make_http_request req (new_sched 0 :: nat sched))"

definition serve_connection :: "nat \<Rightarrow> 's socket_ops \<Rightarrow> (nat \<Rightarrow> handler_env) \<Rightarrow> others \<Rightarrow> nat \<Rightarrow> 's \<Rightarrow> server \<Rightarrow>
    (unit, 's) progress \<times> nat \<times> server" where
  "serve_connection fuel ops envs oth w k sv =
     session_start fuel ops session_router (session_handler envs oth w) (new_session k) (0, sv)"

section \<open>Assumptions\<close>

text \<open>
  The server between the steps: one that can be reached, whose files are complete and whose
  manager of Lua states is used as its clients use it.
\<close>

definition managed :: "state_manager \<Rightarrow> bool" where
  "managed m \<longleftrightarrow> (\<exists>used n. state_reachable (m, used, n))"

definition serving_ok :: "server \<Rightarrow> bool" where
  "serving_ok sv \<longleftrightarrow> server_reachable sv \<and> files_complete (sv_files sv) \<and> managed (sv_states sv)"

text \<open>The other fibers keep this, and the job that is waited for stays in its fiber until it runs.\<close>

definition others_ok :: "others \<Rightarrow> bool" where
  "others_ok oth \<longleftrightarrow> (\<forall>n j sv. serving_ok sv \<longrightarrow> serving_ok (oth n j sv) \<and>
     (\<forall>w i. j = Some i \<and> i \<in># pending (sv_fibers sv w) \<longrightarrow> i \<in># pending (sv_fibers (oth n j sv) w)))"

lemma others_serving: "others_ok oth \<Longrightarrow> serving_ok sv \<Longrightarrow> serving_ok (oth n j sv)"
  by (simp add: others_ok_def)

lemma others_pending:
  "others_ok oth \<Longrightarrow> serving_ok sv \<Longrightarrow> j \<in># pending (sv_fibers sv w) \<Longrightarrow>
   j \<in># pending (sv_fibers (oth n (Some j) sv) w)"
  by (auto simp: others_ok_def)

lemma serving_reachable: "serving_ok sv \<Longrightarrow> server_reachable sv"
  by (simp add: serving_ok_def)

lemma get_file_keeps: "files_complete c \<Longrightarrow> get_file w n c = (f, c') \<Longrightarrow> files_complete c'"
  by (auto simp: get_file_def get_file_main_def files_complete_def split: option.splits if_splits)

lemma find_static_file_keeps:
  "find_static_file w d p q c = Inr (f, c') \<Longrightarrow> files_complete c \<Longrightarrow> files_complete c'"
  by (auto simp: find_static_file_def dest: get_file_keeps split: if_splits)

lemma directory_handler_files:
  assumes "directory_handler env w p dir req err tmr r sv = Inr (r', sv')"
  shows "sv_files sv' = sv_files sv \<or> (\<exists>f. find_static_file w dir p (Request.path r) (sv_files sv) = Inr (f, sv_files sv'))"
  using assms
  by (auto simp: directory_handler_def bind_result_Inr_iff Let_def
      dest!: fail_with_keeps bump_keeps split: option.splits if_splits)

lemma call_route_files:
  assumes "call_route env w rt r sv = Inr (r', sv')" "files_complete (sv_files sv)"
  shows "files_complete (sv_files sv')"
proof (cases rt)
  case (Directory_route p dir req err tmr)
  with assms(1) have "directory_handler env w p dir req err tmr r sv = Inr (r', sv')" by (simp add: call_route_def)
  from directory_handler_files [OF this] assms(2) show ?thesis by (auto dest: find_static_file_keeps)
qed (use assms in \<open>auto simp: call_route_def script_handler_def bind_result_Inr_iff Let_def
       dest!: fail_with_keeps bump_keeps split: option.splits if_splits\<close>)

text \<open>Requests keep their mode.\<close>

lemma send_error_mode: "send_error_response code r = Inr r' \<Longrightarrow> m_mode r' = m_mode r"
  by (simp add: send_error_response_def send_response_mode)

lemma fail_with_mode: "fail_with code err r sv = Inr (r', sv') \<Longrightarrow> m_mode r' = m_mode r"
  by (auto simp: fail_with_def bind_result_Inr_iff dest: send_error_mode)

lemma call_route_mode: "call_route env w rt r sv = Inr (r', sv') \<Longrightarrow> m_mode r' = m_mode r"
  by (cases rt)
     (auto simp: call_route_def script_handler_def directory_handler_def bind_result_Inr_iff Let_def
       dest: fail_with_mode send_error_mode send_response_mode split: option.splits if_splits)

section \<open>The answer to one request\<close>

text \<open>What the job of a script leaves as the response of its request, an HTTP/1 request.\<close>

definition job_answer :: "handler_env \<Rightarrow> nat \<Rightarrow> string \<Rightarrow> request \<Rightarrow> server \<Rightarrow>
    (int \<times> (string \<times> string) multiset \<times> string) option" where
  "job_answer env w fn r sv =
     (case handle_request (he_lua env) (he_scripts env) (he_fuel env) (he_time env) w fn r
             (sv_states sv) (sv_stacks sv) of
        None \<Rightarrow> None
      | Some (Inr _, r1, m, st) \<Rightarrow> answer r1
      | Some (Inl e, r1, m, st) \<Rightarrow>
          (if is_runtime_error e
           then Some (500, final_headers HTTP (response_headers r1) '''', response_body r) else None))"

text \<open>
  The contract of the routes: what a request that reaches the server \<open>sv\<close>, and whose job runs
  when the server is \<open>sv1\<close>, is answered.
\<close>

definition route_answer :: "handler_env \<Rightarrow> nat \<Rightarrow> route \<Rightarrow> request \<Rightarrow> server \<Rightarrow> server \<Rightarrow>
    (int \<times> (string \<times> string) multiset \<times> string) option" where
  "route_answer env w rt r sv sv1 =
     (case rt of
        Not_found \<Rightarrow> Some (404, final_headers HTTP (response_headers r) '''', response_body r)
      | Directory_route p dir req err tmr \<Rightarrow>
          (case (if m_method r = GET \<and> last (Request.path r) \<noteq> CHR ''/''
                 then fst (get_file w (dir @ drop (length p) (Request.path r)) (sv_files sv)) else None) of
             Some f \<Rightarrow> Some (200, final_headers HTTP (response_headers r) (take (m_size f) (File_Cache.m_data f)),
                             response_body r @ take (m_size f) (File_Cache.m_data f))
           | None \<Rightarrow> Some (404, final_headers HTTP (response_headers r) '''', response_body r))
      | Script_route fn req err tmr \<Rightarrow> job_answer env w fn r sv1)"

text \<open>
  The engine, with any states it can be given: it throws an exception that is not a runtime
  error; it returns.
\<close>

definition engine_throws :: "handler_env \<Rightarrow> nat \<Rightarrow> request \<Rightarrow> cpp_error \<Rightarrow> bool" where
  "engine_throws env w r e \<longleftrightarrow> \<not> is_runtime_error e \<and>
     (\<exists>fn m st r1 m1 st1. managed m \<and>
        handle_request (he_lua env) (he_scripts env) (he_fuel env) (he_time env) w fn r m st = Some (Inl e, r1, m1, st1))"

definition engine_returns :: "handler_env \<Rightarrow> nat \<Rightarrow> request \<Rightarrow> bool" where
  "engine_returns env w r \<longleftrightarrow>
     (\<forall>fn m st. managed m \<longrightarrow>
        handle_request (he_lua env) (he_scripts env) (he_fuel env) (he_time env) w fn r m st \<noteq> None)"

lemma run_job_managed:
  assumes "managed (sv_states sv)" "run_job env w j sv = Some (Inr (r', sv'))"
  shows "managed (sv_states sv')"
proof -
  obtain fn r d err where j: "j = Job fn r d err" by (cases j)
  from run_job_states [OF assms(2) [unfolded j]] obtain x r1 st where
    "handle_request (he_lua env) (he_scripts env) (he_fuel env) (he_time env) w fn r
      (sv_states sv) (sv_stacks sv) = Some (x, r1, sv_states sv', st)" .
  with assms(1) show ?thesis unfolding managed_def by (blast dest: handle_request_states)
qed

section \<open>The job\<close>

lemma started_job_handed:
  assumes "full_ok sv" "cache_ok (sv_fibers sv w)" "started_job env rt r sv = Some j"
    and "call_route env w rt r sv = Inr (r', sv')"
  shows "r' = r \<and> j \<in># pending (sv_fibers sv' w) \<and> (\<exists>d err. j = Job (case rt of Script_route fn req err tmr \<Rightarrow> fn) r d err)"
proof -
  from assms(3) obtain fn req err tmr where
    rt: "rt = Script_route fn req err tmr" "m_method r = GET \<or> m_method r = POST" "he_fiber_error env = None"
      "j = Job fn r (start_times (he_rnd env) (he_start env) tmr sv) err"
    by (auto simp: started_job_def split: route.splits if_splits)
  with assms(4) obtain sv1 sv2 where
    b: "bump (Some (sv_metric_requests sv)) sv = Inr sv1" "bump (Some req) sv1 = Inr sv2" and
    r': "r' = r" "sv' = sv2\<lparr>sv_fibers := (sv_fibers sv2)(w := Fibers.run
      (Job fn r (start_times (he_rnd env) (he_start env) tmr sv2) err) (sv_fibers sv2 w))\<rparr>"
    by (auto simp: call_route_def script_handler_def bind_result_Inr_iff Let_def)
  from bump_times(1) [OF b(1)] bump_times(1) [OF b(2)] bump_times(2) [OF b(1)] bump_times(2) [OF b(2)]
  have "sv_metric_times sv2 = sv_metric_times sv" "sv_fibers sv2 = sv_fibers sv" by simp_all
  with r' rt cache_ok_run [OF assms(2)] show ?thesis by (simp add: start_times_def)
qed

text \<open>A job runs to the answer of its request, unless the engine throws or does not return.\<close>

lemma run_job_cases:
  assumes "full_ok sv" "job_ok (sv_registry sv) (Job fn r d err)" "unanswered r" "m_mode r = HTTP"
    and "managed (sv_states sv)"
  shows "(case run_job env w (Job fn r d err) sv of
      None \<Rightarrow> \<not> engine_returns env w r
    | Some (Inl e) \<Rightarrow> engine_throws env w r e
    | Some (Inr (r', sv')) \<Rightarrow> m_mode r' = HTTP \<and> answer r' = job_answer env w fn r sv \<and> answer r' \<noteq> None)"
proof -
  let ?h = "handle_request (he_lua env) (he_scripts env) (he_fuel env) (he_time env) w fn r (sv_states sv) (sv_stacks sv)"
  show ?thesis
  proof (cases ?h)
    case None
    then have "\<not> engine_returns env w r" using assms(5) unfolding engine_returns_def by blast
    with None show ?thesis by simp
  next
    case (Some q)
    obtain x r1 m st where q: "q = (x, r1, m, st)" by (cases q)
    let ?sv = "sv\<lparr>sv_states := m, sv_stacks := st\<rparr>"
    show ?thesis
    proof (cases x)
      case (Inr u)
      with Some q handle_request_sends [of _ _ _ _ _ _ r _ _ u r1 m st] assms(4) show ?thesis
        by (simp add: job_answer_def)
    next
      case (Inl e)
      show ?thesis
      proof (cases "is_runtime_error e")
        case False
        with Some q Inl have "engine_throws env w r e" using assms(5) unfolding engine_throws_def by blast
        with Some q Inl False show ?thesis by simp
      next
        case True
        from handle_request_error_request [OF assms(3)] Some q Inl obtain hs where r1: "r1 = add_headers hs r" by blast
        have "full_ok ?sv" using full_ok_others(1) [OF assms(1)] .
        with fail_with_ok [of ?sv err r1 500] assms(2,3) r1 obtain r' sv' where
          f: "fail_with 500 err r1 ?sv = Inr (r', sv')"
          "answer r' = Some (500, final_headers (m_mode r1) (response_headers r1) '''', response_body r1)"
          by (auto simp: full_ok_def add_headers_adds)
        with Some q Inl True r1 assms(4) fail_with_mode [OF f(1)] show ?thesis
          by (simp add: job_answer_def add_headers_adds)
      qed
    qed
  qed
qed

section \<open>One request\<close>

lemma petrel_request_facts:
  assumes "\<not> ready req"
  shows "unanswered (petrel_request req)" "m_mode (petrel_request req) = HTTP"
    "Request.path (petrel_request req) = sr_path req"
    "sr_method req \<in> {''GET'', ''POST''} \<Longrightarrow> m_method (petrel_request req) \<in> {GET, POST}"
  using assms
  by (auto simp: petrel_request_def unanswered_def m_mode_def Request.path_def make_http_request_def method_string_def)

lemma session_handler_cases:
  assumes "serving_ok sv" "others_ok oth" "he_fiber_error (envs n) = None"
    and "find_route (sv_router sv) target = Some rt" "prefix target (Request.path r)"
    and "unanswered r" "m_mode r = HTTP" "m_method r \<in> {GET, POST}"
    and "session_handler envs oth w rt r (n, sv) = (x, n', sv')"
  shows "n' = n + 1 \<and> server_reachable sv' \<and>
    (case x of
       None \<Rightarrow> \<not> engine_returns (envs n) w r
     | Some (Inl e) \<Rightarrow> engine_throws (envs n) w r e
     | Some (Inr r') \<Rightarrow> serving_ok sv' \<and> m_mode r' = HTTP \<and> answer r' \<noteq> None \<and>
         (\<exists>sv1. serving_ok sv1 \<and> answer r' = route_answer (envs n) w rt r sv sv1))"
proof -
  from assms(1) have sv: "server_reachable sv" "files_complete (sv_files sv)" "managed (sv_states sv)"
    by (simp_all add: serving_ok_def)
  note ok = reachable_full_ok [OF sv(1)]
  have "\<exists>r1 sv1. call_route (envs n) w rt r sv = Inr (r1, sv1) \<and> server_reachable sv1 \<and>
    ((\<exists>fn req err tmr. rt = Script_route fn req err tmr) \<or> answer r1 = route_answer (envs n) w rt r sv sv1)"
    using call_route_handles [OF sv(1) assms(4-6,8,3) sv(2), of w] assms(7)
    by (cases rt) (auto simp: route_answer_def split: option.split)
  then obtain r1 sv1 where
    c: "call_route (envs n) w rt r sv = Inr (r1, sv1)" "server_reachable sv1" and
    a: "(\<exists>fn req err tmr. rt = Script_route fn req err tmr) \<or> answer r1 = route_answer (envs n) w rt r sv sv1"
    by blast
  from call_route_files [OF c(1) sv(2)] call_route_states [OF c(1)] sv(3) c(2) have sv1: "serving_ok sv1"
    by (simp add: serving_ok_def)
  show ?thesis
  proof (cases "started_job (envs n) rt r sv")
    case None
    with assms(3,8) have "\<forall>fn req err tmr. rt \<noteq> Script_route fn req err tmr" by (auto simp: started_job_def)
    with a have a1: "answer r1 = route_answer (envs n) w rt r sv sv1" "answer r1 \<noteq> None"
      by (auto simp: route_answer_def split: route.splits option.splits)
    from assms(9) c(1) None have "x = Some (Inr r1)" "n' = n + 1" "sv' = oth n None sv1"
      by (simp_all add: session_handler_def)
    with a1 call_route_mode [OF c(1)] assms(7) sv1 others_serving [OF assms(2) sv1] show ?thesis
      by (auto simp: serving_ok_def)
  next
    case (Some j)
    then obtain fn req err tmr where rt: "rt = Script_route fn req err tmr"
      by (auto simp: started_job_def split: route.splits)
    from started_job_handed [OF ok reachable_caches_ok [OF sv(1)] Some c(1)] obtain d err' where
      j: "r1 = r" "j \<in># pending (sv_fibers sv1 w)" "j = Job fn r d err'" by (auto simp: rt)
    let ?sv2 = "oth n (Some j) sv1"
    note sv2 = others_serving [OF assms(2) sv1, of n "Some j"]
    then have r2: "server_reachable ?sv2" "managed (sv_states ?sv2)" by (simp_all add: serving_ok_def)
    note p2 = others_pending [OF assms(2) sv1 j(2), of n]
    then have "job_ok (sv_registry ?sv2) (Job fn r d err')"
      using reachable_full_ok [OF r2(1)] j(3) unfolding full_ok_def jobs_ok_def by blast
    note run = run_job_cases [where env = "envs n" and w = w, OF reachable_full_ok [OF r2(1)] this assms(6,7) r2(2), folded j(3)]
    have s: "serving_ok (oth n None sv3)" if "run_job (envs n) w j ?sv2 = Some (Inr (r', sv3))" for r' sv3
      using others_serving [OF assms(2), of sv3 n None] server_reachable.job [OF r2(1) p2 that] run_job_keeps [OF that]
        run_job_managed [OF r2(2) that] sv2 by (simp add: serving_ok_def)
    from assms(9) c(1) Some have h: "(case run_job (envs n) w j ?sv2 of
        None \<Rightarrow> (None, n + 1, ?sv2)
      | Some (Inl e) \<Rightarrow> (Some (Inl e), n + 1, ?sv2)
      | Some (Inr (r2, sv3)) \<Rightarrow> (Some (Inr r2), n + 1, oth n None sv3)) = (x, n', sv')"
      by (simp add: session_handler_def Let_def)
    show ?thesis
    proof (cases "run_job (envs n) w j ?sv2")
      case None
      with h run r2 show ?thesis by auto
    next
      case (Some y)
      show ?thesis
      proof (cases y)
        case (Inl e)
        with Some h run r2 show ?thesis by auto
      next
        case (Inr z)
        obtain r' sv3 where z: "z = (r', sv3)" by (cases z)
        from Some Inr z h have "x = Some (Inr r')" "n' = n + 1" "sv' = oth n None sv3" by simp_all
        moreover from run [unfolded Some Inr z] have "m_mode r' = HTTP"
          "answer r' = job_answer (envs n) w fn r ?sv2" "answer r' \<noteq> None"
          unfolding option.case sum.case prod.case by blast+
        moreover from calculation have "answer r' = route_answer (envs n) w rt r sv ?sv2" by (simp add: route_answer_def rt)
        moreover have "serving_ok sv'" using s [of r' sv3] Some Inr z calculation(3) by simp
        moreover from this have "server_reachable sv'" by (simp add: serving_ok_def)
        ultimately show ?thesis using sv2 by (auto simp del: not_None_eq)
      qed
    qed
  qed
qed

lemma session_read_fresh: "session_read n ops s = (Some (Inr req), s') \<Longrightarrow> \<not> ready req"
  by (auto simp: session_read_def new_session_request_def split: sum.splits prod.splits option.splits)

text \<open>Writing makes one response, and closes the socket when it fails.\<close>

lemma session_write_calls:
  "session_write ops res s = (x, s') \<Longrightarrow>
   \<exists>cs. socket_calls s' = socket_calls s @
       Write_response (res_status res) (so_status_text ops (res_status res)) (res_message res) # cs \<and>
     set cs \<subseteq> {Close}"
  by (auto simp: session_write_def called_def log_error_def Let_def split: sum.splits prod.splits cpp_error.splits)

lemma session_respond_answers:
  assumes "find_route (rt ns) (sr_path req) = Some f"
    and "hnd f (petrel_request req) ns = (Some (Inr r'), ns')" "m_mode r' = HTTP" "answer r' = Some (st, hs, body)"
  shows "\<exists>x s2 status msg cs. session_respond ops rt hnd req s ns = ((Some x, s2), ns') \<and>
     (\<exists>res. session_write ops res s = (x, s2)) \<and>
     socket_calls s2 = socket_calls s @ Write_response status (so_status_text ops status) msg # cs \<and> set cs \<subseteq> {Close} \<and>
     uint status = st \<and> mset (msg_headers msg) = hs \<and> msg_body msg = body"
proof -
  from answer_http [OF assms(3,4)] obtain d where d: "req_data r' = Http_data d" "ready d"
    "st = uint (res_status (sr_response d))" "hs = mset (msg_headers (res_message (sr_response d)))"
    "body = msg_body (res_message (sr_response d))"
    by (metis prod.inject)
  obtain x s2 where w: "session_write ops (sr_response d) s = (x, s2)" by fastforce
  have "session_respond ops rt hnd req s ns = ((Some x, s2), ns')"
    using assms(1,2) d(1,2) w by (simp add: session_respond_def petrel_request_def)
  moreover from session_write_calls [OF w] obtain cs where "set cs \<subseteq> {Close}"
    "socket_calls s2 = socket_calls s @ Write_response (res_status (sr_response d))
       (so_status_text ops (res_status (sr_response d))) (res_message (sr_response d)) # cs" by blast
  ultimately show ?thesis using d w
    by (intro exI [of _ x] exI [of _ s2] exI [of _ "res_status (sr_response d)"]
        exI [of _ "res_message (sr_response d)"] exI [of _ cs]) auto
qed


section \<open>A whole connection\<close>

fun is_response :: "socket_call \<Rightarrow> bool" where
  "is_response (Write_response status reason msg) = True"
| "is_response _ = False"

definition responses :: "'s session \<Rightarrow> nat" where
  "responses s = length (filter is_response (socket_calls s))"

definition requests :: "'s session \<Rightarrow> nat" where
  "requests s = length (filter (\<lambda>c. c = Read_request) (socket_calls s))"

lemma counts [simp]:
  "responses (called c k s) = responses s + (if is_response c then 1 else 0)"
  "requests (called c k s) = requests s + (if c = Read_request then 1 else 0)"
  "responses (log_error e s) = responses s" "requests (log_error e s) = requests s"
  "responses (new_session k) = 0" "requests (new_session k) = 0"
  by (simp_all add: responses_def requests_def called_def log_error_def new_session_def)

text \<open>
  What the session relies on in its socket: operations fail with system errors, as asynchronous
  operations do. The requests that arrive are GETs and POSTs.
\<close>

definition system_error :: "cpp_error \<Rightarrow> bool" where
  "system_error e \<longleftrightarrow> (\<exists>c. e = System_error c)"

definition socket_ok :: "'s socket_ops \<Rightarrow> bool" where
  "socket_ok ops \<longleftrightarrow> (\<forall>k e.
     (so_remote_endpoint ops k = Inl e \<longrightarrow> system_error e) \<and>
     (fst (so_read_request ops k) = Inl e \<longrightarrow> system_error e) \<and>
     (fst (so_write_continue ops k) = Inl e \<longrightarrow> system_error e) \<and>
     (\<forall>msg. fst (so_read_some ops msg k) = Inl e \<longrightarrow> system_error e) \<and>
     (\<forall>msg. fst (so_read_trailers ops msg k) = Inl e \<longrightarrow> system_error e) \<and>
     (\<forall>status reason msg. fst (so_write_response ops status reason msg k) = Inl e \<longrightarrow> system_error e)) \<and>
   (\<forall>k meth target msg. fst (so_read_request ops k) = Inr (meth, target, msg) \<longrightarrow> meth \<in> {''GET'', ''POST''})"

lemma read_rest_counts:
  assumes "socket_ok ops" "read_rest n ops msg s = (x, s')"
  shows "responses s' = responses s \<and> requests s' = requests s \<and> (\<forall>e. x = Some (Inl e) \<longrightarrow> system_error e)"
  using assms(2)
proof (induction n arbitrary: msg s)
  case (Suc n)
  have some: "system_error e" if "so_read_some ops msg k = (Inl e, k')" for msg k e k'
    using assms(1) that unfolding socket_ok_def by (metis fst_conv)
  have trailers: "system_error e" if "so_read_trailers ops msg k = (Inl e, k')" for msg k e k'
    using assms(1) that unfolding socket_ok_def by (metis fst_conv)
  from Suc show ?case
    by (fastforce dest: some trailers split: read_state.splits prod.splits sum.splits)
qed simp

lemma session_continue_counts:
  assumes "socket_ok ops" "session_continue ops msg s = (x, s')"
  shows "responses s' = responses s \<and> requests s' = requests s \<and> (\<forall>e. x = Inl e \<longrightarrow> system_error e)"
proof -
  have "system_error e" if "so_write_continue ops k = (Inl e, k')" for k e k'
    using assms(1) that unfolding socket_ok_def by (metis fst_conv)
  with assms(2) show ?thesis by (auto simp: session_continue_def split: if_splits prod.splits)
qed

lemma session_read_counts:
  assumes "socket_ok ops" "session_read n ops s = (x, s')"
  shows "responses s' = responses s \<and> requests s \<le> requests s' \<and> requests s' \<le> requests s + 1 \<and>
    (\<forall>e. x = Some (Inl e) \<longrightarrow> system_error e) \<and>
    (\<forall>req. x = Some (Inr req) \<longrightarrow> requests s' = requests s + 1 \<and> sr_method req \<in> {''GET'', ''POST''})"
proof (cases "so_remote_endpoint ops (m_socket s)")
  case (Inl e)
  with assms show ?thesis by (auto simp: session_read_def socket_ok_def)
next
  case (Inr ep)
  obtain y k where y: "so_read_request ops (m_socket s) = (y, k)" by fastforce
  let ?s = "called Read_request k s"
  show ?thesis
  proof (cases y)
    case (Inl e)
    with assms(1) y have "system_error e" unfolding socket_ok_def by (metis fst_conv)
    with Inl Inr y assms(2) show ?thesis by (auto simp: session_read_def)
  next
    case Inr': (Inr q)
    obtain meth target msg where q: "q = (meth, target, msg)" by (cases q)
    have m: "meth \<in> {''GET'', ''POST''}" using assms(1) y Inr' q unfolding socket_ok_def by (metis fst_conv)
    obtain z s1 where z: "session_continue ops msg ?s = (z, s1)" by fastforce
    note c = session_continue_counts [OF assms(1) z]
    show ?thesis
    proof (cases z)
      case (Inl e)
      with assms(2) Inr y Inr' q z c show ?thesis by (auto simp: session_read_def)
    next
      case z': (Inr u)
      obtain v s2 where v: "read_rest n ops msg s1 = (v, s2)" by fastforce
      from assms(2) Inr y Inr' q z z' v m c read_rest_counts [OF assms(1) v] show ?thesis
        by (auto simp: session_read_def split: option.splits sum.splits)
    qed
  qed
qed

lemma session_write_returns:
  assumes "socket_ok ops" "session_write ops res s = (x, s')"
  shows "x = Inr ()"
proof -
  have "system_error e" if "so_write_response ops st re msg k = (Inl e, k')" for st re msg k e k'
    using assms(1) that unfolding socket_ok_def by (metis fst_conv)
  with assms(2) show ?thesis
    by (fastforce simp: session_write_def system_error_def Let_def split: sum.splits prod.splits cpp_error.splits)
qed

lemma session_catch_engine: "engine_throws env w r e \<Longrightarrow> session_catch ops e s = (Some (Inl e), s)"
  by (cases e) (auto simp: engine_throws_def session_catch_def)

lemma session_catch_system:
  "system_error e \<Longrightarrow> \<exists>s'. session_catch ops e s = (Some (Inr ()), s') \<and> responses s' = responses s \<and> requests s' = requests s"
  by (auto simp: system_error_def session_catch_def)

lemma session_respond_cases:
  assumes "serving_ok sv" "others_ok oth" "he_fiber_error (envs n) = None" "socket_ok ops"
    and "\<not> ready req" "sr_method req \<in> {''GET'', ''POST''}"
    and "session_respond ops session_router (session_handler envs oth w) req s (n, sv) = ((x, s'), n', sv')"
  shows "n' = n + 1 \<and> server_reachable sv' \<and> requests s' = requests s \<and>
    (case x of
       None \<Rightarrow> responses s' = responses s \<and> \<not> engine_returns (envs n) w (petrel_request req)
     | Some (Inl e) \<Rightarrow> responses s' = responses s \<and> engine_throws (envs n) w (petrel_request req) e
     | Some (Inr _) \<Rightarrow> responses s' = responses s + 1 \<and> serving_ok sv')"
proof -
  let ?r = "petrel_request req"
  note r = petrel_request_facts [OF assms(5)]
  have "server_reachable sv" using assms(1) by (simp add: serving_ok_def)
  from find_route_ok [OF reachable_full_ok [OF this] refl, of "sr_path req"] obtain rt where
    rt: "find_route (sv_router sv) (sr_path req) = Some rt" by blast
  then have rt': "find_route (session_router (n, sv)) (sr_path req) = Some rt" by (simp add: session_router_def)
  obtain y m sv1 where h: "session_handler envs oth w rt ?r (n, sv) = (y, m, sv1)" by (metis prod.exhaust)
  have "prefix (sr_path req) (Request.path ?r)" by (simp add: r(3))
  note c = session_handler_cases [OF assms(1-3) rt this r(1,2) r(4) [OF assms(6)] h]
  show ?thesis
  proof (cases "\<exists>r'. y = Some (Inr r')")
    case False
    with assms(7) rt' h c show ?thesis
      by (cases y) (auto simp: session_respond_def petrel_request_def [symmetric] split: sum.splits)
  next
    case True
    then obtain r' where y: "y = Some (Inr r')" ..
    from c [unfolded y option.case sum.case] obtain st hs body where
      m: "m = n + 1" "server_reachable sv1" "serving_ok sv1" "m_mode r' = HTTP" and a: "answer r' = Some (st, hs, body)"
      by (metis not_None_eq prod_cases3)
    from session_respond_answers [where rt = session_router and hnd = "session_handler envs oth w" and ns = "(n, sv)" and
        ns' = "(m, sv1)" and ops = ops and s = s, OF rt' _ m(4) a] h y assms(7)
    obtain res status msg cs where "n' = m" "sv' = sv1" "session_write ops res s = (the x, s')" "x \<noteq> None"
      "socket_calls s' = socket_calls s @ Write_response status (so_status_text ops status) msg # cs" "set cs \<subseteq> {Close}"
      by auto
    moreover have "filter is_response cs = []" "filter (\<lambda>c. c = Read_request) cs = []"
      using calculation(6) by (auto simp: filter_empty_conv)
    moreover have "the x = Inr ()" using session_write_returns [OF assms(4) calculation(3)] .
    ultimately show ?thesis using m by (auto simp: responses_def requests_def)
  qed
qed

lemma session_start_serves:
  assumes "serving_ok sv" "others_ok oth" "\<And>n. he_fiber_error (envs n) = None" "socket_ok ops"
    and "responses s = n" "requests s = n"
    and "session_start fuel ops session_router (session_handler envs oth w) s (n, sv) = ((x, s'), n', sv')"
  shows "server_reachable sv' \<and> responses s' \<le> n' \<and> n' \<le> responses s' + 1 \<and> n' \<le> requests s' \<and> requests s' \<le> n' + 1 \<and>
    (x = Some (Inr ()) \<longrightarrow> responses s' = n') \<and>
    (\<forall>e. x = Some (Inl e) \<longrightarrow> (\<exists>m req. engine_throws (envs m) w (petrel_request req) e))"
  using assms(1,5-7)
proof (induction fuel arbitrary: s n sv)
  case 0
  then show ?case by (auto simp: serving_ok_def)
next
  case (Suc fuel)
  have sv: "server_reachable sv" using Suc.prems(1) by (simp add: serving_ok_def)
  show ?case
  proof (cases "so_is_open ops (m_socket s)")
    case False
    with Suc.prems sv show ?thesis by auto
  next
    case op: True
    obtain y s1 where y: "session_read fuel ops s = (y, s1)" by fastforce
    note c = session_read_counts [OF assms(4) y]
    show ?thesis
    proof (cases "\<exists>req. y = Some (Inr req)")
      case False
      then consider "y = None" | e where "y = Some (Inl e)" by (metis not_None_eq sumE)
      then show ?thesis
      proof cases
        case 1
        with Suc.prems op y c sv show ?thesis by auto
      next
        case 2
        with c have "system_error e" by simp
        from session_catch_system [OF this, of ops s1] 2 Suc.prems op y c sv show ?thesis by auto
      qed
    next
      case True
      then obtain req where req: "y = Some (Inr req)" ..
      obtain z s2 m sv2 where z: "session_respond ops session_router (session_handler envs oth w) req s1 (n, sv) = ((z, s2), m, sv2)"
        by (metis prod.exhaust)
      have "\<not> ready req" using session_read_fresh y req by blast
      note d = session_respond_cases [OF Suc.prems(1) assms(2,3,4) this _ z]
      from c req have g: "sr_method req \<in> {''GET'', ''POST''}" "requests s1 = requests s + 1" "responses s1 = responses s"
        by auto
      show ?thesis
      proof (cases "\<exists>u. z = Some (Inr u)")
        case False
        then consider "z = None" | e where "z = Some (Inl e)" by (metis not_None_eq sumE)
        then show ?thesis
        proof cases
          case 1
          with Suc.prems op y req z d [OF g(1)] g show ?thesis by auto
        next
          case 2
          with d [OF g(1)] have "engine_throws (envs n) w (petrel_request req) e" by simp
          with 2 session_catch_engine [OF this, of ops s2] Suc.prems op y req z d [OF g(1)] g show ?thesis by auto
        qed
      next
        case True
        with d [OF g(1)] g Suc.prems(2,3) have "serving_ok sv2" "responses s2 = m" "requests s2 = m" by auto
        moreover have "session_start fuel ops session_router (session_handler envs oth w) s2 (m, sv2) = ((x, s'), n', sv')"
          using Suc.prems(4) op y req z True by auto
        ultimately show ?thesis by (rule Suc.IH)
      qed
    qed
  qed
qed


text \<open>
  A client whose input ends: every operation that reads takes something from what the socket
  still holds, \<open>\<mu>\<close>, and no other operation adds to it.
\<close>

definition finite_input :: "'s socket_ops \<Rightarrow> ('s \<Rightarrow> nat) \<Rightarrow> bool" where
  "finite_input ops \<mu> \<longleftrightarrow> (\<forall>k. so_read_state ops k \<noteq> Rs_other \<and>
     (\<forall>q k'. so_read_request ops k = (Inr q, k') \<longrightarrow> \<mu> k' < \<mu> k) \<and>
     (\<forall>msg q k'. so_read_some ops msg k = (Inr q, k') \<longrightarrow> \<mu> k' < \<mu> k) \<and>
     (\<forall>msg q k'. so_read_trailers ops msg k = (Inr q, k') \<longrightarrow> \<mu> k' < \<mu> k) \<and>
     \<mu> (snd (so_write_continue ops k)) \<le> \<mu> k \<and>
     (\<forall>st re msg. \<mu> (snd (so_write_response ops st re msg k)) \<le> \<mu> k) \<and> \<mu> (so_close ops k) \<le> \<mu> k)"

lemma finite_inputD:
  assumes "finite_input ops \<mu>"
  shows "so_read_state ops k \<noteq> Rs_other"
    and "so_read_request ops k = (Inr q, k') \<Longrightarrow> \<mu> k' < \<mu> k"
    and "so_read_some ops msg k = (Inr q', k') \<Longrightarrow> \<mu> k' < \<mu> k"
    and "so_read_trailers ops msg k = (Inr q', k') \<Longrightarrow> \<mu> k' < \<mu> k"
    and "so_write_continue ops k = (u, k') \<Longrightarrow> \<mu> k' \<le> \<mu> k"
    and "so_write_response ops st re msg k = (u, k') \<Longrightarrow> \<mu> k' \<le> \<mu> k"
    and "\<mu> (so_close ops k) \<le> \<mu> k"
  using assms unfolding finite_input_def by (blast, blast, blast, blast, metis snd_conv, metis snd_conv, blast)

lemma m_socket_simps [simp]:
  "m_socket (called c k s) = k" "m_socket (log_error e s) = m_socket s" "m_socket (new_session k) = k"
  by (simp_all add: called_def log_error_def new_session_def)

lemma read_rest_ends:
  assumes "finite_input ops \<mu>" "\<mu> (m_socket s) < n" "read_rest n ops msg s = (x, s')"
  shows "x \<noteq> None \<and> (\<forall>q. x = Some (Inr q) \<longrightarrow> \<mu> (m_socket s') \<le> \<mu> (m_socket s))"
  using assms(2,3)
proof (induction n arbitrary: msg s)
  case (Suc n)
  note fi = finite_inputD [OF assms(1)]
  show ?case
  proof (cases "so_read_state ops (m_socket s)")
    case Rs_empty
    with Suc.prems show ?thesis by auto
  next
    case Rs_message_ready
    obtain y k where y: "so_read_some ops msg (m_socket s) = (y, k)" by fastforce
    show ?thesis
    proof (cases y)
      case (Inl e)
      with y Rs_message_ready Suc.prems show ?thesis by auto
    next
      case (Inr b)
      with y have "\<mu> k < \<mu> (m_socket s)" by (auto dest: fi(3))
      with y Rs_message_ready Suc.prems Suc.IH [of "called Read_some k s" b] Inr show ?thesis by force
    qed
  next
    case Rs_body_ready
    obtain y k where y: "so_read_trailers ops msg (m_socket s) = (y, k)" by fastforce
    show ?thesis
    proof (cases y)
      case (Inl e)
      with y Rs_body_ready Suc.prems show ?thesis by auto
    next
      case (Inr b)
      with y have "\<mu> k < \<mu> (m_socket s)" by (auto dest: fi(4))
      with y Rs_body_ready Suc.prems Suc.IH [of "called Read_trailers k s" b] Inr show ?thesis by force
    qed
  next
    case Rs_other
    with fi(1) show ?thesis by blast
  qed
qed simp

lemma session_read_ends:
  assumes "finite_input ops \<mu>" "\<mu> (m_socket s) \<le> n" "session_read n ops s = (x, s')"
  shows "x \<noteq> None \<and> (\<forall>q. x = Some (Inr q) \<longrightarrow> \<mu> (m_socket s') < \<mu> (m_socket s))"
proof (cases "\<exists>ep meth target msg k. so_remote_endpoint ops (m_socket s) = Inr ep \<and>
    so_read_request ops (m_socket s) = (Inr (meth, target, msg), k)")
  case False
  with assms(3) show ?thesis
    by (auto simp: session_read_def split: sum.splits prod.splits)
next
  case True
  then obtain ep meth target msg k where r: "so_remote_endpoint ops (m_socket s) = Inr ep"
    "so_read_request ops (m_socket s) = (Inr (meth, target, msg), k)" by blast
  from finite_inputD(2) [OF assms(1) this(2)] have lt: "\<mu> k < \<mu> (m_socket s)" .
  obtain z s1 where z: "session_continue ops msg (called Read_request k s) = (z, s1)" by fastforce
  have s1: "\<mu> (m_socket s1) \<le> \<mu> k"
    using z finite_inputD(5) [OF assms(1)] by (auto simp: session_continue_def split: if_splits prod.splits)
  show ?thesis
  proof (cases z)
    case (Inl e)
    with assms(3) r z show ?thesis by (auto simp: session_read_def)
  next
    case (Inr u)
    obtain v s2 where v: "read_rest n ops msg s1 = (v, s2)" by fastforce
    have "\<mu> (m_socket s1) < n" using lt s1 assms(2) by simp
    from read_rest_ends [OF assms(1) this v] assms(3) r z Inr v lt s1 show ?thesis
      by (auto simp: session_read_def split: option.splits sum.splits)
  qed
qed

lemma session_respond_socket:
  assumes "finite_input ops \<mu>" "session_respond ops rt hnd req s w = ((x, s'), w')"
  shows "\<mu> (m_socket s') \<le> \<mu> (m_socket s)"
proof -
  have "\<mu> (m_socket s2) \<le> \<mu> (m_socket s)" if "session_write ops res s = (y, s2)" for res y s2
    using that finite_inputD(6,7) [OF assms(1)]
    by (fastforce simp: session_write_def Let_def intro: order_trans split: sum.splits prod.splits cpp_error.splits)
  with assms(2) show ?thesis
    by (auto simp: session_respond_def split: option.splits prod.splits sum.splits request_data.splits if_splits)
qed

lemma session_start_ends:
  assumes "serving_ok sv" "others_ok oth" "\<And>n. he_fiber_error (envs n) = None" "socket_ok ops" "finite_input ops \<mu>"
    and "\<forall>m i s req s'. session_read m ops s = (Some (Inr req), s') \<longrightarrow>
           engine_returns (envs i) w (petrel_request req) \<and> (\<forall>e. \<not> engine_throws (envs i) w (petrel_request req) e)"
    and "\<mu> (m_socket s) < fuel"
  shows "fst (fst (session_start fuel ops session_router (session_handler envs oth w) s (n, sv))) = Some (Inr ())"
  using assms(1,7)
proof (induction fuel arbitrary: s n sv)
  case (Suc fuel)
  show ?case
  proof (cases "so_is_open ops (m_socket s)")
    case False
    then show ?thesis by simp
  next
    case op: True
    obtain y s1 where y: "session_read fuel ops s = (y, s1)" by fastforce
    have le: "\<mu> (m_socket s) \<le> fuel" using Suc.prems(2) by simp
    from session_read_ends [OF assms(5) le y] have e: "y \<noteq> None" "\<And>q. y = Some (Inr q) \<Longrightarrow> \<mu> (m_socket s1) < \<mu> (m_socket s)"
      by blast+
    show ?thesis
    proof (cases "\<exists>req. y = Some (Inr req)")
      case False
      with e(1) obtain x where x: "y = Some (Inl x)" by (metis not_None_eq sumE)
      with session_read_counts [OF assms(4) y] have "system_error x" by simp
      from session_catch_system [OF this, of ops s1] x op y show ?thesis by auto
    next
      case True
      then obtain req where req: "y = Some (Inr req)" ..
      obtain z s2 m sv2 where z: "session_respond ops session_router (session_handler envs oth w) req s1 (n, sv) = ((z, s2), m, sv2)"
        by (metis prod.exhaust)
      note y' = y [unfolded req]
      have g: "sr_method req \<in> {''GET'', ''POST''}" using session_read_counts [OF assms(4) y] req by auto
      note d = session_respond_cases [OF Suc.prems(1) assms(2,3,4) session_read_fresh [OF y'] g z]
      from assms(6) y' have "engine_returns (envs n) w (petrel_request req)"
        "\<And>e. \<not> engine_throws (envs n) w (petrel_request req) e" by blast+
      with d obtain u where u: "z = Some (Inr u)" "serving_ok sv2"
        by (cases z) (auto split: sum.splits)
      have "\<mu> (m_socket s2) < fuel" using session_respond_socket [OF assms(5) z] e(2) [OF req] le by linarith
      from Suc.IH [OF u(2) this, of m] op y req z u(1) show ?thesis by auto
    qed
  qed
qed simp


section \<open>A sample connection\<close>

text \<open>A client that sends as many requests as the socket's state says and then closes.\<close>

definition sample_socket :: "nat socket_ops" where
  "sample_socket =
     \<lparr>so_is_open = (\<lambda>k. 0 < k),
      so_remote_endpoint = (\<lambda>k. Inr \<lparr>ep_address = ''::1'', ep_is_v4 = False\<rparr>),
      so_read_request = (\<lambda>k. if 0 < k then (Inr (''GET'', ''/x'', \<lparr>msg_headers = [], msg_body = ''''\<rparr>), k - 1)
                             else (Inl (System_error 1), k)),
      so_write_continue = (\<lambda>k. (Inr (), k)), so_read_state = (\<lambda>k. Rs_empty),
      so_read_some = (\<lambda>msg k. (Inl (System_error 2), k)), so_read_trailers = (\<lambda>msg k. (Inl (System_error 2), k)),
      so_write_response = (\<lambda>st re msg k. (Inr (), k)), so_close = (\<lambda>k. 0), so_continue_required = (\<lambda>msg. False),
      so_status_text = (\<lambda>st. ''OK''), err_eof = 1, err_operation_aborted = 2, err_connection_reset = 3\<rparr>"

lemma sample_socket_ok: "socket_ok sample_socket" "finite_input sample_socket (\<lambda>k. k)"
  by (auto simp: socket_ok_def finite_input_def sample_socket_def system_error_def split: if_splits)

lemma sample_read:
  "session_read m sample_socket s = (Some (Inr req), s') \<Longrightarrow>
   req = (new_session_request \<lparr>ep_address = ''::1'', ep_is_v4 = False\<rparr>)\<lparr>sr_method := ''GET'', sr_path := ''/x''\<rparr>"
  by (cases m)
     (auto simp: session_read_def sample_socket_def session_continue_def new_session_request_def split: if_splits)

abbreviation sample_serving_env :: handler_env where
  "sample_serving_env \<equiv> sample_handler_env\<lparr>he_scripts := \<lambda>a. sample_script\<rparr>"

lemma sample_get_state: "managed m \<Longrightarrow> \<exists>a m'. get_state sample_env w m = (Inr a, m')"
proof -
  assume "managed m"
  then obtain used n where o: "owned (m, used, n)" by (auto simp: managed_def dest: owned_reachable)
  have code: "load_code_from_scripts (dofile sample_env) xs acc = Inr (acc @ xs)"
    "load_code_from_strings (dostring sample_env) xs acc = Inr (acc @ xs)" for xs acc
    by (induction xs arbitrary: acc) (simp_all add: load_code_from_scripts_def load_code_from_strings_def load_code_def sample_env_def)
  show ?thesis
  proof (cases "take_state w m")
    case None
    then show ?thesis by (simp add: get_state_def create_state_def code Let_def) (simp add: sample_env_def)
  next
    case (Some p)
    obtain a m1 where p: "p = (a, m1)" by (cases p)
    have "a \<in># cached m" using state_pool.take_free [OF Some [unfolded p]] by simp
    with owned_open [OF o, of a] take_state_fields [OF Some [unfolded p]] Some p show ?thesis
      by (auto simp: get_state_def code)
  qed
qed

lemma sample_handled:
  assumes "unanswered r" "headers_size r = 0" "cookie_table r = Inr None" "managed m"
  shows "\<exists>r' m'. handle_request sample_env (\<lambda>a. sample_script) 2 0 w fn r m st = Some (Inr (), r', m', st) \<and>
    answer r' = Some (201, final_headers (m_mode r) (response_headers r + {#(''k'', ''v'')#}) ''hi'', response_body r @ ''hi'')"
proof -
  let ?t = "[(Str ''status'', Number 201), (Str ''content'', Str ''hi''), (Str ''headers'', Table [(Str ''k'', Str ''v'')])]"
  from sample_get_state [OF assms(4)] obtain a m1 where g: "get_state sample_env w m = (Inr a, m1)" by blast
  have c: "lua_isfunction (global sample_script (c_str fn))"
    "call sample_script (global sample_script (c_str fn)) args = Inr (Table ?t)" for args
    by (simp_all add: sample_script_def)
  have us: "usable sample_script ?t 201 [(''k'', ''v'')] ''hi''" "header_count ?t < 2"
    by (simp_all add: usable_def header_count_def raw_get_def sample_script_def to_c_int_def trunc_def
        walkable_def string_headers_def map_filter_simps c_str_def)
  have "headers_size r < 2" "(0::int) \<le> 201" using assms(2) by simp_all
  from handle_request_usable [where scripts = "\<lambda>a. sample_script" and stacks = st and now = 0,
      OF g assms(1) this(1) assms(3) c us this(2)] show ?thesis by auto
qed

lemma sample_engine:
  assumes "unanswered r" "headers_size r = 0" "cookie_table r = Inr None"
  shows "engine_returns sample_serving_env w r" "\<not> engine_throws sample_serving_env w r e"
proof -
  have h: "\<exists>r' m'. handle_request (he_lua sample_serving_env) (he_scripts sample_serving_env) (he_fuel sample_serving_env)
      (he_time sample_serving_env) w fn r m st = Some (Inr (), r', m', st)" if "managed m" for fn m st
    using sample_handled [OF assms that, of w fn st] by (auto simp: sample_handler_env_def)
  show "engine_returns sample_serving_env w r" unfolding engine_returns_def using h by force
  show "\<not> engine_throws sample_serving_env w r e"
  proof
    assume "engine_throws sample_serving_env w r e"
    then obtain fn m st r1 m1 st1 where m: "managed m" and
      e: "handle_request (he_lua sample_serving_env) (he_scripts sample_serving_env) (he_fuel sample_serving_env)
        (he_time sample_serving_env) w fn r m st = Some (Inl e, r1, m1, st1)"
      unfolding engine_throws_def by blast
    from h [OF m, of fn st] e show False by simp
  qed
qed

lemma sample_others: "others_ok (\<lambda>n j sv. sv)"
  by (simp add: others_ok_def)

lemma sample_serving: "\<exists>sv req err tmr. serving_ok sv \<and> find_route (sv_router sv) ''/x'' = Some (Script_route ''f'' req err tmr)"
proof -
  obtain sv req err tmr where sv: "server_reachable sv"
    "find_route (sv_router sv) ''/x'' = Some (Script_route ''f'' req err tmr)"
    "sv_states sv = new_state_manager False [] []" "sv_files sv = new_file_cache"
    using sample_server by blast
  have "managed (new_state_manager False [] [])" unfolding managed_def by (blast intro: state_reachable.init)
  with sv show ?thesis by (auto simp: serving_ok_def sample_files_complete)
qed

lemma sample_read_engine:
  "session_read m sample_socket s = (Some (Inr req), s') \<Longrightarrow>
   engine_returns sample_serving_env w (petrel_request req) \<and> (\<forall>e. \<not> engine_throws sample_serving_env w (petrel_request req) e)"
proof -
  assume "session_read m sample_socket s = (Some (Inr req), s')"
  note r = sample_read [OF this]
  have "unanswered (petrel_request req)" "headers_size (petrel_request req) = 0" "cookie_table (petrel_request req) = Inr None"
    by (simp_all add: r petrel_request_def unanswered_def headers_size_def cookie_table_def header_exists_def find_key_def
        new_session_request_def)
  from sample_engine [OF this] show ?thesis by blast
qed




end
